(* ===== verification/Prelude.thy ===== *)
theory Prelude
  imports Main "HOL-Library.Sublist" "HOL-Library.AList"
begin

text \<open>
  Shared vocabulary of the development: the Python values the backend stores in
  its documents, ISO date strings, string helpers, and the generic facts about
  lists that the component theories use.

  Dates.  The backend keeps dates and date-times as ISO strings.  A well formed
  string is \<open>Iso d t\<close>: the calendar date as its ordinal \<open>d\<close> (Python's
  \<open>date.toordinal\<close>) and the position \<open>t\<close> of the rest of the string within the
  day; a date-only string has \<open>t = -1\<close>, because a string sorts after each of its
  proper prefixes.  A string whose first ten characters are the date \<open>d\<close> but which
  \<open>datetime.fromisoformat\<close> rejects is \<open>BadTail d t\<close>; any other string is
  \<open>Junk d t\<close>, where \<open>(d, t)\<close> is only its place in the string order.  MongoDB and
  Python compare these strings lexicographically, which is \<open>iso_less\<close>.

  Instants (\<open>datetime.now(UTC).isoformat()\<close>) are integers: seconds.
\<close>

named_theorems store_simps \<open>characteristic equations of the document store\<close>
named_theorems db_frames \<open>fields of the database an operation leaves alone\<close>
named_theorems wf_keeps \<open>well-formedness preservation, one fact per operation\<close>

section \<open>Python strings and optional fields\<close>

type_synonym day = int
type_synonym instant = int

definition lower_char :: "char \<Rightarrow> char" where
  "lower_char c =
     (let n = of_char c :: nat in if 65 \<le> n \<and> n \<le> 90 then char_of (n + 32) else c)"

definition upper_char :: "char \<Rightarrow> char" where
  "upper_char c =
     (let n = of_char c :: nat in if 97 \<le> n \<and> n \<le> 122 then char_of (n - 32) else c)"

definition is_space :: "char \<Rightarrow> bool" where
  "is_space c = (let n = of_char c :: nat in n = 32 \<or> (9 \<le> n \<and> n \<le> 13))"

text \<open>\<open>str.lower\<close>, \<open>str.strip\<close> and \<open>str.startswith\<close>.\<close>

definition lower :: "string \<Rightarrow> string" where
  "lower s = map lower_char s"

definition strip :: "string \<Rightarrow> string" where
  "strip s = rev (dropWhile is_space (rev (dropWhile is_space s)))"

definition startswith :: "string \<Rightarrow> string \<Rightarrow> bool" where
  "startswith s p = prefix p s"

text \<open>A field that may be missing: \<open>doc.get(k) or default\<close>.  Empty strings are falsy.\<close>

definition str_or :: "string option \<Rightarrow> string \<Rightarrow> string" where
  "str_or v d = (case v of None \<Rightarrow> d | Some s \<Rightarrow> if s = [] then d else s)"

definition truthy :: "string option \<Rightarrow> bool" where
  "truthy v = (case v of None \<Rightarrow> False | Some s \<Rightarrow> s \<noteq> [])"

definition get_default :: "'a \<Rightarrow> 'a option \<Rightarrow> 'a" where
  "get_default d v = (case v of None \<Rightarrow> d | Some x \<Rightarrow> x)"

lemma get_default_simps [simp]:
  "get_default d None = d" "get_default d (Some x) = x"
  by (simp_all add: get_default_def)

lemma str_or_simps [simp]:
  "str_or None d = d" "str_or (Some []) d = d" "s \<noteq> [] \<Longrightarrow> str_or (Some s) d = s"
  by (simp_all add: str_or_def)

lemma truthy_simps [simp]:
  "\<not> truthy None" "truthy (Some s) \<longleftrightarrow> s \<noteq> []"
  by (simp_all add: truthy_def)

section \<open>ISO date strings\<close>

datatype iso = Iso day int | BadTail day int | Junk day int

fun iso_key :: "iso \<Rightarrow> day \<times> int" where
  "iso_key (Iso d t) = (d, t)"
| "iso_key (BadTail d t) = (d, t)"
| "iso_key (Junk d t) = (d, t)"

text \<open>The order of the strings themselves.\<close>

definition iso_less :: "iso \<Rightarrow> iso \<Rightarrow> bool" where
  "iso_less a b =
     (fst (iso_key a) < fst (iso_key b)
      \<or> fst (iso_key a) = fst (iso_key b) \<and> snd (iso_key a) < snd (iso_key b))"

text \<open>\<open>datetime.fromisoformat(s).date()\<close>; \<open>None\<close> is the \<open>ValueError\<close>.\<close>

fun iso_date :: "iso \<Rightarrow> day option" where
  "iso_date (Iso d t) = Some d"
| "iso_date (BadTail d t) = None"
| "iso_date (Junk d t) = None"

text \<open>\<open>date.fromisoformat(s[:10])\<close>: only the first ten characters matter.\<close>

fun prefix_date :: "iso \<Rightarrow> day option" where
  "prefix_date (Iso d t) = Some d"
| "prefix_date (BadTail d t) = Some d"
| "prefix_date (Junk d t) = None"

text \<open>
  \<open>s[:10]\<close> as a string.  A \<open>Junk\<close> value and its prefix differ from every date-only
  string within the first ten characters, so they have the same place among them.
\<close>

fun prefix10 :: "iso \<Rightarrow> iso" where
  "prefix10 (Iso d t) = Iso d (- 1)"
| "prefix10 (BadTail d t) = Iso d (- 1)"
| "prefix10 (Junk d t) = Junk d t"

lemma iso_date_prefix_date: "iso_date a = Some d \<Longrightarrow> prefix_date a = Some d"
  by (cases a) auto

text \<open>\<open>date.isoformat()\<close>: a date-only string.\<close>

definition date_only :: "day \<Rightarrow> iso" where
  "date_only d = Iso d (- 1)"

lemma iso_date_date_only [simp]: "iso_date (date_only d) = Some d"
  by (simp add: date_only_def)

lemma iso_less_dates:
  "iso_date a = Some d \<Longrightarrow> iso_date b = Some e \<Longrightarrow> d < e \<Longrightarrow> iso_less a b"
  by (cases a; cases b) (auto simp: iso_less_def)

section \<open>Timestamps of documents and event metadata\<close>

text \<open>
  \<open>created_at\<close> of a document: absent, a readable instant, or a value that does not
  parse (its number is then only its place in the string order).
\<close>

datatype created = NoStamp | Stamp instant | BadStamp instant

text \<open>Values of the metadata dictionaries written to the event timeline.\<close>

datatype jval =
  JNull | JStr string | JInt int | JBool bool | JDay day | JDays "day list" | JIso iso
| JStrs "string list" | JTime instant

section \<open>Generic facts on pairs and lists\<close>

lemma code_pair: "snd p = y \<Longrightarrow> \<exists>x. p = (x, y)"
  by (cases p) simp

lemma find_Some_iff_first:
  "List.find P xs = Some x \<Longrightarrow> x \<in> set xs \<and> P x"
  by (induction xs) (auto split: if_splits)

lemma find_None_iff_none:
  "List.find P xs = None \<longleftrightarrow> (\<forall>x \<in> set xs. \<not> P x)"
  by (induction xs) auto

lemma find_unique:
  assumes "distinct (map k xs)" and "x \<in> set xs"
  shows "List.find (\<lambda>y. k y = k x) xs = Some x"
  using assms by (induction xs) (auto simp: image_iff)

lemma distinct_map_key_eq:
  "distinct (map k xs) \<Longrightarrow> x \<in> set xs \<Longrightarrow> y \<in> set xs \<Longrightarrow> k x = k y \<Longrightarrow> x = y"
  by (induction xs) (auto simp: image_iff)

lemma filter_eq_single: "distinct xs \<Longrightarrow> x \<in> set xs \<Longrightarrow> filter (\<lambda>y. y = x) xs = [x]"
  by (induction xs) (auto simp: filter_empty_conv)

lemma distinct_map_filter_key:
  "distinct (map k xs) \<Longrightarrow> distinct (map k (filter P xs))"
  by (induction xs) auto

lemma sum_list_map_filter_split:
  fixes f :: "'a \<Rightarrow> 'b::comm_monoid_add"
  shows "sum_list (map f xs) =
    sum_list (map f (filter P xs)) + sum_list (map f (filter (\<lambda>x. \<not> P x) xs))"
  by (induction xs) (auto simp: algebra_simps)

lemma length_filter_split:
  "length (filter p xs) = length (filter (\<lambda>x. p x \<and> q x) xs) + length (filter (\<lambda>x. p x \<and> \<not> q x) xs)"
  by (induction xs) auto

lemma length_card_image: "distinct xs \<Longrightarrow> inj_on f (set xs) \<Longrightarrow> length xs = card (f ` set xs)"
  by (simp add: card_image distinct_card)

end
