(* ===== verification/Store.thy ===== *)
theory Store
  imports Prelude
begin

text \<open>
  The document store.  A MongoDB collection is the list of its documents in
  natural order; the operations below are the documented behaviour of the driver
  calls the backend makes: each call is atomic on its own, \<open>find_one\<close> returns the
  first match, an insert under a unique index is rejected with
  \<open>DuplicateKeyError\<close> (here \<open>None\<close>) when a document with the same key exists, and
  \<open>delete_many\<close> / \<open>update_many\<close> act on all matches.

  The locale \<open>unique_table\<close> is the interface the lock code relies on: what an
  insert, a lookup and a deletion promise of a collection with a unique index.
  The locale \<open>invariant_system\<close> is the contract of every step relation of the
  development: an initial invariant kept by each step holds in every reachable
  state.
\<close>

section \<open>Driver calls\<close>

definition find_one :: "('d \<Rightarrow> bool) \<Rightarrow> 'd list \<Rightarrow> 'd option" where
  "find_one p c = List.find p c"

definition find_many :: "('d \<Rightarrow> bool) \<Rightarrow> 'd list \<Rightarrow> 'd list" where
  "find_many p c = filter p c"

text \<open>\<open>cursor.to_list(n)\<close> keeps the first \<open>n\<close> documents.\<close>

definition to_list :: "nat \<Rightarrow> 'd list \<Rightarrow> 'd list" where
  "to_list n c = take n c"

definition insert_unique :: "('d \<Rightarrow> 'k) \<Rightarrow> 'd \<Rightarrow> 'd list \<Rightarrow> 'd list option" where
  "insert_unique key d c = (if list_ex (\<lambda>e. key e = key d) c then None else Some (c @ [d]))"

definition delete_many :: "('d \<Rightarrow> bool) \<Rightarrow> 'd list \<Rightarrow> 'd list" where
  "delete_many p c = filter (\<lambda>d. \<not> p d) c"

definition count_documents :: "('d \<Rightarrow> bool) \<Rightarrow> 'd list \<Rightarrow> nat" where
  "count_documents p c = length (filter p c)"

fun delete_one :: "('d \<Rightarrow> bool) \<Rightarrow> 'd list \<Rightarrow> 'd list" where
  "delete_one p [] = []"
| "delete_one p (d # ds) = (if p d then ds else d # delete_one p ds)"

fun update_one :: "('d \<Rightarrow> bool) \<Rightarrow> ('d \<Rightarrow> 'd) \<Rightarrow> 'd list \<Rightarrow> 'd list" where
  "update_one p f [] = []"
| "update_one p f (d # ds) = (if p d then f d # ds else d # update_one p f ds)"

definition update_many :: "('d \<Rightarrow> bool) \<Rightarrow> ('d \<Rightarrow> 'd) \<Rightarrow> 'd list \<Rightarrow> 'd list" where
  "update_many p f c = map (\<lambda>d. if p d then f d else d) c"

section \<open>What the calls promise\<close>

lemma find_one_Some: "find_one p c = Some d \<Longrightarrow> d \<in> set c \<and> p d"
  unfolding find_one_def by (rule find_Some_iff_first)

lemma find_one_None [store_simps]: "find_one p c = None \<longleftrightarrow> (\<forall>d \<in> set c. \<not> p d)"
  unfolding find_one_def by (rule find_None_iff_none)

lemma insert_unique_None [store_simps]:
  "insert_unique key d c = None \<longleftrightarrow> (\<exists>e \<in> set c. key e = key d)"
  by (auto simp: insert_unique_def list_ex_iff)

lemma insert_unique_Some [store_simps]:
  "insert_unique key d c = Some c' \<longleftrightarrow> (\<forall>e \<in> set c. key e \<noteq> key d) \<and> c' = c @ [d]"
  by (auto simp: insert_unique_def list_ex_iff)

lemma set_delete_many [store_simps]: "set (delete_many p c) = {d \<in> set c. \<not> p d}"
  by (auto simp: delete_many_def)

lemma set_find_many [store_simps]: "set (find_many p c) = {d \<in> set c. p d}"
  by (auto simp: find_many_def)

lemma distinct_delete_many:
  "distinct (map key c) \<Longrightarrow> distinct (map key (delete_many p c))"
  unfolding delete_many_def by (rule distinct_map_filter_key)

lemma set_delete_one_subset: "set (delete_one p c) \<subseteq> set c"
  by (induction c) auto

lemma delete_one_none: "(\<And>d. d \<in> set c \<Longrightarrow> \<not> p d) \<Longrightarrow> delete_one p c = c"
  by (induction c) auto

lemma delete_one_unique:
  assumes "distinct (map key c)" and "\<And>d e. d \<in> set c \<Longrightarrow> e \<in> set c \<Longrightarrow> p d \<Longrightarrow> p e \<Longrightarrow> key d = key e"
  shows "delete_one p c = delete_many p c"
  using assms
proof (induction c)
  case Nil
  then show ?case by (simp add: delete_many_def)
next
  case (Cons d ds)
  show ?case
  proof (cases "p d")
    case True
    have "\<not> p e" if "e \<in> set ds" for e
    proof
      assume "p e"
      then have "key d = key e" using Cons.prems(2) True that by simp
      then show False using Cons.prems(1) that by (auto simp: image_iff)
    qed
    then have "filter (\<lambda>d. \<not> p d) ds = ds" by (simp add: filter_id_conv)
    with True show ?thesis by (simp add: delete_many_def)
  next
    case False
    have "delete_one p ds = delete_many p ds"
    proof (rule Cons.IH)
      show "distinct (map key ds)" using Cons.prems(1) by simp
      show "key d' = key e" if "d' \<in> set ds" "e \<in> set ds" "p d'" "p e" for d' e
        using Cons.prems(2)[of d' e] that by simp
    qed
    with False show ?thesis by (simp add: delete_many_def)
  qed
qed

lemma length_delete_many:
  "length (delete_many p c) + count_documents p c = length c"
  unfolding delete_many_def count_documents_def
  using sum_length_filter_compl[of p c] by simp

lemma map_update_many:
  "(\<And>d. p d \<Longrightarrow> key (f d) = key d) \<Longrightarrow> map key (update_many p f c) = map key c"
  by (simp add: update_many_def)

lemma map_update_one:
  "(\<And>d. p d \<Longrightarrow> key (f d) = key d) \<Longrightarrow> map key (update_one p f c) = map key c"
  by (induction c) auto

lemma set_update_one_cases:
  "d \<in> set (update_one p f c) \<Longrightarrow> d \<in> set c \<or> (\<exists>e \<in> set c. p e \<and> d = f e)"
  by (induction c) (auto split: if_splits)

lemma update_one_none: "(\<And>d. d \<in> set c \<Longrightarrow> \<not> p d) \<Longrightarrow> update_one p f c = c"
  by (induction c) auto

lemma update_many_hit: "d \<in> set c \<Longrightarrow> p d \<Longrightarrow> f d \<in> set (update_many p f c)"
  by (auto simp: update_many_def)

lemma update_one_unique:
  assumes "distinct (map key c)" "\<And>d. p d \<Longrightarrow> key d = k"
  shows "update_one p f c = update_many p f c"
  using assms(1)
proof (induction c)
  case (Cons d ds)
  have "map (\<lambda>x. if p x then f x else x) ds = ds" if "p d"
    using assms(2)[OF that] assms(2) Cons.prems by (intro map_idI) (auto simp: image_iff)
  with Cons show ?case by (simp add: update_many_def)
qed (simp add: update_many_def)

lemma update_one_is_many:
  "distinct (map key c) \<Longrightarrow> update_one (\<lambda>d. key d = k) f c = update_many (\<lambda>d. key d = k) f c"
  by (rule update_one_unique)

section \<open>The interface of a collection with a unique index\<close>

locale unique_table =
  fixes key :: "'d \<Rightarrow> 'k"
    and ok :: "'s \<Rightarrow> bool"
    and docs :: "'s \<Rightarrow> 'd set"
    and ins :: "'d \<Rightarrow> 's \<Rightarrow> 's option"
    and del :: "('d \<Rightarrow> bool) \<Rightarrow> 's \<Rightarrow> 's"
    and lookup :: "'k \<Rightarrow> 's \<Rightarrow> 'd option"
  assumes ins_rejected: "ok s \<Longrightarrow> ins d s = None \<longleftrightarrow> (\<exists>e \<in> docs s. key e = key d)"
    and ins_accepted: "ok s \<Longrightarrow> ins d s = Some s' \<Longrightarrow> ok s' \<and> docs s' = insert d (docs s)"
    and del_law: "ok s \<Longrightarrow> ok (del p s) \<and> docs (del p s) = {d \<in> docs s. \<not> p d}"
    and lookup_law: "ok s \<Longrightarrow> lookup k s = Some d \<longleftrightarrow> d \<in> docs s \<and> key d = k"
begin

lemma one_document_per_key:
  assumes "ok s" "d \<in> docs s" "e \<in> docs s" "key d = key e"
  shows "d = e"
proof -
  from assms have "lookup (key d) s = Some d" "lookup (key d) s = Some e"
    by (auto simp: lookup_law)
  then show ?thesis by simp
qed

lemma lookup_absent: "ok s \<Longrightarrow> lookup k s = None \<longleftrightarrow> (\<forall>d \<in> docs s. key d \<noteq> k)"
  using lookup_law[of s k] by (cases "lookup k s") auto

lemma lookup_after_insert:
  "ok s \<Longrightarrow> ins d s = Some s' \<Longrightarrow> lookup (key d) s' = Some d"
  using ins_accepted lookup_law by blast

lemma second_insert_rejected:
  assumes "ok s" "ins d s = Some s'" "key e = key d"
  shows "ins e s' = None"
proof -
  from assms ins_accepted have "ok s'" "docs s' = insert d (docs s)" by blast+
  then show ?thesis using ins_rejected[of s' e] assms(3) by auto
qed

lemma insert_after_delete:
  assumes "ok s" and "\<And>e. e \<in> docs s \<Longrightarrow> key e = key d \<Longrightarrow> p e"
  shows "\<exists>s'. ins d (del p s) = Some s'"
  using ins_rejected[of "del p s" d] del_law[OF assms(1), of p] assms(2) by auto

lemma delete_undoes_insert:
  assumes "ok s" "ins d s = Some s'" "p d" and "\<And>e. e \<in> docs s \<Longrightarrow> \<not> p e"
  shows "docs (del p s') = docs s"
  using ins_accepted[OF assms(1,2)] del_law[of s' p] assms(3,4) by auto

end

section \<open>The contract of a step relation\<close>

locale invariant_system =
  fixes start :: "'s \<Rightarrow> bool"
    and step :: "'s \<Rightarrow> 's \<Rightarrow> bool"
    and inv :: "'s \<Rightarrow> bool"
  assumes start_inv: "start s \<Longrightarrow> inv s"
    and step_inv: "inv s \<Longrightarrow> step s t \<Longrightarrow> inv t"
begin

lemma run_inv: "step\<^sup>*\<^sup>* s t \<Longrightarrow> inv s \<Longrightarrow> inv t"
  by (induction rule: rtranclp_induct) (auto intro: step_inv)

lemma reachable_inv: "start s \<Longrightarrow> step\<^sup>*\<^sup>* s t \<Longrightarrow> inv t"
  by (blast intro: run_inv start_inv)

end

end
