(* ===== verification/Stay.thy ===== *)
theory Stay
  imports Store
begin

text \<open>
  Stays and hotel nights: \<open>_night_dates\<close> of core/atomic_booking.py, the calendar
  overlap filter of core/stay_overlap.py and \<open>_nights\<close> of
  core/agency_allotment.py.  A stay occupies the nights \<open>[check_in, check_out)\<close>.
\<close>

section \<open>The nights of a stay\<close>

text \<open>The loop \<open>while current < co_date\<close> of \<open>_night_dates\<close>.\<close>

function nights_from :: "day \<Rightarrow> day \<Rightarrow> day list" where
  "nights_from current co_date =
     (if current < co_date then current # nights_from (current + 1) co_date else [])"
  by pat_completeness auto
termination
  by (relation "measure (\<lambda>(c, e). nat (e - c))") auto

declare nights_from.simps [simp del]

definition night_dates :: "iso \<Rightarrow> iso \<Rightarrow> day list option" where
  "night_dates check_in check_out =
     (case iso_date check_in of None \<Rightarrow> None
      | Some ci_date \<Rightarrow>
          (case iso_date check_out of None \<Rightarrow> None
           | Some co_date \<Rightarrow> Some (nights_from ci_date co_date)))"

lemma nights_from_upto: "nights_from a b = [a..b - 1]"
proof (induction a b rule: nights_from.induct)
  case (1 a b)
  show ?case
  proof (cases "a < b")
    case True
    with "1.IH" have "nights_from (a + 1) b = [a + 1..b - 1]" by simp
    with True show ?thesis by (simp add: nights_from.simps[of a b] upto_rec1)
  next
    case False
    then show ?thesis by (simp add: nights_from.simps[of a b])
  qed
qed

lemma set_nights_from [simp]: "set (nights_from a b) = {a..<b}"
  by (auto simp: nights_from_upto)

lemma distinct_nights_from [simp]: "distinct (nights_from a b)"
  by (simp add: nights_from_upto)

lemma nights_from_empty [simp]: "nights_from a b = [] \<longleftrightarrow> b \<le> a"
  by (auto simp: nights_from_upto)

lemma length_nights_from: "length (nights_from a b) = nat (b - a)"
  by (simp add: nights_from_upto)

lemma night_dates_Some:
  "night_dates ci co = Some ns \<longleftrightarrow>
     (\<exists>a b. iso_date ci = Some a \<and> iso_date co = Some b \<and> ns = nights_from a b)"
  by (auto simp: night_dates_def split: option.splits)

lemma night_dates_Iso [simp]: "night_dates (Iso a t) (Iso b u) = Some (nights_from a b)"
  by (simp add: night_dates_def)

section \<open>The overlap filter of availability queries\<close>

text \<open>\<open>_next_day\<close>: \<open>None\<close> is the \<open>ValueError\<close> of \<open>date.fromisoformat\<close>.\<close>

definition next_day :: "iso \<Rightarrow> iso option" where
  "next_day d = map_option (\<lambda>n. date_only (n + 1)) (prefix_date d)"

text \<open>
  \<open>stay_overlap_filter\<close>: the Mongo filter for a request, as the predicate it is on
  the stored \<open>check_in\<close> and \<open>check_out\<close> of a booking.
\<close>

definition stay_overlap_filter :: "iso \<Rightarrow> iso \<Rightarrow> (iso \<Rightarrow> iso \<Rightarrow> bool) option" where
  "stay_overlap_filter check_in check_out =
     (let start = prefix10 check_in; stop = prefix10 check_out in
      case next_day stop of None \<Rightarrow> None
      | Some after \<Rightarrow>
          Some (\<lambda>ci co. iso_less ci after \<and> iso_less start co
                  \<and> iso_less (prefix10 ci) stop \<and> iso_less start (prefix10 co)))"

text \<open>\<open>_nights\<close> of the allotment guard: a range of day offsets from the start.\<close>

definition allotment_nights :: "iso \<Rightarrow> iso \<Rightarrow> day list option" where
  "allotment_nights check_in check_out =
     (case (prefix_date check_in, prefix_date check_out) of
        (Some start, Some stop) \<Rightarrow>
          Some (map (\<lambda>i. start + int i) [0..<nat (stop - start)])
      | _ \<Rightarrow> None)"

lemma stay_overlap_filter_dates:
  assumes "prefix_date ci = Some a" "prefix_date co = Some b"
    and "prefix_date s = Some x" "prefix_date e = Some y"
  shows "map_option (\<lambda>f. f ci co) (stay_overlap_filter s e) = Some (a < y \<and> x < b)"
  using assms
  by (cases ci; cases co; cases s; cases e)
     (auto simp: stay_overlap_filter_def next_day_def iso_less_def date_only_def)

lemma ranges_meet:
  fixes a b x y :: int
  assumes "a < b" "x < y"
  shows "a < y \<and> x < b \<longleftrightarrow> {a..<b} \<inter> {x..<y} \<noteq> {}"
proof
  assume "a < y \<and> x < b"
  with assms have "max a x \<in> {a..<b} \<inter> {x..<y}" by auto
  then show "{a..<b} \<inter> {x..<y} \<noteq> {}" by blast
qed auto

lemma allotment_nights_agree:
  assumes "iso_date ci = Some a" "iso_date co = Some b"
  shows "allotment_nights ci co = night_dates ci co"
proof -
  have "map (\<lambda>i. a + int i) [0..<nat (b - a)] = nights_from a b"
  proof (rule nth_equalityI)
    show "length (map (\<lambda>i. a + int i) [0..<nat (b - a)]) = length (nights_from a b)"
      by (simp add: length_nights_from)
  next
    fix i
    assume "i < length (map (\<lambda>i. a + int i) [0..<nat (b - a)])"
    then show "map (\<lambda>i. a + int i) [0..<nat (b - a)] ! i = nights_from a b ! i"
      by (simp add: nights_from_upto nth_upto)
  qed
  then show ?thesis
    using assms iso_date_prefix_date[OF assms(1)] iso_date_prefix_date[OF assms(2)]
    by (simp add: allotment_nights_def night_dates_def)
qed

end
