(* ===== verification/Timeline.thy ===== *)
theory Timeline
  imports Store
begin

text \<open>
  The event timeline (controlplane/timeline_writer.py).  Every subsystem appends to
  it and never fails because of it: a write error is swallowed.  Whether an insert
  into the collection succeeds is the parameter \<open>up\<close>.
\<close>

record event =
  ev_tenant :: string
  ev_corr :: string
  ev_entity_type :: string
  ev_entity :: string
  ev_stage :: string
  ev_status :: string
  ev_source :: string
  ev_provider :: string
  ev_sequence :: nat
  ev_meta :: "(string \<times> jval) list"

type_synonym metadata = "(string \<times> jval) list"

text \<open>
  \<open>TimelineWriter.append\<close>: number the event within its correlation, insert it, and
  return quietly when the insert raises.  The random id, the clock and the fields
  no caller in this development sets are left out.
\<close>

definition timeline_append ::
  "(event \<Rightarrow> bool) \<Rightarrow> string \<Rightarrow> string \<Rightarrow> string \<Rightarrow> string \<Rightarrow> string \<Rightarrow> string \<Rightarrow> string \<Rightarrow>
   string \<Rightarrow> metadata \<Rightarrow> event list \<Rightarrow> event list" where
  "timeline_append up tenant corr entity_type entity stage status source provider meta evs =
     (let seq = count_documents (\<lambda>e. ev_corr e = corr) evs;
          doc = \<lparr>ev_tenant = tenant, ev_corr = corr, ev_entity_type = entity_type,
                 ev_entity = entity, ev_stage = stage, ev_status = status,
                 ev_source = source, ev_provider = provider, ev_sequence = seq + 1,
                 ev_meta = meta\<rparr>
      in if up doc then evs @ [doc] else evs)"

lemma timeline_append_prefix:
  "\<exists>new. timeline_append up t c et e sg st so pr m evs = evs @ new"
  by (simp add: timeline_append_def Let_def)

lemma timeline_append_keeps:
  "e \<in> set evs \<Longrightarrow> e \<in> set (timeline_append up t c et en sg st so pr m evs)"
  by (auto simp: timeline_append_def Let_def)

lemma timeline_append_up:
  assumes "\<And>d. up d"
  shows "\<exists>d \<in> set (timeline_append up t c et en sg st so pr m evs).
           ev_tenant d = t \<and> ev_corr d = c \<and> ev_entity d = en \<and> ev_stage d = sg \<and>
           ev_status d = st \<and> ev_meta d = m"
  using assms by (simp add: timeline_append_def Let_def)

text \<open>Sequence numbers of one correlation: \<open>1, 2, 3, \<dots>\<close> in the order of the writes.\<close>

definition sequenced :: "event list \<Rightarrow> bool" where
  "sequenced evs \<longleftrightarrow>
     (\<forall>c. map ev_sequence (filter (\<lambda>e. ev_corr e = c) evs)
            = [1..<Suc (length (filter (\<lambda>e. ev_corr e = c) evs))])"

lemma sequenced_Nil [simp]: "sequenced []"
  by (simp add: sequenced_def)

lemma sequenced_append:
  assumes "sequenced evs"
  shows "sequenced (timeline_append up t c et en sg st so pr m evs)"
  using assms
  by (auto simp: sequenced_def timeline_append_def Let_def count_documents_def)

end
