(* ===== verification/Outbox.thy ===== *)
theory Outbox
  imports Timeline
begin

text \<open>
  The transactional outbox: core/outbox_service.py (write side), the worker of
  core/outbox_worker.py (claim, retry, recovery) and the routing of
  core/outbox_dispatcher.py.

  The collection \<open>outbox_events\<close> is a list with a unique index on the idempotency key.
  Parameters of the model: \<open>digest\<close> (sha256 of the canonical JSON of a payload), the
  clock, and what the provider adapters answer.
\<close>

record outbox_event =
  ob_id :: string
  ob_tenant :: string
  ob_property :: string
  ob_type :: string
  ob_entity_type :: string
  ob_entity :: string
  ob_provider :: "string option"
  ob_payload :: metadata
  ob_status :: string
  ob_attempts :: int
  ob_max :: int
  ob_available :: instant
  ob_last_error :: "string option"
  ob_last_attempt :: "instant option"
  ob_processed :: "instant option"
  ob_key :: string
  ob_corr :: string
  ob_created :: instant

section \<open>Error classification and backoff\<close>

fun contains :: "string \<Rightarrow> string \<Rightarrow> bool" where
  "contains kw [] = (kw = [])"
| "contains kw (c # cs) = (prefix kw (c # cs) \<or> contains kw cs)"

definition retryable_error_keywords :: "string list" where
  "retryable_error_keywords =
     [''timeout'', ''timed out'', ''connection refused'', ''connection reset'', ''502'',
      ''503'', ''504'', ''429'', ''rate limit'', ''temporary'', ''unavailable'', ''network'']"

definition permanent_error_keywords :: "string list" where
  "permanent_error_keywords =
     [''mapping error'', ''invalid payload'', ''invalid_xml'', ''authentication failed'',
      ''401'', ''403'', ''permanent'', ''unsupported'', ''schema_mismatch'']"

definition is_retryable_error :: "string \<Rightarrow> bool" where
  "is_retryable_error error_message =
     (let msg_lower = lower error_message in
      if list_ex (\<lambda>kw. contains kw msg_lower) permanent_error_keywords then False
      else if list_ex (\<lambda>kw. contains kw msg_lower) retryable_error_keywords then True
      else True)"

definition retry_backoff :: "(int \<times> int) list" where
  "retry_backoff =
     [(1, 0), (2, 30), (3, 120), (4, 600), (5, 1800), (6, 14400), (7, 28800), (8, 43200)]"

definition compute_next_available_at :: "instant \<Rightarrow> int \<Rightarrow> instant" where
  "compute_next_available_at now attempt_count =
     now + get_default 1800 (map_of retry_backoff attempt_count)"

section \<open>Enqueueing\<close>

definition build_idempotency_key ::
  "(metadata \<Rightarrow> string) \<Rightarrow> string \<Rightarrow> string \<Rightarrow> string \<Rightarrow> metadata \<Rightarrow> string" where
  "build_idempotency_key digest tenant event_type entity payload =
     tenant @ '':'' @ event_type @ '':'' @ entity @ '':'' @ digest payload"

text \<open>
  \<open>enqueue_outbox_event\<close>: build the document and insert it under the unique index;
  \<open>DuplicateKeyError\<close> means the event is already there.  The built document is
  returned in both cases.
\<close>

definition enqueue_outbox_event ::
  "(metadata \<Rightarrow> string) \<Rightarrow> instant \<Rightarrow> string \<Rightarrow> string \<Rightarrow> string \<Rightarrow> string \<Rightarrow> string \<Rightarrow> metadata \<Rightarrow>
   string option \<Rightarrow> string option \<Rightarrow> string \<Rightarrow> int \<Rightarrow> string option \<Rightarrow> outbox_event list \<Rightarrow>
   outbox_event list \<times> outbox_event" where
  "enqueue_outbox_event digest now event_id tenant event_type entity_type entity payload
     provider property corr max_attempts idempotency_key ob =
     (let key = str_or idempotency_key
                  (build_idempotency_key digest tenant event_type entity payload);
          doc = \<lparr>ob_id = event_id, ob_tenant = tenant, ob_property = str_or property tenant,
                 ob_type = event_type, ob_entity_type = entity_type, ob_entity = entity,
                 ob_provider = provider, ob_payload = payload, ob_status = ''pending'',
                 ob_attempts = 0, ob_max = max_attempts, ob_available = now,
                 ob_last_error = None, ob_last_attempt = None, ob_processed = None,
                 ob_key = key, ob_corr = corr, ob_created = now\<rparr>
      in case insert_unique ob_key doc ob of
           Some ob' \<Rightarrow> (ob', doc)
         | None \<Rightarrow> (ob, doc))"

section \<open>The worker\<close>

record worker =
  w_events :: "outbox_event list"
  w_timeline :: "event list"
  w_processed :: nat
  w_failed :: nat
  w_retried :: nat

text \<open>\<open>_recover_stuck\<close>: events left in \<open>processing\<close> beyond the timeout.\<close>

definition recover_stuck :: "instant \<Rightarrow> int \<Rightarrow> worker \<Rightarrow> worker" where
  "recover_stuck now timeout w =
     (let cutoff = now - timeout in
      w\<lparr>w_events := update_many
           (\<lambda>e. ob_status e = ''processing'' \<and>
                (case ob_last_attempt e of None \<Rightarrow> False | Some t \<Rightarrow> t \<le> cutoff))
           (\<lambda>e. e\<lparr>ob_status := ''retry'', ob_available := now,
                 ob_last_error := Some ''processing timeout: recovered by worker''\<rparr>)
           (w_events w)\<rparr>)"

text \<open>The query of \<open>_claim_event\<close>; test tenants are skipped by the shared worker.\<close>

definition claimable :: "instant \<Rightarrow> string option \<Rightarrow> outbox_event \<Rightarrow> bool" where
  "claimable now only_tenant e \<longleftrightarrow>
     (ob_status e = ''pending'' \<or> ob_status e = ''retry'') \<and> ob_available e \<le> now \<and>
     (if truthy only_tenant then Some (ob_tenant e) = only_tenant
      else \<not> startswith (ob_tenant e) ''test_outbox_'')"

fun oldest :: "outbox_event list \<Rightarrow> outbox_event option" where
  "oldest [] = None"
| "oldest (e # es) =
     (case oldest es of None \<Rightarrow> Some e
      | Some f \<Rightarrow> if ob_created f < ob_created e then Some f else Some e)"

text \<open>\<open>find_one_and_update\<close>: the oldest claimable event, returned as updated.\<close>

definition claim_event ::
  "instant \<Rightarrow> string option \<Rightarrow> worker \<Rightarrow> worker \<times> outbox_event option" where
  "claim_event now only_tenant w =
     (case oldest (filter (claimable now only_tenant) (w_events w)) of
        None \<Rightarrow> (w, None)
      | Some e \<Rightarrow>
          (let e' = e\<lparr>ob_status := ''processing'', ob_last_attempt := Some now,
                       ob_attempts := ob_attempts e + 1\<rparr>
           in (w\<lparr>w_events := update_one (\<lambda>x. ob_id x = ob_id e \<and> claimable now only_tenant x)
                                (\<lambda>_. e') (w_events w)\<rparr>, Some e')))"

definition worker_event ::
  "(event \<Rightarrow> bool) \<Rightarrow> outbox_event \<Rightarrow> string \<Rightarrow> string \<Rightarrow> metadata \<Rightarrow> worker \<Rightarrow> worker" where
  "worker_event up e stage status meta w =
     w\<lparr>w_timeline := timeline_append up (ob_tenant e) (ob_corr e) (ob_entity_type e) (ob_entity e)
          stage status ''outbox_worker'' (str_or (ob_provider e) '''') meta (w_timeline w)\<rparr>"

text \<open>\<open>_mark_processed\<close>: only an event still in \<open>processing\<close> is written.\<close>

definition mark_processed ::
  "(event \<Rightarrow> bool) \<Rightarrow> instant \<Rightarrow> outbox_event \<Rightarrow> string \<Rightarrow> worker \<Rightarrow> worker" where
  "mark_processed up now e message w =
     worker_event up e ''confirmed'' ''success''
       [(''outbox_event_id'', JStr (ob_id e)), (''message'', JStr (take 200 message))]
       (w\<lparr>w_events := update_one (\<lambda>x. ob_id x = ob_id e \<and> ob_status x = ''processing'')
            (\<lambda>x. x\<lparr>ob_status := ''processed'', ob_processed := Some now, ob_last_error := None\<rparr>)
            (w_events w),
          w_processed := w_processed w + 1\<rparr>)"

text \<open>\<open>_handle_failure\<close>: dead-letter a permanent or exhausted event, else back off.\<close>

definition handle_failure ::
  "(event \<Rightarrow> bool) \<Rightarrow> instant \<Rightarrow> outbox_event \<Rightarrow> string \<Rightarrow> worker \<Rightarrow> worker" where
  "handle_failure up now e message w =
     (let is_permanent = startswith message ''permanent:'' in
      if is_permanent \<or> ob_max e \<le> ob_attempts e then
        worker_event up e ''dispatched'' ''failure''
          [(''outbox_event_id'', JStr (ob_id e)), (''error_message'', JStr (take 500 message)),
           (''attempt_count'', JInt (ob_attempts e)), (''permanent'', JBool True)]
          (w\<lparr>w_events := update_one (\<lambda>x. ob_id x = ob_id e \<and> ob_status x = ''processing'')
               (\<lambda>x. x\<lparr>ob_status := ''failed'', ob_last_error := Some (take 1000 message)\<rparr>)
               (w_events w),
             w_failed := w_failed w + 1\<rparr>)
      else
        w\<lparr>w_events := update_one (\<lambda>x. ob_id x = ob_id e \<and> ob_status x = ''processing'')
             (\<lambda>x. x\<lparr>ob_status := ''retry'', ob_last_error := Some (take 1000 message),
                   ob_available := compute_next_available_at now (ob_attempts e + 1)\<rparr>)
             (w_events w),
           w_retried := w_retried w + 1\<rparr>)"

text \<open>
  What a dispatch attempt ends in: the pair the dispatcher returns, or an exception
  with its message.
\<close>

datatype dispatch_result = Answer bool string | Raised string

definition process_event ::
  "(event \<Rightarrow> bool) \<Rightarrow> instant \<Rightarrow> (outbox_event \<Rightarrow> dispatch_result) \<Rightarrow> outbox_event \<Rightarrow> worker \<Rightarrow> worker" where
  "process_event up now dispatch e w =
     (let w1 = worker_event up e ''dispatched'' ''success''
                 [(''outbox_event_id'', JStr (ob_id e))] w
      in case dispatch e of
           Answer success message \<Rightarrow>
             if success then mark_processed up now e message w1
             else handle_failure up now e message w1
         | Raised error_msg \<Rightarrow>
             if is_retryable_error error_msg
             then handle_failure up now e (''retryable: '' @ take 500 error_msg) w1
             else handle_failure up now e (''permanent: '' @ take 500 error_msg) w1)"

text \<open>\<open>_process_batch\<close>: at most \<open>n\<close> events; the count it returns is the second component.\<close>

fun process_batch ::
  "(event \<Rightarrow> bool) \<Rightarrow> instant \<Rightarrow> string option \<Rightarrow> (outbox_event \<Rightarrow> dispatch_result) \<Rightarrow> nat \<Rightarrow>
   worker \<Rightarrow> worker \<times> nat" where
  "process_batch up now only_tenant dispatch 0 w = (w, 0)"
| "process_batch up now only_tenant dispatch (Suc n) w =
     (case claim_event now only_tenant w of
        (w', None) \<Rightarrow> (w', 0)
      | (w', Some e) \<Rightarrow>
          (let (w'', k) = process_batch up now only_tenant dispatch n
                            (process_event up now dispatch e w')
           in (w'', Suc k)))"


section \<open>Facts about the driver calls on the queue\<close>

lemma update_one_keeps: "e \<in> set c \<Longrightarrow> \<not> p e \<Longrightarrow> e \<in> set (update_one p f c)"
  by (induction c) auto

lemma oldest_in: "oldest c = Some e \<Longrightarrow> e \<in> set c"
  by (induction c arbitrary: e) (auto split: option.splits if_splits)

lemma oldest_None: "oldest c = None \<longleftrightarrow> c = []"
  by (cases c) (auto split: option.splits)

lemma oldest_least: "oldest c = Some e \<Longrightarrow> x \<in> set c \<Longrightarrow> ob_created e \<le> ob_created x"
proof (induction c arbitrary: e)
  case Nil
  then show ?case by simp
next
  case (Cons y c)
  show ?case
  proof (cases "oldest c")
    case None
    then have "c = []" by (simp add: oldest_None)
    with Cons.prems show ?thesis by simp
  next
    case (Some f)
    with Cons.prems Cons.IH[OF Some] show ?thesis by (force split: if_splits)
  qed
qed

lemma update_one_by_id:
  assumes "distinct (map k c)" "e \<in> set c" "p e" "\<And>x. x \<in> set c \<Longrightarrow> p x \<Longrightarrow> k x = k e"
  shows "update_one p f c = map (\<lambda>x. if k x = k e then f x else x) c"
  using assms
proof (induction c)
  case Nil
  then show ?case by simp
next
  case (Cons y c)
  show ?case
  proof (cases "p y")
    case True
    then have ky: "k y = k e" using Cons.prems(4) by simp
    then have "\<forall>x \<in> set c. k x \<noteq> k e" using Cons.prems(1) by (auto simp: image_iff)
    then have "map (\<lambda>x. if k x = k e then f x else x) c = c"
      by (simp add: map_idI)
    with True ky show ?thesis by simp
  next
    case False
    then have ne: "y \<noteq> e" using Cons.prems(3) by auto
    then have ec: "e \<in> set c" using Cons.prems(2) by simp
    then have "k y \<noteq> k e" using Cons.prems(1) by (auto simp: image_iff)
    moreover have "update_one p f c = map (\<lambda>x. if k x = k e then f x else x) c"
    proof (rule Cons.IH[OF _ ec Cons.prems(3)])
      show "distinct (map k c)" using Cons.prems(1) by simp
      show "k x = k e" if "x \<in> set c" "p x" for x
        using Cons.prems(4)[of x] that by simp
    qed
    ultimately show ?thesis using False by simp
  qed
qed

lemmas handler_defs = claim_event_def mark_processed_def handle_failure_def recover_stuck_def
  worker_event_def

lemma claim_event_Some:
  assumes "claim_event now t w = (w', Some e')"
  obtains e where "e \<in> set (w_events w)" "claimable now t e"
    "e' = e\<lparr>ob_status := ''processing'', ob_last_attempt := Some now,
            ob_attempts := ob_attempts e + 1\<rparr>"
    "w_events w' = update_one (\<lambda>x. ob_id x = ob_id e \<and> claimable now t x) (\<lambda>_. e') (w_events w)"
  using assms
  by (auto simp: claim_event_def Let_def dest!: oldest_in split: option.splits)

section \<open>Idempotent enqueueing\<close>

definition queue_ok :: "outbox_event list \<Rightarrow> bool" where
  "queue_ok ob \<longleftrightarrow> distinct (map ob_id ob) \<and> distinct (map ob_key ob)"

text \<open>The queue after an enqueue: grown by one document, unless its key is taken.\<close>

lemma enqueue_queue:
  "fst (enqueue_outbox_event dg now i t ty et en pl pr po co mx k ob) =
     (if str_or k (build_idempotency_key dg t ty en pl) \<in> ob_key ` set ob then ob
      else ob @ [snd (enqueue_outbox_event dg now i t ty et en pl pr po co mx k ob)])"
  by (simp add: enqueue_outbox_event_def Let_def insert_unique_def list_ex_iff image_iff eq_commute)

lemma enqueue_doc [simp]:
  "ob_key (snd (enqueue_outbox_event dg now i t ty et en pl pr po co mx k ob))
     = str_or k (build_idempotency_key dg t ty en pl)"
  "ob_id (snd (enqueue_outbox_event dg now i t ty et en pl pr po co mx k ob)) = i"
  "ob_status (snd (enqueue_outbox_event dg now i t ty et en pl pr po co mx k ob)) = ''pending''"
  "ob_attempts (snd (enqueue_outbox_event dg now i t ty et en pl pr po co mx k ob)) = 0"
  "ob_max (snd (enqueue_outbox_event dg now i t ty et en pl pr po co mx k ob)) = mx"
  by (simp_all add: enqueue_outbox_event_def Let_def split: option.split)

lemma enqueue_queue_ok:
  assumes "queue_ok ob" "i \<notin> ob_id ` set ob"
  shows "queue_ok (fst (enqueue_outbox_event dg now i t ty et en pl pr po co mx k ob))"
  using assms by (auto simp: enqueue_queue queue_ok_def)

text \<open>
  A retried business operation enqueues its event once: a second call for the same
  tenant, event type, entity, payload and explicit key leaves the queue as it was,
  whatever its event id, its clock, its provider, correlation and retry budget.
\<close>

theorem enqueue_idempotent:
  "fst (enqueue_outbox_event dg now' i' t ty et' en pl pr' po' co' mx' k
          (fst (enqueue_outbox_event dg now i t ty et en pl pr po co mx k ob)))
   = fst (enqueue_outbox_event dg now i t ty et en pl pr po co mx k ob)"
  by (simp add: enqueue_queue)

section \<open>The lifecycle of events under several workers\<close>

text \<open>
  \<open>sys\<close> is the queue with the events the workers have claimed and not yet finished.
  Every rule is one atomic database call of one worker; \<open>Crash\<close> loses a claimed event
  (the process dies before it marks the event), \<open>Recover\<close> is the recovery scan.  The
  flag says whether recovery scans happen.
\<close>

record sys =
  s_worker :: worker
  s_inflight :: "outbox_event list"

inductive outbox_step :: "bool \<Rightarrow> sys \<Rightarrow> sys \<Rightarrow> bool" where
  Enqueue: "i \<notin> ob_id ` set (w_events (s_worker s)) \<Longrightarrow> 0 < mx \<Longrightarrow>
     outbox_step rec s (s\<lparr>s_worker := (s_worker s)\<lparr>w_events :=
       fst (enqueue_outbox_event dg now i t ty et en pl pr po co mx k
              (w_events (s_worker s)))\<rparr>\<rparr>)"
| Claim: "claim_event now t (s_worker s) = (w', Some e) \<Longrightarrow>
     outbox_step rec s \<lparr>s_worker = w', s_inflight = e # s_inflight s\<rparr>"
| Processed: "e \<in> set (s_inflight s) \<Longrightarrow>
     outbox_step rec s \<lparr>s_worker = mark_processed up now e m (s_worker s),
       s_inflight = remove1 e (s_inflight s)\<rparr>"
| Failed: "e \<in> set (s_inflight s) \<Longrightarrow>
     outbox_step rec s \<lparr>s_worker = handle_failure up now e m (s_worker s),
       s_inflight = remove1 e (s_inflight s)\<rparr>"
| Crash: "e \<in> set (s_inflight s) \<Longrightarrow>
     outbox_step rec s (s\<lparr>s_inflight := remove1 e (s_inflight s)\<rparr>)"
| Recover: "outbox_step True s (s\<lparr>s_worker := recover_stuck now timeout (s_worker s)\<rparr>)"

definition finished :: "outbox_event \<Rightarrow> bool" where
  "finished e \<longleftrightarrow> ob_status e = ''processed'' \<or> ob_status e = ''failed''"

lemma finished_stays:
  assumes "outbox_step rec s t" "e \<in> set (w_events (s_worker s))" "finished e"
  shows "e \<in> set (w_events (s_worker t))"
  using assms
proof (induction rule: outbox_step.induct)
  case (Enqueue i s mx rec dg now t ty et en pl pr po co k)
  then show ?case
    by (simp add: enqueue_queue)
next
  case (Claim now t s w' e' rec)
  then show ?case
    by (elim claim_event_Some) (auto simp: finished_def claimable_def intro: update_one_keeps)
next
  case (Processed e' s rec up now m)
  then show ?case
    by (auto simp: mark_processed_def worker_event_def finished_def intro!: update_one_keeps)
next
  case (Failed e' s rec up now m)
  then show ?case
    by (auto simp: handle_failure_def worker_event_def Let_def finished_def intro!: update_one_keeps)
next
  case (Crash e' s rec)
  then show ?case by simp
next
  case (Recover s now timeout)
  then show ?case
    by (force simp: recover_stuck_def update_many_def Let_def finished_def)
qed

text \<open>
  A finished event is a one-element invariant: every step of every worker keeps it.
\<close>

interpretation outbox_final: invariant_system "\<lambda>s. e \<in> set (w_events (s_worker s)) \<and> finished e"
  "outbox_step rec" "\<lambda>s. e \<in> set (w_events (s_worker s)) \<and> finished e" for e rec
  by unfold_locales (auto dest: finished_stays)

text \<open>
  Under any interleaving of enqueues, claims, completions, failures, worker crashes
  and recovery scans, an event that was processed or dead-lettered stays in the queue
  exactly as it was: no worker holding a stale snapshot overwrites it.
\<close>

theorem finished_events_final:
  assumes "(outbox_step rec)\<^sup>*\<^sup>* s t" "e \<in> set (w_events (s_worker s))" "finished e"
  shows "e \<in> set (w_events (s_worker t))"
  using outbox_final.run_inv[OF assms(1)] assms(2,3) by blast

section \<open>The retry budget\<close>

text \<open>
  Without recovery scans a claimed event has exactly one holder, whose snapshot agrees
  with the stored attempt count, so the guard of \<open>handle_failure\<close> bounds the attempts.
\<close>

definition snapshot_ok :: "outbox_event list \<Rightarrow> outbox_event \<Rightarrow> bool" where
  "snapshot_ok ob e \<longleftrightarrow> (\<forall>x \<in> set ob. ob_id x = ob_id e \<longrightarrow>
     ob_status x = ''processing'' \<and> ob_attempts x = ob_attempts e \<and> ob_max x = ob_max e)"

definition budget_event :: "outbox_event \<Rightarrow> bool" where
  "budget_event x \<longleftrightarrow> ob_attempts x \<le> ob_max x \<and>
     (ob_status x = ''pending'' \<or> ob_status x = ''retry'' \<longrightarrow> ob_attempts x < ob_max x)"

definition budget_inv :: "sys \<Rightarrow> bool" where
  "budget_inv s \<longleftrightarrow> distinct (map ob_id (w_events (s_worker s))) \<and>
     (\<forall>x \<in> set (w_events (s_worker s)). budget_event x) \<and>
     (\<forall>e \<in> set (s_inflight s). snapshot_ok (w_events (s_worker s)) e \<and>
        ob_id e \<in> ob_id ` set (w_events (s_worker s))) \<and>
     distinct (map ob_id (s_inflight s))"

lemma remove1_ids:
  "distinct (map ob_id fl) \<Longrightarrow> e \<in> set fl \<Longrightarrow> x \<in> set (remove1 e fl) \<Longrightarrow> ob_id x \<noteq> ob_id e \<and> x \<in> set fl"
  by (auto simp: distinct_map set_remove1_eq inj_on_def)

lemma distinct_remove1_map: "distinct (map f xs) \<Longrightarrow> distinct (map f (remove1 x xs))"
proof (induction xs)
  case (Cons y ys)
  then show ?case using set_remove1_subset[of x ys] by auto
qed simp

lemma finish_budget:
  assumes inv: "budget_inv s" and e: "e \<in> set (s_inflight s)"
    and f: "\<And>x. ob_id (f x) = ob_id x"
    and b: "\<And>x. budget_event x \<Longrightarrow> ob_attempts x = ob_attempts e \<Longrightarrow> ob_max x = ob_max e \<Longrightarrow> budget_event (f x)"
    and w: "w_events w = update_one (\<lambda>x. ob_id x = ob_id e \<and> ob_status x = ''processing'') f
                           (w_events (s_worker s))"
  shows "budget_inv \<lparr>s_worker = w, s_inflight = remove1 e (s_inflight s)\<rparr>"
proof -
  let ?ob = "w_events (s_worker s)"
  from inv e obtain x where x: "x \<in> set ?ob" "ob_id x = ob_id e"
    by (auto simp: budget_inv_def)
  from inv e have snap: "snapshot_ok ?ob e" by (auto simp: budget_inv_def)
  with x have px: "ob_status x = ''processing''" by (auto simp: snapshot_ok_def)
  have eq: "w_events w = map (\<lambda>y. if ob_id y = ob_id x then f y else y) ?ob"
    unfolding w using inv x px
    by (intro update_one_by_id[where k = ob_id]) (auto simp: budget_inv_def)
  have ids: "map ob_id (w_events w) = map ob_id ?ob"
    by (simp add: eq f)
  have evs: "\<forall>y \<in> set (w_events w). budget_event y"
    using inv snap x(2) by (auto simp: eq budget_inv_def snapshot_ok_def intro!: b)
  have fl: "snapshot_ok (w_events w) y \<and> ob_id y \<in> ob_id ` set (w_events w)"
    if "y \<in> set (remove1 e (s_inflight s))" for y
  proof -
    from inv e that have y: "ob_id y \<noteq> ob_id e" "y \<in> set (s_inflight s)"
      by (auto simp: budget_inv_def dest!: remove1_ids)
    then have "snapshot_ok ?ob y" "ob_id y \<in> ob_id ` set ?ob"
      using inv by (auto simp: budget_inv_def)
    moreover have "ob_id ` set (w_events w) = ob_id ` set ?ob"
      using ids by (metis list.set_map)
    ultimately show ?thesis
      using y(1) x(2) f by (auto simp: snapshot_ok_def eq)
  qed
  show ?thesis
    using inv ids evs fl
    by (simp add: budget_inv_def distinct_remove1_map)
qed

lemma budget_step:
  assumes "outbox_step rec s t" "\<not> rec" "budget_inv s"
  shows "budget_inv t"
  using assms
proof (induction rule: outbox_step.induct)
  case (Enqueue i s mx rec dg now t ty et en pl pr po co k)
  then show ?case
    by (auto simp: enqueue_queue budget_inv_def budget_event_def snapshot_ok_def image_iff)
next
  case (Claim now t s w' e' rec)
  then obtain e where e: "e \<in> set (w_events (s_worker s))" "claimable now t e"
    and e': "e' = e\<lparr>ob_status := ''processing'', ob_last_attempt := Some now,
            ob_attempts := ob_attempts e + 1\<rparr>"
    and w': "w_events w' = update_one (\<lambda>x. ob_id x = ob_id e \<and> claimable now t x) (\<lambda>_. e')
             (w_events (s_worker s))"
    by (elim claim_event_Some)
  let ?ob = "w_events (s_worker s)"
  have eq: "w_events w' = map (\<lambda>y. if ob_id y = ob_id e then e' else y) ?ob"
    unfolding w' using Claim.prems(2) e
    by (intro update_one_by_id[where k = ob_id]) (auto simp: budget_inv_def)
  have st: "ob_status e = ''pending'' \<or> ob_status e = ''retry''"
    using e(2) by (auto simp: claimable_def)
  have nfl: "ob_id y \<noteq> ob_id e" if "y \<in> set (s_inflight s)" for y
    using that Claim.prems(2) e(1) st by (force simp: budget_inv_def snapshot_ok_def)
  have ids: "map ob_id (w_events w') = map ob_id ?ob"
    by (auto simp: eq e')
  have img: "ob_id ` set (w_events w') = ob_id ` set ?ob"
    using ids by (metis list.set_map)
  have be: "budget_event e" using Claim.prems(2) e(1) by (auto simp: budget_inv_def)
  then have be': "budget_event e'" using st by (auto simp: budget_event_def e')
  have "\<forall>y \<in> set (w_events w'). budget_event y"
    using Claim.prems(2) be' by (auto simp: eq budget_inv_def)
  moreover have "snapshot_ok (w_events w') y \<and> ob_id y \<in> ob_id ` set (w_events w')"
    if "y \<in> set (e' # s_inflight s)" for y
  proof (cases "y = e'")
    case True
    have "ob_id e' \<in> ob_id ` set (w_events w')" unfolding img using e(1) by (simp add: e')
    moreover have "snapshot_ok (w_events w') e'" by (auto simp: snapshot_ok_def eq e')
    ultimately show ?thesis using True by simp
  next
    case False
    with that have y: "y \<in> set (s_inflight s)" by simp
    then have "snapshot_ok ?ob y" "ob_id y \<in> ob_id ` set ?ob"
      using Claim.prems(2) by (auto simp: budget_inv_def)
    with nfl[OF y] img show ?thesis by (auto simp: snapshot_ok_def eq e')
  qed
  ultimately show ?case
    using Claim.prems(2) ids nfl by (auto simp: budget_inv_def e' image_iff)
next
  case (Processed e s rec up now m)
  then show ?case
    by (intro finish_budget) (auto simp: mark_processed_def worker_event_def budget_event_def)
next
  case (Failed e s rec up now m)
  show ?case
  proof (cases "startswith m ''permanent:'' \<or> ob_max e \<le> ob_attempts e")
    case True
    then show ?thesis using Failed
      by (intro finish_budget) (auto simp: handle_failure_def worker_event_def Let_def budget_event_def)
  next
    case False
    then show ?thesis using Failed
      by (intro finish_budget) (auto simp: handle_failure_def Let_def budget_event_def)
  qed
next
  case (Crash e s rec)
  then show ?case
    by (auto simp: budget_inv_def distinct_remove1_map dest: set_mp[OF set_remove1_subset])
next
  case (Recover s now timeout)
  then show ?case by simp
qed


lemma fresh_queue_budget:
  "w_events (s_worker s) = [] \<Longrightarrow> s_inflight s = [] \<Longrightarrow> budget_inv s"
  by (simp add: budget_inv_def)

interpretation outbox_budget: invariant_system
  "\<lambda>s. w_events (s_worker s) = [] \<and> s_inflight s = []" "outbox_step False" budget_inv
  by unfold_locales (auto intro: fresh_queue_budget budget_step)

text \<open>
  C31.  As long as no recovery scan runs, no event is ever attempted more often than its
  \<open>max_attempts\<close>.
\<close>

theorem attempts_within_budget:
  assumes "(outbox_step False)\<^sup>*\<^sup>* s t" "w_events (s_worker s) = []" "s_inflight s = []"
    and "e \<in> set (w_events (s_worker t))"
  shows "ob_attempts e \<le> ob_max e"
  using outbox_budget.reachable_inv[OF _ assms(1)] assms(2-4)
  by (auto simp: budget_inv_def budget_event_def)

text \<open>
  A worker that dies in every dispatch: claim, wait out the processing timeout, recover.
\<close>

fun crash_cycles :: "nat \<Rightarrow> instant \<Rightarrow> worker \<Rightarrow> worker" where
  "crash_cycles 0 now w = w"
| "crash_cycles (Suc n) now w =
     crash_cycles n (now + 120) (recover_stuck (now + 120) 120 (fst (claim_event now None w)))"

lemma claim_single:
  assumes "w_events w = [e]" "claimable now None e"
  shows "w_events (fst (claim_event now None w)) =
    [e\<lparr>ob_status := ''processing'', ob_last_attempt := Some now, ob_attempts := ob_attempts e + 1\<rparr>]"
  using assms by (simp add: claim_event_def Let_def)

text \<open>
  The recovery scan does not look at \<open>max_attempts\<close>: an event whose dispatch always
  outlives the worker is claimed again after every scan, so after \<open>n\<close> cycles it has been
  attempted \<open>n\<close> more times whatever its budget, and it is claimable once more.
\<close>

theorem crashes_exhaust_no_budget:
  assumes "w_events w = [e]" "claimable now None e"
  shows "\<exists>e'. w_events (crash_cycles n now w) = [e'] \<and> ob_attempts e' = ob_attempts e + int n \<and>
           ob_max e' = ob_max e \<and> claimable (now + 120 * int n) None e'"
  using assms
proof (induction n arbitrary: now w e)
  case 0
  then show ?case by simp
next
  case (Suc n)
  let ?w = "recover_stuck (now + 120) 120 (fst (claim_event now None w))"
  let ?e = "e\<lparr>ob_status := ''retry'', ob_last_attempt := Some now, ob_attempts := ob_attempts e + 1,
     ob_available := now + 120, ob_last_error := Some ''processing timeout: recovered by worker''\<rparr>"
  have w: "w_events ?w = [?e]"
    using claim_single[OF Suc.prems] by (simp add: recover_stuck_def update_many_def)
  moreover have c: "claimable (now + 120) None ?e"
    using Suc.prems(2) by (simp add: claimable_def)
  ultimately show ?case
    using Suc.IH[OF w c] by (simp add: algebra_simps)
qed

section \<open>Draining the queue\<close>

abbreviation due :: "instant \<Rightarrow> string option \<Rightarrow> worker \<Rightarrow> nat" where
  "due now t w \<equiv> count_documents (claimable now t) (w_events w)"

lemma claim_and_confirm:
  assumes "distinct (map ob_id (w_events w))" "claim_event now t w = (w', Some e')"
  shows "\<exists>e \<in> set (w_events w). claimable now t e \<and>
    w_events (mark_processed up now e' m w') = map (\<lambda>y. if ob_id y = ob_id e
        then e'\<lparr>ob_status := ''processed'', ob_processed := Some now, ob_last_error := None\<rparr> else y)
      (w_events w) \<and> ob_id e' = ob_id e"
proof -
  from assms(2) obtain e where e: "e \<in> set (w_events w)" "claimable now t e"
    and e': "e' = e\<lparr>ob_status := ''processing'', ob_last_attempt := Some now,
            ob_attempts := ob_attempts e + 1\<rparr>"
    and w': "w_events w' = update_one (\<lambda>x. ob_id x = ob_id e \<and> claimable now t x) (\<lambda>_. e') (w_events w)"
    by (elim claim_event_Some)
  have 1: "w_events w' = map (\<lambda>y. if ob_id y = ob_id e then e' else y) (w_events w)"
    unfolding w' using assms(1) e by (intro update_one_by_id[where k = ob_id]) auto
  have mem: "e' \<in> set (w_events w')" using e(1) by (auto simp: 1)
  have dist: "distinct (map ob_id (w_events w'))"
    using assms(1) by (simp add: 1 e' comp_def if_distrib[of ob_id] cong: if_cong)
  have "w_events (mark_processed up now e' m w') = map (\<lambda>y. if ob_id y = ob_id e'
        then y\<lparr>ob_status := ''processed'', ob_processed := Some now, ob_last_error := None\<rparr> else y)
      (w_events w')"
    using dist mem
    by (simp add: mark_processed_def worker_event_def)
       (intro update_one_by_id[where k = ob_id], auto simp: e')
  moreover have "\<dots> = map (\<lambda>y. if ob_id y = ob_id e
        then e'\<lparr>ob_status := ''processed'', ob_processed := Some now, ob_last_error := None\<rparr> else y)
      (w_events w)"
    by (auto simp: 1 e')
  ultimately show ?thesis using e by (auto simp: e')
qed


lemma count_replaced:
  assumes "distinct (map k c)" "e \<in> set c" "p e" "\<not> p e'"
  shows "Suc (count_documents p (map (\<lambda>y. if k y = k e then e' else y) c)) = count_documents p c"
  using assms
proof (induction c)
  case (Cons y c)
  show ?case
  proof (cases "y = e")
    case True
    have "map (\<lambda>y. if k y = k e then e' else y) c = c"
      using Cons.prems(1) True by (intro map_idI) (auto simp: image_iff)
    with True Cons.prems show ?thesis by (simp add: count_documents_def)
  next
    case False
    with Cons.prems have "k y \<noteq> k e" "e \<in> set c" by (auto simp: image_iff)
    with Cons show ?thesis by (simp add: count_documents_def)
  qed
qed simp

lemma process_one:
  assumes "distinct (map ob_id (w_events w))" "claim_event now t w = (w', Some e')"
    and "dispatch e' = Answer True m"
  shows "Suc (due now t (process_event up now dispatch e' w')) = due now t w"
    and "distinct (map ob_id (w_events (process_event up now dispatch e' w')))"
proof -
  let ?w = "process_event up now dispatch e' w'"
  let ?d = "e'\<lparr>ob_status := ''processed'', ob_processed := Some now, ob_last_error := None\<rparr>"
  have "w_events ?w = w_events (mark_processed up now e' m w')"
    using assms(3) by (simp add: process_event_def Let_def mark_processed_def worker_event_def)
  then obtain e where e: "e \<in> set (w_events w)" "claimable now t e" "ob_id e' = ob_id e"
    and ev: "w_events ?w = map (\<lambda>y. if ob_id y = ob_id e then ?d else y) (w_events w)"
    using claim_and_confirm[OF assms(1,2), of up m] by auto
  have "\<not> claimable now t ?d" by (simp add: claimable_def)
  with count_replaced[OF assms(1) e(1), of "claimable now t" ?d] e(2)
  show "Suc (due now t ?w) = due now t w" by (simp add: ev)
  have "map ob_id (w_events ?w) = map ob_id (w_events w)" by (auto simp: ev e(3))
  with assms(1) show "distinct (map ob_id (w_events ?w))" by simp
qed

lemma claim_none: "claim_event now t w = (w', None) \<Longrightarrow> w' = w \<and> due now t w = 0"
  by (auto simp: claim_event_def oldest_None count_documents_def Let_def split: option.splits)

text \<open>
  C30.  When every dispatch is acknowledged, one batch takes exactly as many due events as
  it may (the batch size or all of them), and that many fewer are due afterwards.
\<close>

theorem batch_drains:
  assumes "distinct (map ob_id (w_events w))" "\<And>e. dispatch e = Answer True (msg e)"
    and "process_batch up now t dispatch n w = (w', k)"
  shows "k = min n (due now t w) \<and> due now t w' = due now t w - k"
  using assms(1,3)
proof (induction n arbitrary: w w' k)
  case 0
  then show ?case by simp
next
  case (Suc n)
  show ?case
  proof (cases "claim_event now t w")
    case (Pair w1 r)
    show ?thesis
    proof (cases r)
      case None
      with Pair Suc.prems claim_none[of now t w w1] show ?thesis by simp
    next
      case (Some e)
      let ?w = "process_event up now dispatch e w1"
      obtain w2 k2 where b: "process_batch up now t dispatch n ?w = (w2, k2)"
        by (metis surj_pair)
      have c: "claim_event now t w = (w1, Some e)" using Pair Some by simp
      note one = process_one[OF Suc.prems(1) c, where dispatch = dispatch and up = up, OF assms(2)]
      from Suc.IH[OF one(2) b] have "k2 = min n (due now t ?w) \<and> due now t w2 = due now t ?w - k2" .
      moreover have "w' = w2" "k = Suc k2" using Suc.prems(2) c b by auto
      ultimately show ?thesis using one(1) by auto
    qed
  qed
qed


section \<open>Examples\<close>

definition ev0 :: outbox_event where
  "ev0 = \<lparr>ob_id = ''e1'', ob_tenant = ''t1'', ob_property = ''t1'', ob_type = ''booking.created.v1'',
     ob_entity_type = ''booking'', ob_entity = ''b1'', ob_provider = None, ob_payload = [],
     ob_status = ''pending'', ob_attempts = 0, ob_max = 5, ob_available = 0, ob_last_error = None,
     ob_last_attempt = None, ob_processed = None, ob_key = ''k1'', ob_corr = ''c1'', ob_created = 0\<rparr>"

definition w0 :: worker where
  "w0 = \<lparr>w_events = [ev0], w_timeline = [], w_processed = 0, w_failed = 0, w_retried = 0\<rparr>"

lemma claimable_ev0: "claimable 10 None ev0"
  by (simp add: claimable_def ev0_def startswith_def)

theorem batch_drains_witness:
  "snd (process_batch (\<lambda>_. True) 10 None (\<lambda>_. Answer True ''ok'') 4 w0) = 1"
proof -
  obtain w' k where b: "process_batch (\<lambda>_. True) 10 None (\<lambda>_. Answer True ''ok'') 4 w0 = (w', k)"
    by (metis surj_pair)
  have "k = min 4 (due 10 None w0)"
    using batch_drains[OF _ _ b, of "\<lambda>_. ''ok''"] by (simp add: w0_def)
  moreover have "due 10 None w0 = 1" by (simp add: w0_def count_documents_def claimable_ev0)
  ultimately show ?thesis using b by simp
qed

theorem crashes_exhaust_no_budget_witness:
  "\<exists>e'. w_events (crash_cycles 7 10 w0) = [e'] \<and> ob_attempts e' = 7 \<and> ob_max e' = 5"
proof -
  have "w_events w0 = [ev0]" by (simp add: w0_def)
  from crashes_exhaust_no_budget[OF this claimable_ev0, of 7] show ?thesis
    by (auto simp: ev0_def)
qed

definition s0 :: sys where
  "s0 = \<lparr>s_worker = w0\<lparr>w_events := []\<rparr>, s_inflight = []\<rparr>"

definition s1 :: sys where
  "s1 = s0\<lparr>s_worker := (s_worker s0)\<lparr>w_events :=
     fst (enqueue_outbox_event (\<lambda>_. ''h'') 0 ''e1'' ''t1'' ''booking.created.v1'' ''booking'' ''b1'' []
            None None ''c1'' 5 None (w_events (s_worker s0)))\<rparr>\<rparr>"

lemma s0_s1: "outbox_step rec s0 s1"
  unfolding s1_def by (rule outbox_step.Enqueue) (simp_all add: s0_def)

theorem attempts_within_budget_witness:
  "\<exists>e \<in> set (w_events (s_worker s1)). ob_attempts e \<le> ob_max e"
proof -
  obtain e where e: "e \<in> set (w_events (s_worker s1))"
    by (simp add: s1_def s0_def enqueue_queue)
  have "(outbox_step False)\<^sup>*\<^sup>* s0 s1" by (rule r_into_rtranclp) (rule s0_s1)
  from attempts_within_budget[OF this _ _ e] e show ?thesis by (auto simp: s0_def)
qed

definition s2 :: sys where
  "s2 = \<lparr>s_worker = w0\<lparr>w_events := [ev0\<lparr>ob_status := ''processed''\<rparr>]\<rparr>, s_inflight = []\<rparr>"

theorem finished_events_final_witness:
  "ev0\<lparr>ob_status := ''processed''\<rparr> \<in> set (w_events (s_worker
     (s2\<lparr>s_worker := recover_stuck 900 120 (s_worker s2)\<rparr>)))"
proof -
  have "(outbox_step True)\<^sup>*\<^sup>* s2 (s2\<lparr>s_worker := recover_stuck 900 120 (s_worker s2)\<rparr>)"
    by (rule r_into_rtranclp) (rule outbox_step.Recover)
  from finished_events_final[OF this, of "ev0\<lparr>ob_status := ''processed''\<rparr>"] show ?thesis
    by (simp add: s2_def finished_def)
qed

end
