(* ===== verification/OutboxDispatch.thy ===== *)
theory OutboxDispatch
  imports Outbox
begin

text \<open>
  Routing of an outbox event to its consumer: core/outbox_dispatcher.py.  The consumers
  are parameters: the Exely reservation-inventory adapter, the internal POS-to-folio
  consumer, the agency webhook, \<open>EventSyncService.handle_event\<close>, the availability sync of
  the legacy provider connections and the HTTP fallback.  What the model adds is the
  order of the routes, the translation of event types and the classification of every
  outcome as delivered, \<open>retryable:\<close> or \<open>permanent:\<close>.
\<close>

definition ic_outbox_event_types :: "string list" where
  "ic_outbox_event_types = [''pos.charge.posted.v1'', ''pos.charge.reversed.v1'']"

definition agency_outbox_event_types :: "string list" where
  "agency_outbox_event_types =
     [''agency.inventory.availability.updated.v1'', ''agency.rate.updated.v1'',
      ''agency.restriction.updated.v1'']"

definition configuration_errors :: "string list" where
  "configuration_errors =
     [''exely_ari_write_disabled'', ''exely_inventory_source_invalid'',
      ''exely_inventory_source_archived'', ''exely_inventory_range_requires_review'',
      ''exely_room_mapping_missing'', ''exely_property_mapping_missing'',
      ''exely_room_mapping_incomplete'', ''exely_multiple_availability_mappings'',
      ''exely_availability_sync_disabled'', ''hotelrunner_room_mapping_missing'',
      ''hotelrunner_room_mapping_incomplete'', ''room_not_found'', ''room_type_missing'',
      ''invalid_date_range'']"

definition event_type_to_cm_event :: "(string \<times> string) list" where
  "event_type_to_cm_event =
     [(''booking.created.v1'', ''booking_created''),
      (''booking.cancelled.v1'', ''booking_cancelled''),
      (''booking.no_show.v1'', ''booking_no_show''),
      (''booking.modified.v1'', ''booking_modified''),
      (''inventory.blocked.v1'', ''room_blocked''),
      (''inventory.released.v1'', ''room_unblocked''),
      (''inventory.availability.updated.v1'', ''booking_modified''),
      (''restriction.updated.v1'', ''restriction_changed''),
      (''rate.updated.v1'', ''rate_changed''),
      (''reservation.created.v1'', ''booking_created''),
      (''reservation.cancelled.v1'', ''booking_cancelled''),
      (''reservation.modified.v1'', ''booking_modified'')]"

definition booking_cm_events :: "string list" where
  "booking_cm_events =
     [''booking_created'', ''booking_modified'', ''booking_cancelled'', ''booking_no_show'']"

section \<open>The payload for the channel manager\<close>

definition dict_get :: "string \<Rightarrow> metadata \<Rightarrow> jval \<Rightarrow> jval" where
  "dict_get k d dflt = get_default dflt (map_of d k)"

definition has_key :: "string \<Rightarrow> metadata \<Rightarrow> bool" where
  "has_key k d = (k \<in> fst ` set d)"

definition dict_set :: "string \<Rightarrow> jval \<Rightarrow> metadata \<Rightarrow> metadata" where
  "dict_set k v d = AList.update k v d"

definition dict_setdefault :: "string \<Rightarrow> jval \<Rightarrow> metadata \<Rightarrow> metadata" where
  "dict_setdefault k v d = (if has_key k d then d else d @ [(k, v)])"

fun jtrue :: "jval \<Rightarrow> bool" where
  "jtrue JNull = False"
| "jtrue (JStr s) = (s \<noteq> [])"
| "jtrue (JInt n) = (n \<noteq> 0)"
| "jtrue (JBool b) = b"
| "jtrue (JDays ds) = (ds \<noteq> [])"
| "jtrue (JStrs ss) = (ss \<noteq> [])"
| "jtrue _ = True"

definition jor :: "jval \<Rightarrow> jval \<Rightarrow> jval" where
  "jor a b = (if jtrue a then a else b)"

text \<open>\<open>_build_cm_payload\<close>\<close>

definition build_cm_payload :: "outbox_event \<Rightarrow> string \<Rightarrow> metadata" where
  "build_cm_payload event cm_event_name =
     (let payload = ob_payload event;
          p1 = (if has_key ''property_id'' payload then payload
                else dict_set ''property_id'' (JStr (ob_property event)) payload);
          p2 = (if cm_event_name \<in> set booking_cm_events then
                  (let q = (if has_key ''check_in'' p1 then p1 else
                              dict_setdefault ''date_start'' (dict_get ''check_in'' p1 (JStr '''')) p1)
                   in if has_key ''check_out'' q then q else
                        dict_setdefault ''date_end'' (dict_get ''check_out'' q (JStr '''')) q)
                else p1);
          p3 = (if cm_event_name = ''room_blocked'' \<or> cm_event_name = ''room_unblocked'' then
                  (let q = (if has_key ''date_start'' p2 then p2 else
                              dict_setdefault ''date_start''
                                (dict_get ''start_date'' p2 (dict_get ''block_start'' p2 (JStr ''''))) p2)
                   in if has_key ''date_end'' q then q else
                        dict_setdefault ''date_end''
                          (dict_get ''end_date'' q (dict_get ''block_end'' q (JStr ''''))) q)
                else p2)
      in p3)"

section \<open>The dispatcher\<close>

text \<open>A sync job of \<open>EventSyncService\<close>: its id if it was created, its error if it failed.\<close>

record job =
  job_id :: "string option"
  job_error :: "string option"

datatype sync_outcome =
  NotHandled "string option"
| Handled "job list" nat
| SyncMissing
| SyncRaised string

text \<open>\<open>configured_providers\<close>, \<open>queued_operations\<close> and \<open>errors\<close>, or an exception.\<close>

datatype legacy_outcome = Legacy nat nat "string list" | LegacyRaised string

fun join :: "string \<Rightarrow> string list \<Rightarrow> string" where
  "join sep [] = []"
| "join sep [s] = s"
| "join sep (s # ss) = s @ sep @ join sep ss"

record consumers =
  c_exely :: "outbox_event \<Rightarrow> bool \<times> string"
  c_ic :: "outbox_event \<Rightarrow> bool \<times> string"
  c_agency :: "outbox_event \<Rightarrow> bool \<times> string"
  c_sync :: "string \<Rightarrow> string \<Rightarrow> metadata \<Rightarrow> sync_outcome"
  c_legacy :: "string \<Rightarrow> jval \<Rightarrow> jval \<Rightarrow> jval \<Rightarrow> legacy_outcome"
  c_fallback :: "outbox_event \<Rightarrow> string \<Rightarrow> bool \<times> string"
  c_show :: "nat \<Rightarrow> string"

definition classify_exception :: "string \<Rightarrow> bool \<times> string" where
  "classify_exception error_msg =
     (if is_retryable_error error_msg then (False, ''retryable: '' @ take 500 error_msg)
      else (False, ''permanent: '' @ take 500 error_msg))"

text \<open>
  The legacy provider delivery of a booking event: \<open>Some r\<close> is a return of the
  dispatcher, \<open>None\<close> falls through to the job results.
\<close>

definition legacy_delivery ::
  "consumers \<Rightarrow> string \<Rightarrow> metadata \<Rightarrow> (bool \<times> string) option" where
  "legacy_delivery c tenant cm_payload =
     (let room_id = dict_get ''room_id'' cm_payload (JStr '''');
          check_in = jor (dict_get ''check_in'' cm_payload JNull)
                         (dict_get ''date_start'' cm_payload (JStr ''''));
          check_out = jor (dict_get ''check_out'' cm_payload JNull)
                          (dict_get ''date_end'' cm_payload (JStr ''''))
      in if \<not> jtrue room_id \<or> \<not> jtrue check_in \<or> \<not> jtrue check_out then
           Some (False, ''permanent: booking availability payload is incomplete'')
         else case c_legacy c tenant room_id check_in check_out of
           LegacyRaised m \<Rightarrow> Some (classify_exception m)
         | Legacy configured queued errors \<Rightarrow>
             if errors \<noteq> [] then
               (let detail = (if join ''; '' errors = [] then ''no operations accepted''
                              else join ''; '' errors) in
                if queued \<noteq> 0 then
                  Some (True, ''Dispatched: '' @ c_show c queued @
                    '' legacy availability operations queued; partial: '' @ take 400 detail)
                else
                  (let classification =
                     (if list_all (\<lambda>item. item = ''DEFINITIVE_REJECTION''
                                        \<or> item \<in> set configuration_errors) errors
                      then ''permanent'' else ''retryable'')
                   in Some (False, classification @
                        '': legacy channel availability sync failed: '' @ take 400 detail)))
             else if configured \<noteq> 0 \<and> queued = 0 then
               Some (False, ''retryable: legacy channel availability sync accepted no operations'')
             else if configured \<noteq> 0 then
               Some (True, ''Dispatched: '' @ c_show c queued @ '' legacy availability operations queued'')
             else None)"

text \<open>The part of the dispatcher after the channel-manager mapping.\<close>

definition sync_dispatch :: "consumers \<Rightarrow> outbox_event \<Rightarrow> string \<Rightarrow> bool \<times> string" where
  "sync_dispatch c event cm_event_name =
     (let tenant = ob_tenant event;
          cm_payload = build_cm_payload event cm_event_name in
      case c_sync c tenant cm_event_name cm_payload of
        SyncMissing \<Rightarrow> c_fallback c event cm_event_name
      | SyncRaised m \<Rightarrow> classify_exception m
      | NotHandled r \<Rightarrow>
          (let reason = get_default ''unknown'' r in
           if contains ''no active connectors'' (lower reason) then
             (True, ''No active connectors for tenant '' @ tenant)
           else if contains ''unsupported'' (lower reason) then
             (False, ''permanent: '' @ reason)
           else (True, ''Event handled: '' @ reason))
      | Handled jobs jobs_created \<Rightarrow>
          (case (if cm_event_name \<in> set booking_cm_events
                 then legacy_delivery c tenant cm_payload else None) of
             Some r \<Rightarrow> r
           | None \<Rightarrow>
               (let errors = filter (\<lambda>j. job_error j \<noteq> None) jobs in
                if errors \<noteq> [] \<and> \<not> list_ex (\<lambda>j. job_id j \<noteq> None) jobs then
                  (False, ''retryable: all sync jobs failed: '' @
                     join ''; '' (map (\<lambda>j. get_default ''unknown'' (job_error j)) errors))
                else (True, ''Dispatched: '' @ c_show c jobs_created @ '' sync jobs created''))))"

definition dispatch_outbox_event :: "consumers \<Rightarrow> outbox_event \<Rightarrow> bool \<times> string" where
  "dispatch_outbox_event c event =
     (let event_type = ob_type event in
      if ob_tenant event = [] then (False, ''permanent: missing tenant_id'')
      else if event_type = ''exely.reservation.inventory.updated.v1'' then c_exely c event
      else if event_type \<in> set ic_outbox_event_types then c_ic c event
      else if event_type \<in> set agency_outbox_event_types then c_agency c event
      else case map_of event_type_to_cm_event event_type of
             None \<Rightarrow> (False, ''permanent: unsupported event_type '' @ [CHR 0x27] @ event_type @ [CHR 0x27])
           | Some cm_event_name \<Rightarrow> sync_dispatch c event cm_event_name)"

section \<open>Every failure is classified\<close>

definition classified :: "bool \<times> string \<Rightarrow> bool" where
  "classified r \<longleftrightarrow> fst r \<or> startswith (snd r) ''retryable: '' \<or> startswith (snd r) ''permanent: ''"

lemma startswith_app [simp]: "startswith (p @ s) p"
  by (simp add: startswith_def)

lemma classified_exception [simp]: "classified (classify_exception m)"
  using startswith_app[of "''retryable: ''" "take 500 m"] startswith_app[of "''permanent: ''" "take 500 m"]
  by (simp add: classify_exception_def classified_def)




text \<open>
  Internal-consistency events never leave the system: their dispatch is the local
  folio consumer's answer whatever the channel manager, the legacy providers, the agency
  webhook and the fallback would do.
\<close>

theorem ic_events_stay_internal:
  assumes "ob_type event \<in> set ic_outbox_event_types" "ob_tenant event \<noteq> []"
  shows "dispatch_outbox_event
           (c\<lparr>c_exely := ex, c_agency := ag, c_sync := sy, c_legacy := le, c_fallback := fb\<rparr>) event
         = c_ic c event"
  using assms
  by (auto simp: dispatch_outbox_event_def Let_def ic_outbox_event_types_def)

definition demo_consumers :: consumers where
  "demo_consumers = \<lparr>c_exely = (\<lambda>_. (True, [])), c_ic = (\<lambda>_. (True, ''posted'')),
     c_agency = (\<lambda>_. (True, [])), c_sync = (\<lambda>_ _ _. SyncRaised ''503 upstream''),
     c_legacy = (\<lambda>_ _ _ _. Legacy 0 0 []), c_fallback = (\<lambda>_ _. (True, [])), c_show = (\<lambda>_. ''n'')\<rparr>"


theorem ic_events_stay_internal_witness:
  "dispatch_outbox_event demo_consumers (ev0\<lparr>ob_type := ''pos.charge.posted.v1''\<rparr>) = (True, ''posted'')"
proof -
  have "dispatch_outbox_event (demo_consumers\<lparr>c_exely := c_exely demo_consumers,
      c_agency := c_agency demo_consumers, c_sync := c_sync demo_consumers,
      c_legacy := c_legacy demo_consumers, c_fallback := c_fallback demo_consumers\<rparr>)
      (ev0\<lparr>ob_type := ''pos.charge.posted.v1''\<rparr>)
    = c_ic demo_consumers (ev0\<lparr>ob_type := ''pos.charge.posted.v1''\<rparr>)"
    by (rule ic_events_stay_internal) (simp_all add: ic_outbox_event_types_def ev0_def)
  then show ?thesis by (simp add: demo_consumers_def)
qed

end
