(* ===== verification/Hotel.thy ===== *)
theory Hotel
  imports Stay OutboxDispatch Complex_Main
begin

text \<open>
  The database of one deployment as the booking components see it: the collections
  \<open>room_night_locks\<close>, \<open>bookings\<close>, \<open>rooms\<close>, \<open>guests\<close>, \<open>notifications\<close>, the audit
  collections, the event timeline and the outbox, each a list of documents.  A document
  is a record with the fields the code reads or writes; a field that may be missing is an
  option, and a missing identifier is the empty string (both are falsy).

  \<open>env\<close> holds what an operation takes from outside the database: the clock, whether a
  timeline insert succeeds, the field encryption, the search companions, and the driver
  errors of a booking insert.
\<close>

record lock =
  lk_tenant :: string
  lk_room :: string
  lk_night :: day
  lk_booking :: string
  lk_type :: "string option"
  lk_created :: created
  lk_expires :: "instant option"
  lk_reason :: string
  lk_by :: string

text \<open>
  The price fields of a booking: where it came from, its agreed prices, the nightly plan of
  the provider (\<open>daily_rates\<close>) and the operator's quote (currency and nightly plan).  A source
  is a text or a document with a provider and an external reservation id.
\<close>

datatype source_field = NoSource | SourceText string | SourceDoc "string option" "string option"

type_synonym rate_row = "iso option \<times> rat option"

record tariff =
  tf_folio :: "string option"
  tf_complimentary :: bool
  tf_no_show_fee :: rat
  tf_currency :: "string option"
  tf_total_price :: "rat option"
  tf_provider_total :: "rat option"
  tf_room_rate :: "rat option"
  tf_rate :: "rat option"
  tf_rate_per_night :: "rat option"
  tf_base_rate :: "rat option"
  tf_inclusive :: "bool option"
  tf_source :: source_field
  tf_origin :: "string option"
  tf_booking_source :: "string option"
  tf_created_by :: "string option"
  tf_pricing_source :: "string option"
  tf_cutover :: "iso option"
  tf_daily_rates :: "rate_row list option"
  tf_quote :: "(string option \<times> rate_row list option) option"

definition no_tariff :: tariff where
  "no_tariff = \<lparr>tf_folio = None, tf_complimentary = False, tf_no_show_fee = 0, tf_currency = None, tf_total_price = None,
     tf_provider_total = None, tf_room_rate = None, tf_rate = None, tf_rate_per_night = None, tf_base_rate = None,
     tf_inclusive = None, tf_source = NoSource, tf_origin = None, tf_booking_source = None, tf_created_by = None,
     tf_pricing_source = None, tf_cutover = None, tf_daily_rates = None, tf_quote = None\<rparr>"

record booking =
  b_tenant :: string
  b_id :: string
  b_status :: "string option"
  b_room :: "string option"
  b_check_in :: "iso option"
  b_check_out :: "iso option"
  b_check_in_date :: "iso option"
  b_check_out_date :: "iso option"
  b_guest_id :: "string option"
  b_guest_name :: "string option"
  b_booking_number :: "string option"
  b_reservation_number :: "string option"
  b_room_number :: "string option"
  b_corr :: "string option"
  b_created :: created
  b_pending :: "(string \<times> instant) list"
  b_pii :: string
  b_search :: string
  b_total :: "rat option"
  b_migrated :: "rat option"
  b_tariff :: tariff
  b_marks :: metadata

record room =
  r_tenant :: string
  r_id :: string
  r_number :: "string option"
  r_status :: string
  r_type :: "string option"
  r_active :: "bool option"
  r_virtual :: "bool option"
  r_current :: "string option"

record guest =
  g_tenant :: string
  g_id :: string
  g_name :: "string option"
  g_full_name :: "string option"
  g_first_name :: "string option"
  g_last_name :: "string option"

record notification =
  n_tenant :: string
  n_type :: string
  n_severity :: string
  n_room_label :: string
  n_related :: string
  n_data :: metadata

record audit =
  a_tenant :: string
  a_user :: string
  a_action :: string
  a_entity_type :: string
  a_entity :: string
  a_changes :: metadata

record db =
  locks :: "lock list"
  bookings :: "booking list"
  rooms :: "room list"
  guests :: "guest list"
  notifications :: "notification list"
  timeline :: "event list"
  alerts :: "metadata list"
  audit_logs :: "audit list"
  pms_audit :: "audit list"
  outbox :: "outbox_event list"

datatype pii_result = Encrypted string | NoEncryptionModule | EncryptionError string

record env =
  now :: instant
  timeline_up :: "event \<Rightarrow> bool"
  notify_up :: "notification \<Rightarrow> bool"
  alert_up :: bool
  encrypt_pii :: "string \<Rightarrow> pii_result"
  search_terms :: "booking \<Rightarrow> string"
  booking_insert_error :: "booking \<Rightarrow> string option"
  digest :: "metadata \<Rightarrow> string"
  new_id :: "db \<Rightarrow> string"

section \<open>Keys and well-formedness\<close>

text \<open>The unique index \<open>ux_room_night\<close>, and the identity of a booking.\<close>

definition lock_key :: "lock \<Rightarrow> string \<times> string \<times> day" where
  "lock_key l = (lk_tenant l, lk_room l, lk_night l)"

definition booking_key :: "booking \<Rightarrow> string \<times> string" where
  "booking_key b = (b_tenant b, b_id b)"

definition locks_ok :: "db \<Rightarrow> bool" where
  "locks_ok d \<longleftrightarrow> distinct (map lock_key (locks d))"

definition find_booking :: "string \<Rightarrow> string \<Rightarrow> db \<Rightarrow> booking option" where
  "find_booking tenant i d = find_one (\<lambda>b. b_tenant b = tenant \<and> b_id b = i) (bookings d)"

definition find_lock :: "string \<Rightarrow> string \<Rightarrow> day \<Rightarrow> lock list \<Rightarrow> lock option" where
  "find_lock tenant room night ls =
     find_one (\<lambda>l. lk_tenant l = tenant \<and> lk_room l = room \<and> lk_night l = night) ls"

lemma find_booking_Some:
  "find_booking t i d = Some b \<Longrightarrow> b \<in> set (bookings d) \<and> b_tenant b = t \<and> b_id b = i"
  unfolding find_booking_def by (drule find_one_Some) simp

lemma find_booking_eq:
  assumes "distinct (map booking_key (bookings d))" "b \<in> set (bookings d)"
  shows "find_booking (b_tenant b) (b_id b) d = Some b"
  using find_unique[OF assms] by (simp add: find_booking_def find_one_def booking_key_def)

lemma find_lock_Some:
  "find_lock t r n ls = Some l \<Longrightarrow> l \<in> set ls \<and> lock_key l = (t, r, n)"
  unfolding find_lock_def by (drule find_one_Some) (simp add: lock_key_def)

lemma find_lock_None: "find_lock t r n ls = None \<longleftrightarrow> (\<forall>l \<in> set ls. lock_key l \<noteq> (t, r, n))"
  by (auto simp: find_lock_def store_simps lock_key_def)

lemma find_lock_eq:
  assumes "distinct (map lock_key ls)" "l \<in> set ls" "lock_key l = (t, r, n)"
  shows "find_lock t r n ls = Some l"
  using find_unique[OF assms(1,2)] assms(3)
  by (simp add: find_lock_def find_one_def lock_key_def)

section \<open>The room-night table keeps the interface of a unique collection\<close>

interpretation room_nights: unique_table
  lock_key "\<lambda>ls. distinct (map lock_key ls)" set "insert_unique lock_key" delete_many
  "\<lambda>(t, r, n). find_lock t r n"
proof unfold_locales
  show "\<And>s d. insert_unique lock_key d s = None \<longleftrightarrow> (\<exists>e \<in> set s. lock_key e = lock_key d)"
    by (rule insert_unique_None)
  show "distinct (map lock_key s') \<and> set s' = insert d (set s)"
    if "distinct (map lock_key s)" "insert_unique lock_key d s = Some s'" for s d s'
    using that by (auto simp: store_simps)
  show "distinct (map lock_key (delete_many p s)) \<and> set (delete_many p s) = {d \<in> set s. \<not> p d}"
    if "distinct (map lock_key s)" for s p
    using that by (simp add: store_simps distinct_delete_many)
  show "(case k of (t, r, n) \<Rightarrow> find_lock t r n) s = Some d \<longleftrightarrow> d \<in> set s \<and> lock_key d = k"
    if "distinct (map lock_key s)" for s k d
    using that by (cases k) (auto dest: find_lock_Some intro: find_lock_eq)
qed

end
