(* ===== verification/NightLocks.thy ===== *)
theory NightLocks
  imports Hotel
begin

text \<open>
  Claiming one room night: the constants, the timeline helper, stale-lock recovery and
  \<open>_claim_night_or_get_owner\<close> of core/atomic_booking.py.  The theorems say that recovery
  never removes a lock that protects a live booking, an inventory block or a hold, and
  that a claim succeeds exactly on a free or retired night.
\<close>

definition active_booking_statuses :: "string list" where
  "active_booking_statuses = [''confirmed'', ''checked_in'', ''guaranteed'']"

definition terminal_booking_statuses :: "string list" where
  "terminal_booking_statuses = [''cancelled'', ''no_show'', ''checked_out'']"

definition ooo_prefix :: string where "ooo_prefix = ''OOO:''"

definition oos_prefix :: string where "oos_prefix = ''OOS:''"

definition maintenance_prefix :: string where "maintenance_prefix = ''MAINT:''"

definition is_block_owner :: "string \<Rightarrow> bool" where
  "is_block_owner owner =
     (startswith owner ooo_prefix \<or> startswith owner oos_prefix \<or> startswith owner maintenance_prefix)"

definition stale_lock_min_age_seconds :: int where
  "stale_lock_min_age_seconds = 60"

definition lock_is_old_enough :: "lock \<Rightarrow> instant \<Rightarrow> bool" where
  "lock_is_old_enough l reference =
     (case lk_created l of
        NoStamp \<Rightarrow> True
      | Stamp created_at \<Rightarrow> stale_lock_min_age_seconds \<le> reference - created_at
      | BadStamp _ \<Rightarrow> False)"

text \<open>\<open>_timeline_event\<close> of the module.\<close>

definition booking_event ::
  "env \<Rightarrow> string \<Rightarrow> string \<Rightarrow> string \<Rightarrow> string \<Rightarrow> string option \<Rightarrow> metadata \<Rightarrow> db \<Rightarrow> db" where
  "booking_event en tenant stage status booking_id corr meta d =
     d\<lparr>timeline := timeline_append (timeline_up en) tenant
          (str_or corr (if booking_id = [] then ''unknown'' else booking_id)) ''booking'' booking_id
          stage status ''atomic_booking'' '''' meta (timeline d)\<rparr>"

section \<open>Stale-lock recovery\<close>

text \<open>
  The decision of \<open>_retire_stale_booking_lock\<close>: the reason to retire, or \<open>None\<close> to keep
  the lock.
\<close>

definition stale_reason ::
  "env \<Rightarrow> string \<Rightarrow> string \<Rightarrow> day \<Rightarrow> lock \<Rightarrow> string \<Rightarrow> db \<Rightarrow> string option" where
  "stale_reason en tenant room night existing requested d =
     (let lock_type = lower (str_or (lk_type existing) ''booking'');
          owner_id = lk_booking existing in
      if lock_type \<noteq> ''booking'' then None
      else if is_block_owner owner_id then None
      else if owner_id = [] \<or> owner_id = requested then None
      else
        (let old_enough = lock_is_old_enough existing (now en);
             owner = find_booking tenant owner_id d;
             owner_status = (case owner of None \<Rightarrow> '''' | Some b \<Rightarrow> lower (get_default '''' (b_status b)))
         in if owner_status \<in> set terminal_booking_statuses then Some ''booking_terminal''
            else if \<not> old_enough then None
            else case owner of
                None \<Rightarrow> Some ''booking_missing''
              | Some b \<Rightarrow>
                  if b_room b \<noteq> Some room then Some ''room_mismatch''
                  else (case (b_check_in b, b_check_out b) of
                          (Some ci, Some co) \<Rightarrow>
                            (case night_dates ci co of
                               None \<Rightarrow> None
                             | Some ns \<Rightarrow> if night \<notin> set ns then Some ''night_outside_stay'' else None)
                        | _ \<Rightarrow> None)))"

text \<open>The exact filter of the deletion: the tuple, the owner, and the stored type and stamp.\<close>

definition exact_filter :: "string \<Rightarrow> string \<Rightarrow> day \<Rightarrow> lock \<Rightarrow> lock \<Rightarrow> bool" where
  "exact_filter tenant room night existing l \<longleftrightarrow>
     lk_tenant l = tenant \<and> lk_room l = room \<and> lk_night l = night
     \<and> lk_booking l = lk_booking existing
     \<and> (lk_type existing \<noteq> None \<longrightarrow> lk_type l = lk_type existing)
     \<and> (lk_created existing \<noteq> NoStamp \<longrightarrow> lk_created l = lk_created existing)"

definition retire_stale_booking_lock ::
  "env \<Rightarrow> string \<Rightarrow> string \<Rightarrow> day \<Rightarrow> lock option \<Rightarrow> string \<Rightarrow> string option \<Rightarrow> db \<Rightarrow> db \<times> bool" where
  "retire_stale_booking_lock en tenant room night existing requested corr d =
     (case existing of None \<Rightarrow> (d, False)
      | Some ex \<Rightarrow>
          (case stale_reason en tenant room night ex requested d of
             None \<Rightarrow> (d, False)
           | Some reason \<Rightarrow>
               (let ls = delete_one (exact_filter tenant room night ex) (locks d) in
                if length (locks d) - length ls \<noteq> 1 then (d\<lparr>locks := ls\<rparr>, False)
                else
                  (booking_event en tenant ''stale_lock_recovered'' ''success'' requested
                     (Some (str_or corr requested))
                     [(''night'', JDay night), (''retired_booking_id'', JStr (lk_booking ex)),
                      (''reason'', JStr reason)]
                     (d\<lparr>locks := ls\<rparr>), True))))"

section \<open>Claiming a night\<close>

definition claim_night_or_get_owner ::
  "env \<Rightarrow> lock \<Rightarrow> string option \<Rightarrow> db \<Rightarrow> db \<times> bool \<times> lock option" where
  "claim_night_or_get_owner en lock_doc corr d =
     (let tenant = lk_tenant lock_doc; room = lk_room lock_doc; night = lk_night lock_doc in
      case insert_unique lock_key lock_doc (locks d) of
        Some ls \<Rightarrow> (d\<lparr>locks := ls\<rparr>, True, None)
      | None \<Rightarrow>
          (let existing = find_lock tenant room night (locks d);
               (d1, recovered) = retire_stale_booking_lock en tenant room night existing
                                   (lk_booking lock_doc) corr d
           in if recovered then
                (case insert_unique lock_key lock_doc (locks d1) of
                   Some ls \<Rightarrow> (d1\<lparr>locks := ls\<rparr>, True, None)
                 | None \<Rightarrow> (d1, False, find_lock tenant room night (locks d1)))
              else (d1, False, existing)))"

section \<open>Frames and well-formedness\<close>

lemma booking_event_frame [simp]:
  "locks (booking_event en t sg st b c m d) = locks d"
  "bookings (booking_event en t sg st b c m d) = bookings d"
  "rooms (booking_event en t sg st b c m d) = rooms d"
  "guests (booking_event en t sg st b c m d) = guests d"
  "notifications (booking_event en t sg st b c m d) = notifications d"
  "alerts (booking_event en t sg st b c m d) = alerts d"
  "audit_logs (booking_event en t sg st b c m d) = audit_logs d"
  "pms_audit (booking_event en t sg st b c m d) = pms_audit d"
  "outbox (booking_event en t sg st b c m d) = outbox d"
  by (simp_all add: booking_event_def)

lemma exact_filter_key:
  "exact_filter t r n ex l \<Longrightarrow> lock_key l = (t, r, n)"
  by (simp add: exact_filter_def lock_key_def)

lemma delete_exact:
  assumes "locks_ok d"
  shows "delete_one (exact_filter t r n ex) (locks d) = delete_many (exact_filter t r n ex) (locks d)"
  using assms unfolding locks_ok_def
  by (rule delete_one_unique) (auto dest!: exact_filter_key)

lemma retire_locks:
  assumes "locks_ok d" "retire_stale_booking_lock en t r n ex rq c d = (d', rec)"
  shows "locks_ok d' \<and> set (locks d') \<subseteq> set (locks d)"
  using assms
  by (auto simp: retire_stale_booking_lock_def Let_def locks_ok_def delete_exact[OF assms(1)]
      store_simps distinct_delete_many split: option.splits if_splits)

lemma retire_frame:
  assumes "retire_stale_booking_lock en t r n ex rq c d = (d', rec)"
  shows "bookings d' = bookings d \<and> rooms d' = rooms d \<and> guests d' = guests d \<and> outbox d' = outbox d
    \<and> pms_audit d' = pms_audit d \<and> notifications d' = notifications d"
  using assms
  by (auto simp: retire_stale_booking_lock_def Let_def split: option.splits if_splits)

text \<open>What was deleted: at most the one lock of the night, and only with a stale reason.\<close>

lemma retire_removed:
  assumes "locks_ok d" "retire_stale_booking_lock en t r n ex rq c d = (d', rec)"
    and "l \<in> set (locks d)" "l \<notin> set (locks d')"
  shows "\<exists>e. ex = Some e \<and> exact_filter t r n e l \<and> stale_reason en t r n e rq d \<noteq> None"
  using assms
  by (auto simp: retire_stale_booking_lock_def Let_def delete_exact[OF assms(1)] store_simps
      split: option.splits if_splits)

lemma retire_recovered:
  assumes "locks_ok d" "retire_stale_booking_lock en t r n ex rq c d = (d', True)"
  shows "\<forall>l \<in> set (locks d'). lock_key l \<noteq> (t, r, n)"
proof -
  from assms obtain e where e: "ex = Some e"
    and len: "length (locks d) - length (delete_many (exact_filter t r n e) (locks d)) = 1"
    and ls: "locks d' = delete_many (exact_filter t r n e) (locks d)"
    by (auto simp: retire_stale_booking_lock_def Let_def delete_exact[OF assms(1)]
        split: option.splits if_splits)
  have "count_documents (exact_filter t r n e) (locks d) = 1"
    using len length_delete_many[of "exact_filter t r n e" "locks d"] by simp
  then obtain l where l: "l \<in> set (locks d)" "exact_filter t r n e l"
    unfolding count_documents_def by (metis length_0_conv filter_False zero_neq_one)
  show ?thesis
  proof
    fix k assume k: "k \<in> set (locks d')"
    show "lock_key k \<noteq> (t, r, n)"
    proof
      assume "lock_key k = (t, r, n)"
      moreover have "lock_key l = (t, r, n)" using l(2) by (rule exact_filter_key)
      moreover have "k \<in> set (locks d)" using k by (simp add: ls store_simps)
      ultimately have "k = l"
        using assms(1) l(1) by (auto simp: locks_ok_def dest: distinct_map_key_eq)
      with k l(2) show False by (simp add: ls store_simps)
    qed
  qed
qed

section \<open>What a claim does\<close>

lemma find_lock_exact:
  assumes "locks_ok d" "find_lock t r n (locks d) = Some l" "k \<in> set (locks d)"
  shows "exact_filter t r n l k \<longleftrightarrow> k = l"
proof
  assume "exact_filter t r n l k"
  with assms show "k = l"
    by (auto simp: locks_ok_def dest!: exact_filter_key find_lock_Some dest: distinct_map_key_eq)
next
  assume "k = l"
  with find_lock_Some[OF assms(2)] show "exact_filter t r n l k"
    by (simp add: exact_filter_def lock_key_def)
qed

lemma retire_found:
  assumes ok: "locks_ok d" and l: "find_lock t r n (locks d) = Some l"
  shows "retire_stale_booking_lock en t r n (Some l) rq c d =
    (case stale_reason en t r n l rq d of None \<Rightarrow> (d, False)
     | Some reason \<Rightarrow>
         (booking_event en t ''stale_lock_recovered'' ''success'' rq (Some (str_or c rq))
            [(''night'', JDay n), (''retired_booking_id'', JStr (lk_booking l)), (''reason'', JStr reason)]
            (d\<lparr>locks := delete_many (\<lambda>k. k = l) (locks d)\<rparr>), True))"
proof -
  have mem: "l \<in> set (locks d)" using find_lock_Some[OF l] by simp
  have del: "delete_one (exact_filter t r n l) (locks d) = delete_many (\<lambda>k. k = l) (locks d)"
    unfolding delete_exact[OF ok] delete_many_def
    using find_lock_exact[OF ok l] by (intro filter_cong) auto
  have "count_documents (\<lambda>k. k = l) (locks d) = 1"
    using ok mem by (simp add: locks_ok_def count_documents_def distinct_map filter_eq_single)
  then have "length (locks d) - length (delete_many (\<lambda>k. k = l) (locks d)) = 1"
    using length_delete_many[of "\<lambda>k. k = l" "locks d"] by simp
  then show ?thesis
    by (simp add: retire_stale_booking_lock_def del Let_def split: option.splits)
qed

lemma claim_spec:
  assumes "locks_ok d" "lock_key doc = (t, r, n)"
  shows "claim_night_or_get_owner en doc c d =
    (case find_lock t r n (locks d) of
       None \<Rightarrow> (d\<lparr>locks := locks d @ [doc]\<rparr>, True, None)
     | Some l \<Rightarrow>
         (case stale_reason en t r n l (lk_booking doc) d of
            None \<Rightarrow> (d, False, Some l)
          | Some reason \<Rightarrow>
              (let d1 = fst (retire_stale_booking_lock en t r n (Some l) (lk_booking doc) c d)
               in (d1\<lparr>locks := locks d1 @ [doc]\<rparr>, True, None))))"
proof (cases "find_lock t r n (locks d)")
  case None
  then have "insert_unique lock_key doc (locks d) = Some (locks d @ [doc])"
    using assms(2) by (auto simp: find_lock_None store_simps)
  then show ?thesis using None by (simp add: claim_night_or_get_owner_def Let_def)
next
  case (Some l)
  note fl = this
  have tr: "lk_tenant doc = t" "lk_room doc = r" "lk_night doc = n"
    using assms(2) by (auto simp: lock_key_def)
  have lk: "l \<in> set (locks d)" "lock_key l = lock_key doc"
    using find_lock_Some[OF Some] assms(2) by auto
  then have none: "insert_unique lock_key doc (locks d) = None" by (auto simp: store_simps)
  show ?thesis
  proof (cases "stale_reason en t r n l (lk_booking doc) d")
    case None
    then show ?thesis
      by (simp add: claim_night_or_get_owner_def Let_def none tr Some retire_found[OF assms(1) Some])
  next
    case (Some reason)
    let ?rt = "retire_stale_booking_lock en t r n (Some l) (lk_booking doc) c d"
    have snd: "snd ?rt = True" using Some by (simp add: retire_found[OF assms(1) fl])
    then have "?rt = (fst ?rt, True)" by (metis prod.collapse)
    from retire_recovered[OF assms(1) this]
    have "insert_unique lock_key doc (locks (fst ?rt)) = Some (locks (fst ?rt) @ [doc])"
      using assms(2) by (simp add: store_simps)
    with snd show ?thesis
      using Some fl by (simp add: claim_night_or_get_owner_def Let_def none tr case_prod_beta)
  qed
qed

text \<open>Stale at the time of the claim: what recovery may take away.\<close>

definition retirable :: "env \<Rightarrow> string \<Rightarrow> db \<Rightarrow> lock \<Rightarrow> bool" where
  "retirable en requested d l \<longleftrightarrow>
     stale_reason en (lk_tenant l) (lk_room l) (lk_night l) l requested d \<noteq> None"

lemma claim_success:
  assumes "locks_ok d" "claim_night_or_get_owner en doc c d = (d', True, ex)"
  shows "locks_ok d' \<and> ex = None \<and>
    set (locks d') = insert doc {l \<in> set (locks d). lock_key l \<noteq> lock_key doc} \<and>
    (\<forall>l \<in> set (locks d). lock_key l = lock_key doc \<longrightarrow> retirable en (lk_booking doc) d l)"
proof -
  obtain t r n where k: "lock_key doc = (t, r, n)" by (metis prod_cases3)
  show ?thesis
  proof (cases "find_lock t r n (locks d)")
    case None
    then have d': "d' = d\<lparr>locks := locks d @ [doc]\<rparr>" "ex = None"
      using assms(2) by (simp_all add: claim_spec[OF assms(1) k])
    from None k have free: "\<forall>l \<in> set (locks d). lock_key l \<noteq> lock_key doc"
      by (simp add: find_lock_None)
    with assms(1) show ?thesis by (auto simp: d' locks_ok_def)
  next
    case (Some l)
    note lk = find_lock_Some[OF Some]
    with assms k Some obtain reason where
      reason: "stale_reason en t r n l (lk_booking doc) d = Some reason"
      and d': "locks d' = delete_many (\<lambda>k. k = l) (locks d) @ [doc]" "ex = None"
      by (auto simp: claim_spec[OF assms(1) k] retire_found[OF assms(1) Some] Let_def
          split: option.splits)
    have uniq: "k' = l" if "k' \<in> set (locks d)" "lock_key k' = lock_key doc" for k'
      using that lk k assms(1) by (auto simp: locks_ok_def dest: distinct_map_key_eq)
    have "locks_ok d'"
      using assms(1) uniq k lk
      by (auto simp: locks_ok_def d' distinct_delete_many store_simps)
    moreover have "retirable en (lk_booking doc) d l"
      using reason lk by (simp add: retirable_def lock_key_def)
    ultimately show ?thesis using uniq lk k by (auto simp: d' store_simps)
  qed
qed

lemma claim_failure:
  assumes "locks_ok d" "claim_night_or_get_owner en doc c d = (d', False, ex)"
  shows "d' = d \<and> (\<exists>l \<in> set (locks d). ex = Some l \<and> lock_key l = lock_key doc \<and>
           \<not> retirable en (lk_booking doc) d l)"
proof -
  obtain t r n where k: "lock_key doc = (t, r, n)" by (metis prod_cases3)
  show ?thesis
  proof (cases "find_lock t r n (locks d)")
    case None
    then show ?thesis using assms k by (simp add: claim_spec[OF assms(1) k])
  next
    case (Some l)
    note lk = find_lock_Some[OF Some]
    from Some assms k have "d' = d \<and> ex = Some l \<and> stale_reason en t r n l (lk_booking doc) d = None"
      by (auto simp: claim_spec[OF assms(1) k] Let_def split: option.splits)
    then show ?thesis using lk k by (intro conjI bexI[of _ l]) (auto simp: retirable_def lock_key_def)
  qed
qed

lemma claim_frame:
  assumes "claim_night_or_get_owner en doc c d = (d', r)"
  shows "bookings d' = bookings d \<and> rooms d' = rooms d \<and> guests d' = guests d \<and> outbox d' = outbox d
    \<and> pms_audit d' = pms_audit d \<and> notifications d' = notifications d"
  using assms retire_frame
  by (auto simp: claim_night_or_get_owner_def Let_def split: option.splits prod.splits if_splits)

section \<open>Which locks recovery leaves alone\<close>

definition terminal_status :: "string option \<Rightarrow> bool" where
  "terminal_status s \<longleftrightarrow> lower (get_default '''' s) \<in> set terminal_booking_statuses"

text \<open>
  The stay of a booking, with the older field names as fallback, the nights it occupies,
  and the bookings that keep their room off the market: those not cancelled, no-show or
  checked out, and not an expired hold.
\<close>

definition stay_of :: "booking \<Rightarrow> iso option \<times> iso option" where
  "stay_of b =
     (case b_check_in b of None \<Rightarrow> b_check_in_date b | Some c \<Rightarrow> Some c,
      case b_check_out b of None \<Rightarrow> b_check_out_date b | Some c \<Rightarrow> Some c)"

definition nights_of :: "booking \<Rightarrow> day set" where
  "nights_of b =
     (case stay_of b of
        (Some ci, Some co) \<Rightarrow> (case night_dates ci co of None \<Rightarrow> {} | Some ns \<Rightarrow> set ns)
      | _ \<Rightarrow> {})"

definition live :: "booking \<Rightarrow> bool" where
  "live b \<longleftrightarrow> \<not> terminal_status (b_status b) \<and> b_status b \<noteq> Some ''hold_expired''"

definition protects :: "booking \<Rightarrow> lock \<Rightarrow> bool" where
  "protects b l \<longleftrightarrow> b_tenant b = lk_tenant l \<and> b_id b = lk_booking l \<and> live b \<and>
     b_room b = Some (lk_room l) \<and> lk_night l \<in> nights_of b"

definition is_booking_lock :: "lock \<Rightarrow> bool" where
  "is_booking_lock l \<longleftrightarrow>
     lower (str_or (lk_type l) ''booking'') = ''booking'' \<and> \<not> is_block_owner (lk_booking l)"

lemma retirable_booking_lock: "retirable en rq d l \<Longrightarrow> is_booking_lock l"
  by (auto simp: retirable_def stale_reason_def is_booking_lock_def Let_def split: if_splits)

lemma protected_not_retirable:
  assumes "distinct (map booking_key (bookings d))" "b \<in> set (bookings d)" "protects b l"
  shows "\<not> retirable en rq d l"
proof -
  have "find_booking (lk_tenant l) (lk_booking l) d = Some b"
    using find_booking_eq[OF assms(1,2)] assms(3) by (simp add: protects_def)
  then show ?thesis using assms(3)
    by (auto simp: retirable_def stale_reason_def protects_def live_def terminal_status_def
        nights_of_def stay_of_def Let_def split: option.splits if_splits)
qed

lemma fresh_not_retirable:
  assumes "\<not> lock_is_old_enough l (now en)" "find_booking (lk_tenant l) (lk_booking l) d = None"
  shows "\<not> retirable en rq d l"
  using assms
  by (auto simp: retirable_def stale_reason_def terminal_booking_statuses_def lower_def Let_def split: if_splits)

text \<open>
  C24.  Stale-lock recovery never frees a night that is really taken: a lock that protects a
  live booking (right room, a night of its stay, not cancelled, no-show or checked out), a
  lock in its first minutes whose booking is not stored yet, a hold, and an out-of-order,
  out-of-service or maintenance block all survive any claim by anyone, at any time.
\<close>

theorem recovery_spares_protected_locks:
  assumes "locks_ok d" "distinct (map booking_key (bookings d))"
    and "claim_night_or_get_owner en doc c d = (d', claimed, ex)"
    and "l \<in> set (locks d)"
    and "(\<exists>b \<in> set (bookings d). protects b l) \<or> \<not> is_booking_lock l
      \<or> \<not> lock_is_old_enough l (now en) \<and> find_booking (lk_tenant l) (lk_booking l) d = None"
  shows "l \<in> set (locks d')"
proof (cases claimed)
  case True
  from assms(3) True have "claim_night_or_get_owner en doc c d = (d', True, ex)" by simp
  from claim_success[OF assms(1) this]
  have "set (locks d') = insert doc {l \<in> set (locks d). lock_key l \<noteq> lock_key doc}"
    and "\<forall>l \<in> set (locks d). lock_key l = lock_key doc \<longrightarrow> retirable en (lk_booking doc) d l"
    by blast+
  then show ?thesis
    using assms(4,5) protected_not_retirable[OF assms(2)] retirable_booking_lock fresh_not_retirable by blast
next
  case False
  with assms(3) have "claim_night_or_get_owner en doc c d = (d', False, ex)" by simp
  from claim_failure[OF assms(1) this] assms(4) show ?thesis by simp
qed

section \<open>A small hotel for the examples\<close>

definition empty_db :: db where
  "empty_db = \<lparr>locks = [], bookings = [], rooms = [], guests = [], notifications = [], timeline = [],
     alerts = [], audit_logs = [], pms_audit = [], outbox = []\<rparr>"

definition quiet_env :: env where
  "quiet_env = \<lparr>now = 1000, timeline_up = (\<lambda>_. True), notify_up = (\<lambda>_. True), alert_up = True,
     encrypt_pii = (\<lambda>s. Encrypted s), search_terms = (\<lambda>b. ''''),
     booking_insert_error = (\<lambda>b. None), digest = (\<lambda>m. ''digest''), new_id = (\<lambda>d. ''id-1'')\<rparr>"

definition stay_booking :: "string \<Rightarrow> day \<Rightarrow> day \<Rightarrow> booking" where
  "stay_booking i a b = \<lparr>b_tenant = ''t1'', b_id = i, b_status = Some ''confirmed'', b_room = Some ''101'',
     b_check_in = Some (Iso a 14), b_check_out = Some (Iso b 11), b_check_in_date = None,
     b_check_out_date = None, b_guest_id = None, b_guest_name = None, b_booking_number = None,
     b_reservation_number = None, b_room_number = None, b_corr = None, b_created = NoStamp,
     b_pending = [], b_pii = '''', b_search = '''', b_total = None, b_migrated = None, b_tariff = no_tariff, b_marks = []\<rparr>"

definition night_lock :: "string \<Rightarrow> day \<Rightarrow> lock" where
  "night_lock i n = \<lparr>lk_tenant = ''t1'', lk_room = ''101'', lk_night = n, lk_booking = i,
     lk_type = Some ''booking'', lk_created = Stamp 0, lk_expires = None, lk_reason = '''', lk_by = ''''\<rparr>"

definition small_db :: db where
  "small_db = empty_db\<lparr>locks := [night_lock ''bk1'' 7, night_lock ''gone'' 8],
     bookings := [stay_booking ''bk1'' 7 8]\<rparr>"

lemmas small_hotel = small_db_def night_lock_def stay_booking_def quiet_env_def empty_db_def

theorem recovery_spares_protected_locks_witness:
  "\<exists>d' ex. claim_night_or_get_owner quiet_env (night_lock ''bk2'' 8) None small_db = (d', True, ex)
     \<and> night_lock ''bk1'' 7 \<in> set (locks d') \<and> night_lock ''gone'' 8 \<notin> set (locks d')"
proof -
  obtain d' cl ex where
    c: "claim_night_or_get_owner quiet_env (night_lock ''bk2'' 8) None small_db = (d', cl, ex)"
    by (metis prod_cases3)
  then have "cl" "night_lock ''gone'' 8 \<notin> set (locks d')"
    by (auto simp: small_hotel claim_night_or_get_owner_def insert_unique_def lock_key_def
        find_lock_def find_one_def retire_stale_booking_lock_def stale_reason_def lower_def lower_char_def
        is_block_owner_def startswith_def ooo_prefix_def oos_prefix_def maintenance_prefix_def
        lock_is_old_enough_def stale_lock_min_age_seconds_def find_booking_def
        terminal_booking_statuses_def exact_filter_def booking_event_def Let_def)
  moreover have "night_lock ''bk1'' 7 \<in> set (locks d')"
  proof (rule recovery_spares_protected_locks[OF _ _ c])
    show "locks_ok small_db" "distinct (map booking_key (bookings small_db))"
      "night_lock ''bk1'' 7 \<in> set (locks small_db)"
      by (simp_all add: small_hotel locks_ok_def lock_key_def)
    show "(\<exists>b \<in> set (bookings small_db). protects b (night_lock ''bk1'' 7))
        \<or> \<not> is_booking_lock (night_lock ''bk1'' 7)
        \<or> \<not> lock_is_old_enough (night_lock ''bk1'' 7) (now quiet_env)
          \<and> find_booking (lk_tenant (night_lock ''bk1'' 7)) (lk_booking (night_lock ''bk1'' 7)) small_db = None"
      by (simp add: small_hotel protects_def live_def terminal_status_def nights_of_def
          stay_of_def terminal_booking_statuses_def lower_def lower_char_def)
  qed
  ultimately show ?thesis using c by (intro exI[of _ d'] exI[of _ ex]) simp
qed

end
