(* ===== verification/AtomicBooking.thy ===== *)
theory AtomicBooking
  imports NightLocks
begin

text \<open>
  The booking write path of core/atomic_booking.py: creating a booking with its room-night
  locks, assigning a room to an existing booking, releasing nights, and the out-of-order,
  out-of-service and maintenance blocks that share the lock table.

  The exceptions are the values of \<open>booking_error\<close>; the message texts are left out, the
  data a caller reads from the exception is kept.
\<close>

datatype booking_error =
  TenantViolation
| Conflict "string option" string "day list"
| ValueErr
| RuntimeErr string
| DriverErr string

section \<open>Preparing the document\<close>

text \<open>\<open>canonical_guest_name\<close> of core/guest_name_utils.py.\<close>

definition canonical_guest_name :: "guest option \<Rightarrow> string" where
  "canonical_guest_name g =
     (let field = (\<lambda>f. strip (str_or (case g of None \<Rightarrow> None | Some x \<Rightarrow> f x) '''')) in
      case find_one (\<lambda>v. v \<noteq> []) [field g_name, field g_full_name] of
        Some v \<Rightarrow> v
      | None \<Rightarrow> join '' '' (filter (\<lambda>p. p \<noteq> []) [field g_first_name, field g_last_name]))"

text \<open>The tenant guards, the guest name snapshot, encryption, search companions and the
  pending messages of \<open>create_booking_atomic\<close>.\<close>

definition pending_messages :: "env \<Rightarrow> booking \<Rightarrow> bool \<Rightarrow> (string \<times> instant) list" where
  "pending_messages en b suppress =
     (let status = get_default ''confirmed'' (b_status b);
          pending = AList.update ''booking_created'' (now en) (b_pending b)
      in if suppress then []
         else if status \<in> set [''confirmed'', ''guaranteed'', ''checked_in''] then
           (let pending = AList.update ''booking_confirmed'' (now en) pending
            in if status = ''checked_in'' then AList.update ''checked_in'' (now en) pending else pending)
         else pending)"

definition prepare_booking :: "env \<Rightarrow> string \<Rightarrow> booking \<Rightarrow> bool \<Rightarrow> db \<Rightarrow> booking_error + booking" where
  "prepare_booking en tenant doc suppress d =
     (if tenant = [] then Inl TenantViolation
      else if b_tenant doc = [] then Inl TenantViolation
      else if b_tenant doc \<noteq> tenant then Inl TenantViolation
      else
        (let guest_name =
               (if strip (str_or (b_guest_name doc) '''') = [] \<and> truthy (b_guest_id doc) then
                  (let name = canonical_guest_name
                                (find_one (\<lambda>g. g_tenant g = tenant \<and> Some (g_id g) = b_guest_id doc) (guests d))
                   in if name \<noteq> [] then Some name else b_guest_name doc)
                else b_guest_name doc);
             named = doc\<lparr>b_guest_name := guest_name\<rparr>;
             complete = (\<lambda>b. b\<lparr>b_search := search_terms en b, b_pending := pending_messages en b suppress\<rparr>)
         in case encrypt_pii en (b_pii named) of
              EncryptionError e \<Rightarrow> Inl (RuntimeErr e)
            | NoEncryptionModule \<Rightarrow> Inr (complete named)
            | Encrypted p \<Rightarrow> Inr (complete (named\<lparr>b_pii := p\<rparr>))))"

section \<open>The overlap query on bookings\<close>

text \<open>\<open>_find_overlapping_active_booking\<close>: the Mongo filter, at most 100 candidates, and the
  comparison of dates; a candidate whose dates do not parse counts as an overlap.\<close>

definition overlap_filter :: "string \<Rightarrow> string \<Rightarrow> day \<Rightarrow> iso \<Rightarrow> string \<Rightarrow> booking \<Rightarrow> bool" where
  "overlap_filter tenant room requested_in check_out exclude b \<longleftrightarrow>
     b_tenant b = tenant \<and> b_room b = Some room
     \<and> get_default '''' (b_status b) \<notin> set terminal_booking_statuses
     \<and> (case b_check_in b of None \<Rightarrow> False | Some c \<Rightarrow> iso_less c check_out)
     \<and> (case b_check_out b of None \<Rightarrow> False | Some c \<Rightarrow> iso_less (date_only requested_in) c)
     \<and> (exclude \<noteq> [] \<longrightarrow> b_id b \<noteq> exclude)"

definition candidate_overlaps :: "day \<Rightarrow> day \<Rightarrow> booking \<Rightarrow> bool" where
  "candidate_overlaps requested_in requested_out c =
     (case (Option.bind (b_check_in c) iso_date, Option.bind (b_check_out c) iso_date) of
        (Some ci, Some co) \<Rightarrow> ci < requested_out \<and> co > requested_in
      | _ \<Rightarrow> True)"

definition find_overlapping_active_booking ::
  "string \<Rightarrow> string \<Rightarrow> iso \<Rightarrow> iso \<Rightarrow> string \<Rightarrow> db \<Rightarrow> booking option" where
  "find_overlapping_active_booking tenant room check_in check_out exclude d =
     (case (iso_date check_in, iso_date check_out) of
        (Some requested_in, Some requested_out) \<Rightarrow>
          find_one (candidate_overlaps requested_in requested_out)
            (to_list 100 (find_many (overlap_filter tenant room requested_in check_out exclude) (bookings d)))
      | _ \<Rightarrow> None)"

section \<open>The overbooking alert\<close>

definition jopt :: "string option \<Rightarrow> jval" where
  "jopt v = (case v of None \<Rightarrow> JNull | Some s \<Rightarrow> JStr s)"

definition room_label :: "string \<Rightarrow> string \<Rightarrow> db \<Rightarrow> string" where
  "room_label tenant room d =
     (let number = (case find_one (\<lambda>r. r_tenant r = tenant \<and> r_id r = room) (rooms d) of
                      None \<Rightarrow> '''' | Some r \<Rightarrow> str_or (r_number r) '''')
      in ''Oda '' @ (if number \<noteq> [] then number else room))"

definition conflicting_name :: "string \<Rightarrow> string option \<Rightarrow> db \<Rightarrow> string" where
  "conflicting_name tenant other d =
     (if \<not> truthy other then ''''
      else case find_one (\<lambda>b. b_tenant b = tenant \<and> Some (b_id b) = other) (bookings d) of
          None \<Rightarrow> ''''
        | Some b \<Rightarrow> str_or (b_guest_name b) (str_or (b_booking_number b) (str_or (b_reservation_number b) '''')))"

text \<open>\<open>_emit_overbooking_alert\<close>: a notification and an alert, neither of which can fail the caller.\<close>

definition emit_overbooking_alert ::
  "env \<Rightarrow> string \<Rightarrow> string \<Rightarrow> string \<Rightarrow> string \<Rightarrow> jval \<Rightarrow> string option \<Rightarrow> string option \<Rightarrow> db \<Rightarrow> db" where
  "emit_overbooking_alert en tenant booking_id room conflict_type night other corr d =
     (let name = conflicting_name tenant other d;
          common = [(''conflict_type'', JStr conflict_type), (''conflict_night'', night),
                    (''conflicting_booking_id'', jopt other)];
          note = \<lparr>n_tenant = tenant, n_type = ''overbooking_risk'', n_severity = ''warning'',
                  n_room_label = room_label tenant room d,
                  n_related = str_or other booking_id,
                  n_data = common @ [(''conflicting_booking_name'', if name = [] then JNull else JStr name),
                     (''correlation_id'', jopt corr), (''rejected_room_id'', JStr room),
                     (''rejected_booking_id'', JStr booking_id)]\<rparr>;
          d1 = (if notify_up en note then d\<lparr>notifications := notifications d @ [note]\<rparr> else d);
          alert = [(''booking'', JStr (if booking_id = [] then ''unknown'' else booking_id)),
                   (''trigger'', JStr ''overbooking_blocked''), (''severity'', JStr ''warning'')]
                  @ common @ [(''rejected_room_id'', JStr room), (''rejected_booking_id'', JStr booking_id),
                     (''correlation_id'', jopt corr)]
      in if alert_up en then d1\<lparr>alerts := alerts d1 @ [alert]\<rparr> else d1)"

text \<open>\<open>assert_pending_assignment\<close>: the guard of the fallback inserts.\<close>

definition assert_pending_assignment :: "booking \<Rightarrow> booking_error option" where
  "assert_pending_assignment b =
     (if b_room b \<noteq> None then Some (RuntimeErr ''pending_assignment fallback must have room_id=None'') else None)"

section \<open>Claiming the nights of a stay\<close>

definition booking_lock :: "env \<Rightarrow> string \<Rightarrow> string \<Rightarrow> string \<Rightarrow> day \<Rightarrow> lock" where
  "booking_lock en tenant room booking_id night =
     \<lparr>lk_tenant = tenant, lk_room = room, lk_night = night, lk_booking = booking_id,
      lk_type = Some ''booking'', lk_created = Stamp (now en), lk_expires = None,
      lk_reason = '''', lk_by = ''''\<rparr>"

text \<open>
  The \<open>for night in nights\<close> loop shared by creation and assignment, up to the first night
  that is taken.  \<open>mine\<close> says of the lock found whether the loop just goes on
  (assignment skips a night the booking holds already).
\<close>

fun claim_loop ::
  "env \<Rightarrow> (lock option \<Rightarrow> bool) \<Rightarrow> (day \<Rightarrow> lock) \<Rightarrow> string option \<Rightarrow> day list \<Rightarrow> day list \<Rightarrow> db \<Rightarrow>
   db \<times> day list \<times> (day \<times> lock option) option" where
  "claim_loop en mine doc corr [] claimed d = (d, claimed, None)"
| "claim_loop en mine doc corr (night # rest) claimed d =
     (case claim_night_or_get_owner en (doc night) corr d of
        (d1, True, _) \<Rightarrow> claim_loop en mine doc corr rest (claimed @ [night]) d1
      | (d1, False, existing) \<Rightarrow>
          if mine existing then claim_loop en mine doc corr rest claimed d1
          else (d1, claimed, Some (night, existing)))"

definition owner_of :: "lock option \<Rightarrow> string option" where
  "owner_of existing = map_option lk_booking existing"

definition conflict_type_of :: "string option \<Rightarrow> string" where
  "conflict_type_of other =
     (let o' = get_default '''' other in
      if startswith o' ooo_prefix then ''ooo''
      else if startswith o' oos_prefix then ''oos''
      else if startswith o' maintenance_prefix then ''maintenance''
      else ''booking'')"

definition lock_type_of :: "lock option \<Rightarrow> string" where
  "lock_type_of existing =
     (case existing of None \<Rightarrow> ''booking'' | Some l \<Rightarrow> get_default ''booking'' (lk_type l))"

text \<open>The deletion both rollbacks use: the nights claimed by this call, of this booking.\<close>

definition release_claimed :: "string \<Rightarrow> string \<Rightarrow> string \<Rightarrow> day list \<Rightarrow> db \<Rightarrow> db" where
  "release_claimed tenant room booking_id claimed d =
     (if claimed = [] then d
      else d\<lparr>locks := delete_many (\<lambda>l. lk_tenant l = tenant \<and> lk_room l = room
                         \<and> lk_night l \<in> set claimed \<and> lk_booking l = booking_id) (locks d)\<rparr>)"


section \<open>Creating a booking\<close>

definition insert_booking :: "env \<Rightarrow> booking \<Rightarrow> db \<Rightarrow> db \<times> (booking_error + booking)" where
  "insert_booking en b d =
     (case booking_insert_error en b of
        Some e \<Rightarrow> (d, Inl (DriverErr e))
      | None \<Rightarrow> (d\<lparr>bookings := bookings d @ [b]\<rparr>, Inr b))"

text \<open>What happens when a night is taken: audit, compensation, alert, and the error.\<close>

definition reject_creation ::
  "env \<Rightarrow> booking \<Rightarrow> string \<Rightarrow> string option \<Rightarrow> day list \<Rightarrow> day list \<Rightarrow> day \<Rightarrow> lock option \<Rightarrow> db \<Rightarrow> db \<times> booking_error" where
  "reject_creation en b room corr nights claimed night existing d =
     (let tenant = b_tenant b; booking_id = b_id b;
          other = owner_of existing;
          conflict_type = conflict_type_of other;
          d1 = booking_event en tenant ''lock_conflict'' ''rejected'' booking_id corr
                 [(''conflict_night'', JDay night), (''conflict_type'', JStr conflict_type),
                  (''conflicting_booking_id'', jopt other),
                  (''conflicting_lock_type'', JStr (lock_type_of existing)),
                  (''requested_nights'', JDays nights), (''claimed_before_conflict'', JDays claimed)] d;
          d2 = release_claimed tenant room booking_id claimed d1;
          d3 = (if claimed = [] then d2
                else booking_event en tenant ''lock_compensation'' ''rolled_back'' booking_id corr
                       [(''released_nights'', JDays claimed), (''failed_night'', JDay night),
                        (''total_requested'', JInt (int (length nights))),
                        (''total_claimed_before_rollback'', JInt (int (length claimed)))] d2);
          d4 = emit_overbooking_alert en tenant booking_id room conflict_type (JDay night) other corr d3
      in (d4, Conflict other conflict_type [night]))"

text \<open>Phases 1 and 2: claim every night, log, insert; any failure gives the nights back.\<close>

definition claim_and_insert ::
  "env \<Rightarrow> booking \<Rightarrow> string \<Rightarrow> iso \<Rightarrow> iso \<Rightarrow> string option \<Rightarrow> day list \<Rightarrow> db \<Rightarrow> db \<times> (booking_error + booking)" where
  "claim_and_insert en b room check_in check_out corr nights d =
     (let tenant = b_tenant b; booking_id = b_id b in
      case claim_loop en (\<lambda>_. False) (booking_lock en tenant room booking_id) corr nights [] d of
        (d1, claimed, Some (night, existing)) \<Rightarrow>
          (let (d2, e) = reject_creation en b room corr nights claimed night existing d1 in (d2, Inl e))
      | (d1, claimed, None) \<Rightarrow>
          (let d2 = booking_event en tenant ''lock_acquired'' ''success'' booking_id corr
                      [(''nights_locked'', JDays nights), (''night_count'', JInt (int (length nights))),
                       (''room_id'', JStr room), (''check_in'', JIso check_in), (''check_out'', JIso check_out)] d1
           in case insert_booking en b d2 of
                (d3, Inr r) \<Rightarrow> (d3, Inr r)
              | (d3, Inl e) \<Rightarrow>
                  (if claimed = [] then d3
                   else booking_event en tenant ''lock_compensation'' ''error_rollback'' booking_id corr
                          [(''released_nights'', JDays claimed), (''reason'', JStr ''booking_insert_failed'')]
                          (release_claimed tenant room booking_id claimed d3), Inl e)))"

definition create_booking_atomic ::
  "env \<Rightarrow> string \<Rightarrow> booking \<Rightarrow> bool \<Rightarrow> db \<Rightarrow> db \<times> (booking_error + booking)" where
  "create_booking_atomic en tenant doc suppress d =
     (case prepare_booking en tenant doc suppress d of
        Inl e \<Rightarrow> (d, Inl e)
      | Inr b \<Rightarrow>
          (let (check_in, check_out) = stay_of b;
               status = get_default ''confirmed'' (b_status b);
               booking_id = b_id b;
               corr = Some (str_or (b_corr b) booking_id);
               room = get_default '''' (b_room b)
           in if status \<in> set [''cancelled'', ''no_show''] then insert_booking en b d
              else if room = [] then insert_booking en b d
              else case (check_in, check_out) of
                  (Some ci, Some co) \<Rightarrow>
                    (case find_overlapping_active_booking tenant room ci co booking_id d of
                       Some overlap \<Rightarrow>
                         (emit_overbooking_alert en tenant booking_id room ''booking'' (JIso (prefix10 ci))
                            (Some (b_id overlap)) corr d,
                          Inl (Conflict (Some (b_id overlap)) ''booking'' []))
                     | None \<Rightarrow>
                         (case night_dates ci co of
                            None \<Rightarrow> (d, Inl ValueErr)
                          | Some nights \<Rightarrow>
                              if nights = [] then insert_booking en b d
                              else claim_and_insert en b room ci co corr nights d))
                | _ \<Rightarrow> insert_booking en b d))"

section \<open>Releasing nights\<close>

text \<open>\<open>release_booking_nights\<close>: at most 365 nights are listed in the event.\<close>

definition release_booking_nights ::
  "env \<Rightarrow> string \<Rightarrow> string \<Rightarrow> string \<Rightarrow> string option \<Rightarrow> db \<Rightarrow> db \<times> nat" where
  "release_booking_nights en tenant booking_id reason corr d =
     (let mine = (\<lambda>l. lk_tenant l = tenant \<and> lk_booking l = booking_id);
          found = to_list 365 (find_many mine (locks d));
          deleted = count_documents mine (locks d);
          d1 = d\<lparr>locks := delete_many mine (locks d)\<rparr>
      in (if deleted > 0 then
            booking_event en tenant ''lock_released'' ''success'' booking_id
              (Some (str_or corr booking_id))
              [(''released_nights'', JDays (map lk_night found)),
               (''night_count'', JInt (int deleted)), (''reason'', JStr reason)] d1
          else d1, deleted))"

definition release_booking_room_nights ::
  "string \<Rightarrow> string \<Rightarrow> string \<Rightarrow> iso \<Rightarrow> iso \<Rightarrow> db \<Rightarrow> db \<times> (booking_error + nat)" where
  "release_booking_room_nights tenant booking_id room check_in check_out d =
     (case night_dates check_in check_out of
        None \<Rightarrow> (d, Inl ValueErr)
      | Some nights \<Rightarrow>
          if nights = [] then (d, Inr 0)
          else
            (let p = (\<lambda>l. lk_tenant l = tenant \<and> lk_booking l = booking_id \<and> lk_room l = room
                          \<and> lk_night l \<in> set nights)
             in (d\<lparr>locks := delete_many p (locks d)\<rparr>, Inr (count_documents p (locks d)))))"

section \<open>Assigning a room\<close>

definition assign_room_atomic ::
  "env \<Rightarrow> string \<Rightarrow> string \<Rightarrow> string \<Rightarrow> iso option \<Rightarrow> iso option \<Rightarrow> string option \<Rightarrow> bool \<Rightarrow> db \<Rightarrow>
   db \<times> (booking_error + day list)" where
  "assign_room_atomic en tenant booking_id room check_in check_out corr release_obsolete d =
     (case (check_in, check_out) of
        (Some ci, Some co) \<Rightarrow>
          if room = [] then (d, Inl ValueErr)
          else (case find_overlapping_active_booking tenant room ci co booking_id d of
             Some overlap \<Rightarrow> (d, Inl (Conflict (Some (b_id overlap)) ''booking'' []))
           | None \<Rightarrow>
               (case night_dates ci co of
                  None \<Rightarrow> (d, Inl ValueErr)
                | Some nights \<Rightarrow>
                    (let corr' = Some (str_or corr booking_id) in
                     case claim_loop en (\<lambda>ex. owner_of ex = Some booking_id)
                            (booking_lock en tenant room booking_id) corr' nights [] d of
                       (d1, claimed, Some (night, existing)) \<Rightarrow>
                         (let d2 = release_claimed tenant room booking_id claimed d1;
                              other = owner_of existing;
                              conflict_type = conflict_type_of other
                          in (booking_event en tenant ''assign_lock_conflict'' ''rejected'' booking_id corr'
                                [(''conflict_night'', JDay night), (''conflict_type'', JStr conflict_type),
                                 (''conflicting_booking_id'', jopt other),
                                 (''conflicting_lock_type'', JStr (lock_type_of existing))] d2,
                              Inl (Conflict other conflict_type [night])))
                     | (d1, claimed, None) \<Rightarrow>
                         if \<not> release_obsolete then (d1, Inr nights)
                         else
                           (let d2 = d1\<lparr>locks := delete_many
                                  (\<lambda>l. lk_tenant l = tenant \<and> lk_booking l = booking_id
                                       \<and> (lk_room l \<noteq> room \<or> lk_room l = room \<and> lk_night l \<notin> set nights))
                                  (locks d1)\<rparr>
                            in (booking_event en tenant ''assign_lock_acquired'' ''success'' booking_id corr'
                                  [(''nights_locked'', JDays nights),
                                   (''night_count'', JInt (int (length nights))), (''room_id'', JStr room)] d2,
                                Inr nights)))))
      | _ \<Rightarrow> (d, Inl ValueErr))"

section \<open>Frames\<close>

lemma alert_frame [simp]:
  "locks (emit_overbooking_alert en t i r ct n other c d) = locks d"
  "bookings (emit_overbooking_alert en t i r ct n other c d) = bookings d"
  "rooms (emit_overbooking_alert en t i r ct n other c d) = rooms d"
  "guests (emit_overbooking_alert en t i r ct n other c d) = guests d"
  "timeline (emit_overbooking_alert en t i r ct n other c d) = timeline d"
  "outbox (emit_overbooking_alert en t i r ct n other c d) = outbox d"
  by (simp_all add: emit_overbooking_alert_def Let_def)

lemma release_claimed_locks:
  "locks (release_claimed t r i ns d) =
     delete_many (\<lambda>l. lk_tenant l = t \<and> lk_room l = r \<and> lk_night l \<in> set ns \<and> lk_booking l = i) (locks d)"
  by (simp add: release_claimed_def delete_many_def)

lemma release_claimed_frame [simp]:
  "bookings (release_claimed t r i ns d) = bookings d"
  "timeline (release_claimed t r i ns d) = timeline d"
  by (simp_all add: release_claimed_def)

lemma release_claimed_ok: "locks_ok d \<Longrightarrow> locks_ok (release_claimed t r i ns d)"
  by (simp add: locks_ok_def release_claimed_locks distinct_delete_many)

lemma insert_booking_frame:
  "insert_booking en b d = (d', r) \<Longrightarrow> locks d' = locks d \<and> timeline d' = timeline d"
  by (auto simp: insert_booking_def split: option.splits)

section \<open>The claim loop\<close>

text \<open>
  The locks after the loop: the new ones for the nights claimed, and every old lock whose
  night was not claimed.  A claimed night was free, or held by a stale lock.
\<close>

definition claimed_locks :: "(day \<Rightarrow> lock) \<Rightarrow> day list \<Rightarrow> lock set" where
  "claimed_locks doc ns = doc ` set ns"

lemma retirable_same:
  assumes "bookings d' = bookings d"
  shows "retirable en rq d' l = retirable en rq d l"
proof -
  have same: "find_booking t i d' = find_booking t i d" for t i
    using assms by (simp add: find_booking_def)
  have "stale_reason en t r n l rq d' = stale_reason en t r n l rq d" for t r n
    unfolding stale_reason_def same ..
  then show ?thesis by (simp add: retirable_def)
qed

definition stays_or_stale :: "env \<Rightarrow> string \<Rightarrow> db \<Rightarrow> lock set \<Rightarrow> bool" where
  "stays_or_stale en rq d ls \<longleftrightarrow> (\<forall>l \<in> set (locks d). l \<in> ls \<or> retirable en rq d l)"

text \<open>Documents of one stay: the key names the night, the owner is the booking.\<close>

definition stay_docs :: "string \<Rightarrow> string \<Rightarrow> string \<Rightarrow> (day \<Rightarrow> lock) \<Rightarrow> bool" where
  "stay_docs t r i doc \<longleftrightarrow> (\<forall>n. lock_key (doc n) = (t, r, n) \<and> lk_booking (doc n) = i)"

lemma booking_lock_docs [simp]: "stay_docs t r i (booking_lock en t r i)"
  by (simp add: stay_docs_def booking_lock_def lock_key_def)

lemma claim_loop_frame:
  "claim_loop en mine doc c ns cl d = (d', cl', res) \<Longrightarrow> bookings d' = bookings d"
proof (induction ns arbitrary: cl d)
  case (Cons n ns)
  obtain d1 ok ex where s: "claim_night_or_get_owner en (doc n) c d = (d1, ok, ex)" by (metis prod_cases3)
  with Cons show ?case using claim_frame[OF s] by (auto split: bool.splits if_splits)
qed simp

lemma claim_ok:
  assumes "locks_ok d" "claim_night_or_get_owner en doc c d = (d', ok, ex)"
  shows "locks_ok d'"
proof (cases ok)
  case True
  with assms(2) have "claim_night_or_get_owner en doc c d = (d', True, ex)" by simp
  then show ?thesis using claim_success[OF assms(1)] by blast
next
  case False
  with assms(2) have "claim_night_or_get_owner en doc c d = (d', False, ex)" by simp
  then show ?thesis using claim_failure[OF assms(1)] assms(1) by blast
qed

lemma claim_loop_ok:
  assumes "locks_ok d" "claim_loop en mine doc c ns cl d = (d', cl', res)"
  shows "locks_ok d'"
  using assms
proof (induction ns arbitrary: cl d)
  case (Cons n ns)
  obtain d1 ok ex where s: "claim_night_or_get_owner en (doc n) c d = (d1, ok, ex)" by (metis prod_cases3)
  have "locks_ok d1" using claim_ok[OF Cons.prems(1) s] .
  with Cons.IH Cons.prems(2) s show ?case by (auto split: bool.splits if_splits)
qed simp

text \<open>
  The new nights \<open>ns'\<close> of a run: they extend the claimed list, and each lock set is the old
  one without the keys claimed, plus the new documents.
\<close>

lemma claim_loop_locks:
  assumes "locks_ok d" "stay_docs t r i doc" "claim_loop en mine doc c ns cl d = (d', cl', res)" "distinct ns"
  shows "\<exists>new. cl' = cl @ new \<and> set new \<subseteq> set ns \<and>
     set (locks d') = doc ` set new \<union> {l \<in> set (locks d). lock_key l \<notin> (\<lambda>n. (t, r, n)) ` set new} \<and>
     (\<forall>l \<in> set (locks d). lock_key l \<in> (\<lambda>n. (t, r, n)) ` set new \<longrightarrow> retirable en i d l)"
  using assms
proof (induction ns arbitrary: cl d)
  case Nil
  then show ?case by simp
next
  case (Cons n ns)
  obtain d1 ok ex where s: "claim_night_or_get_owner en (doc n) c d = (d1, ok, ex)" by (metis prod_cases3)
  have dk: "lock_key (doc m) = (t, r, m)" "lk_booking (doc m) = i" for m
    using Cons.prems(2) by (auto simp: stay_docs_def)
  show ?case
  proof (cases ok)
    case True
    with s have s': "claim_night_or_get_owner en (doc n) c d = (d1, True, ex)" by simp
    note cs = claim_success[OF Cons.prems(1) s']
    have run: "claim_loop en mine doc c ns (cl @ [n]) d1 = (d', cl', res)"
      using Cons.prems(3) s' by simp
    from Cons.IH[OF _ Cons.prems(2) run] cs Cons.prems(4) obtain new where
      n1: "cl' = (cl @ [n]) @ new" "set new \<subseteq> set ns"
      and n2: "set (locks d') = doc ` set new \<union> {l \<in> set (locks d1). lock_key l \<notin> (\<lambda>n. (t, r, n)) ` set new}"
      and n3: "\<forall>l \<in> set (locks d1). lock_key l \<in> (\<lambda>n. (t, r, n)) ` set new \<longrightarrow> retirable en i d1 l"
      by auto
    have "n \<notin> set new" using n1(2) Cons.prems(4) by auto
    moreover have "retirable en i d1 l = retirable en i d l" for l
      using claim_frame[OF s'] retirable_same by blast
    ultimately show ?thesis
      using n1 n2 n3 cs dk by (intro exI[of _ "n # new"]) (auto simp: image_iff)
  next
    case False
    with s have s': "claim_night_or_get_owner en (doc n) c d = (d1, False, ex)" by simp
    note cf = claim_failure[OF Cons.prems(1) s']
    show ?thesis
    proof (cases "mine ex")
      case True
      then have "claim_loop en mine doc c ns cl d = (d', cl', res)"
        using Cons.prems(3) s' cf by simp
      from Cons.IH[OF Cons.prems(1,2) this] Cons.prems(4) show ?thesis by force
    next
      case mf: False
      then show ?thesis using Cons.prems(3) s' cf by simp
    qed
  qed
qed

text \<open>Which night stops the loop, and what a completed loop has.\<close>

lemma claim_loop_taken:
  assumes "locks_ok d" "stay_docs t r i doc" "distinct ns"
    and "claim_loop en mine doc c ns cl d = (d', cl', Some (n, ex))"
  shows "n \<in> set ns \<and> \<not> mine ex \<and>
    (\<exists>l \<in> set (locks d). ex = Some l \<and> lock_key l = (t, r, n) \<and> \<not> retirable en i d l)"
  using assms
proof (induction ns arbitrary: cl d)
  case (Cons m ns)
  obtain d1 ok ex1 where s: "claim_night_or_get_owner en (doc m) c d = (d1, ok, ex1)" by (metis prod_cases3)
  have dk: "lock_key (doc k) = (t, r, k)" "lk_booking (doc k) = i" for k
    using Cons.prems(2) by (auto simp: stay_docs_def)
  show ?case
  proof (cases ok)
    case True
    with s have s': "claim_night_or_get_owner en (doc m) c d = (d1, True, ex1)" by simp
    have "claim_loop en mine doc c ns (cl @ [m]) d1 = (d', cl', Some (n, ex))"
      using Cons.prems(4) s' by simp
    from Cons.IH[OF claim_ok[OF Cons.prems(1) s'] Cons.prems(2) _ this] Cons.prems(3)
    have "n \<in> set ns \<and> \<not> mine ex \<and>
      (\<exists>l \<in> set (locks d1). ex = Some l \<and> lock_key l = (t, r, n) \<and> \<not> retirable en i d1 l)" by simp
    moreover have "retirable en i d1 l = retirable en i d l" for l
      using claim_frame[OF s'] retirable_same by blast
    ultimately show ?thesis
      using claim_success[OF Cons.prems(1) s'] dk Cons.prems(3) by auto
  next
    case False
    with s have s': "claim_night_or_get_owner en (doc m) c d = (d1, False, ex1)" by simp
    note cf = claim_failure[OF Cons.prems(1) s']
    show ?thesis
    proof (cases "mine ex1")
      case True
      then have "claim_loop en mine doc c ns cl d = (d', cl', Some (n, ex))"
        using Cons.prems(4) s' cf by simp
      from Cons.IH[OF Cons.prems(1,2) _ this] Cons.prems(3) show ?thesis by simp
    next
      case mf: False
      then show ?thesis using Cons.prems(4) s' cf dk by auto
    qed
  qed
qed simp

lemma claim_loop_done:
  assumes "locks_ok d" "stay_docs t r i doc" "distinct ns"
    and "claim_loop en mine doc c ns cl d = (d', cl', None)" "n \<in> set ns"
  shows "n \<in> set cl' \<or> (\<exists>l \<in> set (locks d). lock_key l = (t, r, n) \<and> mine (Some l))"
  using assms
proof (induction ns arbitrary: cl d)
  case (Cons m ns)
  obtain d1 ok ex1 where s: "claim_night_or_get_owner en (doc m) c d = (d1, ok, ex1)" by (metis prod_cases3)
  have dk: "lock_key (doc k) = (t, r, k)" for k
    using Cons.prems(2) by (auto simp: stay_docs_def)
  show ?case
  proof (cases ok)
    case True
    with s have s': "claim_night_or_get_owner en (doc m) c d = (d1, True, ex1)" by simp
    have run: "claim_loop en mine doc c ns (cl @ [m]) d1 = (d', cl', None)"
      using Cons.prems(4) s' by simp
    note ok1 = claim_ok[OF Cons.prems(1) s']
    have dn: "distinct ns" using Cons.prems(3) by simp
    have "set (cl @ [m]) \<subseteq> set cl'"
      using claim_loop_locks[OF ok1 Cons.prems(2) run dn] by auto
    moreover have "n \<in> set cl' \<or> (\<exists>l \<in> set (locks d1). lock_key l = (t, r, n) \<and> mine (Some l))" if "n \<noteq> m"
      using Cons.IH[OF ok1 Cons.prems(2) dn run] that Cons.prems(5) by simp
    ultimately show ?thesis
      using claim_success[OF Cons.prems(1) s'] dk by (cases "n = m") auto
  next
    case False
    with s have s': "claim_night_or_get_owner en (doc m) c d = (d1, False, ex1)" by simp
    note cf = claim_failure[OF Cons.prems(1) s']
    have "mine ex1" using Cons.prems(4) s' by (auto split: if_splits)
    moreover from this have "claim_loop en mine doc c ns cl d = (d', cl', None)"
      using Cons.prems(4) s' cf by simp
    ultimately show ?thesis
      using Cons.IH[OF Cons.prems(1,2) _ _] Cons.prems(3,5) cf dk by auto
  qed
qed simp

lemma claim_loop_all:
  assumes "claim_loop en (\<lambda>_. False) doc c ns cl d = (d', cl', None)"
  shows "cl' = cl @ ns"
  using assms by (induction ns arbitrary: cl d) (fastforce split: prod.splits bool.splits)+

text \<open>A run that meets only free nights claims them all.\<close>

lemma claim_loop_free:
  assumes "locks_ok d" "stay_docs t r i doc" "distinct ns"
    and "\<forall>n \<in> set ns. \<forall>l \<in> set (locks d). lock_key l \<noteq> (t, r, n)"
  shows "\<exists>d'. claim_loop en mine doc c ns cl d = (d', cl @ ns, None)"
  using assms
proof (induction ns arbitrary: cl d)
  case (Cons m ns)
  obtain d1 ok ex1 where s: "claim_night_or_get_owner en (doc m) c d = (d1, ok, ex1)" by (metis prod_cases3)
  have dk: "lock_key (doc k) = (t, r, k)" for k
    using assms(2) by (auto simp: stay_docs_def)
  have ok: ok
  proof (rule ccontr)
    assume "\<not> ok"
    with s have "claim_night_or_get_owner en (doc m) c d = (d1, False, ex1)" by simp
    from claim_failure[OF Cons.prems(1) this] Cons.prems(4) dk show False by auto
  qed
  with s have s': "claim_night_or_get_owner en (doc m) c d = (d1, True, ex1)" by simp
  have "\<exists>d'. claim_loop en mine doc c ns (cl @ [m]) d1 = (d', (cl @ [m]) @ ns, None)"
    using claim_success[OF Cons.prems(1) s'] Cons.prems(3,4) dk by (intro Cons.IH) (auto simp: assms(2))
  then show ?case using s' by simp
qed simp

section \<open>The rollback gives back exactly what was claimed\<close>

lemma rollback_locks:
  assumes "locks_ok d" "stay_docs t r i doc" "distinct ns"
    and "claim_loop en mine doc c ns [] d = (d', cl', res)" "set (locks d'') = set (locks d')"
  shows "set (locks (release_claimed t r i cl' d'')) \<subseteq> set (locks d) \<and>
    (\<forall>l \<in> set (locks d). l \<in> set (locks (release_claimed t r i cl' d'')) \<or> retirable en i d l)"
proof -
  from claim_loop_locks[OF assms(1,2,4,3)]
  have ls: "set (locks d') = doc ` set cl' \<union> {l \<in> set (locks d). lock_key l \<notin> (\<lambda>n. (t, r, n)) ` set cl'}"
    and st: "\<forall>l \<in> set (locks d). lock_key l \<in> (\<lambda>n. (t, r, n)) ` set cl' \<longrightarrow> retirable en i d l"
    by auto
  from assms(2) have "lk_tenant (doc n) = t" "lk_room (doc n) = r" "lk_night (doc n) = n" "lk_booking (doc n) = i" for n
    by (auto simp: stay_docs_def lock_key_def)
  then have "set (locks (release_claimed t r i cl' d''))
      = {l \<in> set (locks d). lock_key l \<notin> (\<lambda>n. (t, r, n)) ` set cl'}"
    using assms(5) ls by (auto simp: release_claimed_locks store_simps lock_key_def)
  with st show ?thesis by auto
qed

section \<open>The outcomes of a creation\<close>

lemma stay_of_updates [simp]:
  "stay_of (doc\<lparr>b_guest_name := g\<rparr>) = stay_of doc"
  "stay_of (doc\<lparr>b_pii := p\<rparr>) = stay_of doc"
  "stay_of (doc\<lparr>b_search := q\<rparr>) = stay_of doc"
  "stay_of (doc\<lparr>b_pending := w\<rparr>) = stay_of doc"
  "stay_of (doc\<lparr>b_status := st\<rparr>) = stay_of doc"
  "stay_of (doc\<lparr>b_room := rm\<rparr>) = stay_of doc"
  by (simp_all add: stay_of_def split: option.splits)

lemma prepare_keeps:
  "prepare_booking en t doc s d = Inr b \<Longrightarrow>
     b_tenant b = t \<and> b_id b = b_id doc \<and> b_status b = b_status doc \<and> b_room b = b_room doc \<and>
     stay_of b = stay_of doc"
  by (auto simp: prepare_booking_def Let_def split: if_splits pii_result.splits)

text \<open>A booking that takes no inventory: it is only inserted.\<close>

definition needs_no_locks :: "booking \<Rightarrow> bool" where
  "needs_no_locks b \<longleftrightarrow> \<not> live b \<or> get_default '''' (b_room b) = [] \<or> nights_of b = {}"

lemma cancelled_not_live:
  "get_default ''confirmed'' (b_status b) \<in> set [''cancelled'', ''no_show''] \<Longrightarrow> \<not> live b"
  by (cases "b_status b")
     (auto simp: live_def terminal_status_def terminal_booking_statuses_def lower_def lower_char_def)

lemma prepare_error: "prepare_booking en t doc s d = Inl e \<Longrightarrow> e \<noteq> Conflict other ct ns"
  by (auto simp: prepare_booking_def Let_def split: if_splits pii_result.splits)

lemma create_outcomes:
  assumes "create_booking_atomic en t doc s d = (d', r)"
  obtains (refused) e where "d' = d" "r = Inl e" "\<forall>other ct ns. e \<noteq> Conflict other ct ns"
  | (stored) b where "prepare_booking en t doc s d = Inr b" "needs_no_locks b" "insert_booking en b d = (d', r)"
  | (overlaps) b :: booking and ct n c and o1 :: booking where "d' = emit_overbooking_alert en t (b_id b) (get_default '''' (b_room b)) ct n (Some (b_id o1)) c d"
      "r = Inl (Conflict (Some (b_id o1)) ''booking'' [])"
  | (claims) b ci co nights c where "prepare_booking en t doc s d = Inr b"
      "stay_of b = (Some ci, Some co)" "night_dates ci co = Some nights" "nights \<noteq> []"
      "get_default '''' (b_room b) \<noteq> []"
      "claim_and_insert en b (get_default '''' (b_room b)) ci co c nights d = (d', r)"
proof (cases "prepare_booking en t doc s d")
  case (Inl e)
  with assms prepare_error[OF Inl] show ?thesis by (intro refused[of e]) (auto simp: create_booking_atomic_def)
next
  case (Inr b)
  obtain ci co where st: "stay_of b = (ci, co)" by (cases "stay_of b")
  let ?room = "get_default '''' (b_room b)"
  let ?c = "Some (str_or (b_corr b) (b_id b))"
  consider "get_default ''confirmed'' (b_status b) \<in> set [''cancelled'', ''no_show'']"
    | "get_default ''confirmed'' (b_status b) \<notin> set [''cancelled'', ''no_show'']" "?room = [] \<or> ci = None \<or> co = None"
    | x y where "get_default ''confirmed'' (b_status b) \<notin> set [''cancelled'', ''no_show'']" "?room \<noteq> []" "ci = Some x" "co = Some y"
    by (cases ci; cases co) auto
  then show ?thesis
  proof cases
    case 1
    with assms Inr st show ?thesis
      using cancelled_not_live[OF 1]
      by (intro stored[OF Inr]) (auto simp: create_booking_atomic_def Let_def needs_no_locks_def)
  next
    case 2
    with st have "needs_no_locks b" by (auto simp: needs_no_locks_def nights_of_def split: option.splits)
    with 2 assms Inr st show ?thesis
      by (intro stored[OF Inr]) (auto simp: create_booking_atomic_def Let_def split: option.splits if_splits)
  next
    case 3
    show ?thesis
    proof (cases "find_overlapping_active_booking t ?room x y (b_id b) d")
      case (Some o1)
      with 3 assms Inr st show ?thesis
        by (intro overlaps[of b "''booking''" "JIso (prefix10 x)" o1 "Some (str_or (b_corr b) (b_id b))"]) (auto simp: create_booking_atomic_def Let_def)
    next
      case no: None
      show ?thesis
      proof (cases "night_dates x y")
        case None
        with no 3 assms Inr st show ?thesis
          by (intro refused[of ValueErr]) (auto simp: create_booking_atomic_def Let_def)
      next
        case (Some nights)
        show ?thesis
        proof (cases "nights = []")
          case True
          with Some st 3 have "needs_no_locks b" by (simp add: needs_no_locks_def nights_of_def)
          with True Some no 3 assms Inr st show ?thesis
            by (intro stored[OF Inr]) (auto simp: create_booking_atomic_def Let_def)
        next
          case False
          with Some no 3 assms Inr st show ?thesis
            by (intro claims[OF Inr, of x y nights ?c]) (auto simp: create_booking_atomic_def Let_def)
        qed
      qed
    qed
  qed
qed

lemma claim_and_insert_cases:
  assumes "claim_and_insert en b room ci co c nights d = (d', r)"
  obtains (taken) d1 claimed n ex e where
      "claim_loop en (\<lambda>_. False) (booking_lock en (b_tenant b) room (b_id b)) c nights [] d = (d1, claimed, Some (n, ex))"
      "(d', e) = reject_creation en b room c nights claimed n ex d1" "r = Inl e"
  | (inserted) d1 where
      "claim_loop en (\<lambda>_. False) (booking_lock en (b_tenant b) room (b_id b)) c nights [] d = (d1, nights, None)"
      "r = Inr b" "locks d' = locks d1" "bookings d' = bookings d1 @ [b]"
  | (failed) d1 e d2 where
      "claim_loop en (\<lambda>_. False) (booking_lock en (b_tenant b) room (b_id b)) c nights [] d = (d1, nights, None)"
      "r = Inl (DriverErr e)" "locks d2 = locks d1"
      "locks d' = locks (release_claimed (b_tenant b) room (b_id b) nights d2)" "bookings d' = bookings d1"
proof -
  obtain d1 claimed res where
    run: "claim_loop en (\<lambda>_. False) (booking_lock en (b_tenant b) room (b_id b)) c nights [] d = (d1, claimed, res)"
    by (metis prod_cases3)
  show ?thesis
  proof (cases res)
    case (Some x)
    then obtain n ex where "res = Some (n, ex)" by (cases x) auto
    then show ?thesis using run assms
      by (intro taken) (auto simp: claim_and_insert_def Let_def split: prod.splits)
  next
    case None
    with run have "claimed = nights" using claim_loop_all by fastforce
    show ?thesis
    proof (cases "booking_insert_error en b")
      case n: None
      then show ?thesis using run assms None \<open>claimed = nights\<close>
        by (intro inserted[of d1]) (auto simp: claim_and_insert_def Let_def insert_booking_def)
    next
      case (Some e)
      let ?d2 = "booking_event en (b_tenant b) ''lock_acquired'' ''success'' (b_id b) c
                      [(''nights_locked'', JDays nights), (''night_count'', JInt (int (length nights))),
                       (''room_id'', JStr room), (''check_in'', JIso ci), (''check_out'', JIso co)] d1"
      from Some show ?thesis using run assms None \<open>claimed = nights\<close>
        by (intro failed[of d1 e ?d2])
           (auto simp: claim_and_insert_def Let_def insert_booking_def release_claimed_def)
    qed
  qed
qed

lemma reject_frame:
  assumes "(d', e) = reject_creation en b room c nights claimed n ex d"
  obtains d2 where "bookings d' = bookings d" "locks d2 = locks d"
    "locks d' = locks (release_claimed (b_tenant b) room (b_id b) claimed d2)"
    "e = Conflict (owner_of ex) (conflict_type_of (owner_of ex)) [n]"
proof -
  let ?d1 = "booking_event en (b_tenant b) ''lock_conflict'' ''rejected'' (b_id b) c
       [(''conflict_night'', JDay n), (''conflict_type'', JStr (conflict_type_of (owner_of ex))),
        (''conflicting_booking_id'', jopt (owner_of ex)), (''conflicting_lock_type'', JStr (lock_type_of ex)),
        (''requested_nights'', JDays nights), (''claimed_before_conflict'', JDays claimed)] d"
  show ?thesis
    using assms by (intro that[of ?d1]) (auto simp: reject_creation_def Let_def)
qed

section \<open>The invariant of the booking tables\<close>

text \<open>
  \<open>covered\<close>: each night of each live booking of a room is locked for that booking.
  \<open>hotel_ok\<close> is the state the write path keeps: one lock per room night, one document per
  booking id, and coverage.
\<close>

definition locked_for :: "db \<Rightarrow> booking \<Rightarrow> string \<Rightarrow> day \<Rightarrow> bool" where
  "locked_for d b room night \<longleftrightarrow>
     (\<exists>l \<in> set (locks d). lock_key l = (b_tenant b, room, night) \<and> lk_booking l = b_id b)"

definition holds_its_nights :: "db \<Rightarrow> booking \<Rightarrow> bool" where
  "holds_its_nights d b \<longleftrightarrow>
     (live b \<longrightarrow> (\<forall>room night. b_room b = Some room \<and> room \<noteq> [] \<and> night \<in> nights_of b
                     \<longrightarrow> locked_for d b room night))"

definition hotel_ok :: "db \<Rightarrow> bool" where
  "hotel_ok d \<longleftrightarrow> locks_ok d \<and> distinct (map booking_key (bookings d)) \<and>
     (\<forall>b \<in> set (bookings d). holds_its_nights d b)"


text \<open>A change of the lock table that takes away only stale locks keeps every booking's nights.\<close>

lemma keeps_nights:
  assumes "hotel_ok d" "b \<in> set (bookings d)"
    and "\<And>l. l \<in> set (locks d) \<Longrightarrow> lk_tenant l = b_tenant b \<Longrightarrow> lk_booking l = b_id b
           \<Longrightarrow> l \<in> set (locks d') \<or> retirable en rq d l"
  shows "holds_its_nights d' b"
  unfolding holds_its_nights_def
proof (intro impI allI, elim conjE)
  fix room night
  assume b: "live b" "b_room b = Some room" "room \<noteq> []" "night \<in> nights_of b"
  from b assms(1,2) have "locked_for d b room night" by (simp add: hotel_ok_def holds_its_nights_def)
  then obtain l where l: "l \<in> set (locks d)" "lock_key l = (b_tenant b, room, night)" "lk_booking l = b_id b"
    by (auto simp: locked_for_def)
  then have "protects b l" using b by (auto simp: protects_def lock_key_def)
  then have "\<not> retirable en rq d l"
    using assms(1,2) protected_not_retirable by (auto simp: hotel_ok_def)
  moreover have "lk_tenant l = b_tenant b" using l(2) by (simp add: lock_key_def)
  ultimately show "locked_for d' b room night"
    using assms(3)[OF l(1)] l by (auto simp: locked_for_def)
qed

lemma claim_loop_keeps:
  assumes "locks_ok d" "stay_docs t r i doc" "claim_loop en mine doc c ns [] d = (d', cl', res)" "distinct ns"
    and "l \<in> set (locks d)"
  shows "l \<in> set (locks d') \<or> retirable en i d l"
  using claim_loop_locks[OF assms(1-4)] assms(5) by auto

section \<open>All or nothing\<close>

lemma create_failure:
  assumes "locks_ok d" "create_booking_atomic en tenant doc suppress d = (d', Inl e)"
  shows "locks_ok d' \<and> bookings d' = bookings d \<and> set (locks d') \<subseteq> set (locks d) \<and>
    (\<forall>l \<in> set (locks d). l \<in> set (locks d') \<or> retirable en (b_id doc) d l)"
  using assms(2)
proof (cases rule: create_outcomes)
  case (stored b)
  then show ?thesis using assms(1) by (auto simp: insert_booking_def split: option.splits)
next
  case (claims b ci co nights c)
  have i: "b_id b = b_id doc" using prepare_keeps[OF claims(1)] by simp
  have dn: "distinct nights" using claims(3) by (auto simp: night_dates_Some)
  from claims(6) show ?thesis
  proof (cases rule: claim_and_insert_cases)
    case (taken d1 claimed n ex e1)
    from taken(2) show ?thesis
    proof (rule reject_frame)
      fix d2 assume r: "bookings d' = bookings d1" "locks d2 = locks d1"
        "locks d' = locks (release_claimed (b_tenant b) (get_default [] (b_room b)) (b_id b) claimed d2)"
      then show ?thesis
        using claim_loop_frame[OF taken(1)] rollback_locks[OF assms(1) booking_lock_docs dn taken(1), of d2] i
          release_claimed_ok[of d2] claim_loop_ok[OF assms(1) taken(1)]
        by (simp add: locks_ok_def)
    qed
  next
    case (failed d1 e d2)
    then show ?thesis
      using claim_loop_frame[OF failed(1)] rollback_locks[OF assms(1) booking_lock_docs dn failed(1), of d2] i
        release_claimed_ok[of d2] claim_loop_ok[OF assms(1) failed(1)]
      by (simp add: locks_ok_def)
  qed simp
qed (use assms(1) in \<open>auto simp: locks_ok_def\<close>)


text \<open>
  C2.  A booking is created completely or not at all (INV-2): when \<open>create_booking_atomic\<close>
  raises, whatever the reason (tenant guards, encryption, malformed dates, a conflict on some
  later night, a failed insert), no booking was written, no lock was left behind, and the
  only locks that are gone were stale.
\<close>

theorem create_all_or_nothing:
  assumes "locks_ok d" "create_booking_atomic en tenant doc suppress d = (d', Inl e)"
  shows "bookings d' = bookings d \<and> set (locks d') \<subseteq> set (locks d) \<and>
    (\<forall>l \<in> set (locks d). l \<in> set (locks d') \<or> retirable en (b_id doc) d l)"
  using create_failure[OF assms] by blast

text \<open>What a successful creation leaves: the document, and a lock on each of its nights.\<close>

lemma create_success:
  assumes "locks_ok d" "create_booking_atomic en tenant doc suppress d = (d', Inr b)"
  shows "prepare_booking en tenant doc suppress d = Inr b \<and> bookings d' = bookings d @ [b] \<and>
    locks_ok d' \<and> holds_its_nights d' b \<and>
    (\<forall>l \<in> set (locks d). l \<in> set (locks d') \<or> retirable en (b_id doc) d l)"
  using assms(2)
proof (cases rule: create_outcomes)
  case (stored b1)
  then show ?thesis using assms(1)
    by (auto simp: insert_booking_def holds_its_nights_def needs_no_locks_def locks_ok_def split: option.splits)
next
  case (claims b1 ci co nights c)
  let ?room = "get_default [] (b_room b1)"
  have i: "b_id b1 = b_id doc" using prepare_keeps[OF claims(1)] by simp
  have dn: "distinct nights" using claims(3) by (auto simp: night_dates_Some)
  from claims(6) show ?thesis
  proof (cases rule: claim_and_insert_cases)
    case (inserted d1)
    have b: "b1 = b" using inserted(2) by simp
    note run = claim_loop_locks[OF assms(1) booking_lock_docs inserted(1) dn]
    have ls: "booking_lock en (b_tenant b) ?room (b_id b) n \<in> set (locks d')" if "n \<in> set nights" for n
      using run that inserted(3) b by auto
    have "locked_for d' b r n" if "b_room b = Some r" "n \<in> nights_of b" for r n
      unfolding locked_for_def using that claims(2,3) b
      by (intro bexI[OF _ ls[of n]]) (simp_all add: nights_of_def booking_lock_def lock_key_def)
    then have "holds_its_nights d' b" by (simp add: holds_its_nights_def)
    moreover have "locks_ok d'"
      using claim_loop_ok[OF assms(1) inserted(1)] inserted(3) by (simp add: locks_ok_def)
    ultimately show ?thesis
      using claims(1) inserted(3,4) b i claim_loop_frame[OF inserted(1)] run by auto
  qed simp_all
qed auto

text \<open>
  Creating a booking keeps the invariant of the tables: one owner per room night, and
  every live booking, the new one included, holds all nights of its stay, whatever the
  outcome of the call and whatever stale locks it met.
\<close>

theorem create_keeps_hotel_ok:
  assumes "hotel_ok d" "create_booking_atomic en tenant doc suppress d = (d', r)"
    and "\<forall>b \<in> set (bookings d). booking_key b \<noteq> (tenant, b_id doc)"
  shows "hotel_ok d'"
proof (cases r)
  case (Inl e)
  from assms(1) have ok: "locks_ok d" by (simp add: hotel_ok_def)
  note c = create_failure[OF ok assms(2)[unfolded Inl]]
  then show ?thesis
    using assms(1) keeps_nights[OF assms(1), of _ d' en "b_id doc"] by (auto simp: hotel_ok_def)
next
  case (Inr b)
  from assms(1) have ok: "locks_ok d" by (simp add: hotel_ok_def)
  note c = create_success[OF ok assms(2)[unfolded Inr]]
  from c have "booking_key b = (tenant, b_id doc)"
    using prepare_keeps[of en tenant doc suppress d b] by (simp add: booking_key_def)
  with assms(1,3) c have "distinct (map booking_key (bookings d'))" by (auto simp: hotel_ok_def)
  with c show ?thesis
    using keeps_nights[OF assms(1), of _ d' en "b_id doc"] by (auto simp: hotel_ok_def)
qed

text \<open>Room 101 with a stay on night 7, an abandoned lock on night 8 and a hold on night 9.\<close>

definition busy_db :: db where
  "busy_db = small_db\<lparr>locks := locks small_db @ [(night_lock ''h1'' 9)\<lparr>lk_type := Some ''hold''\<rparr>]\<rparr>"

lemma busy_hotel_ok: "hotel_ok busy_db"
  by (auto simp: busy_db_def hotel_ok_def small_hotel locks_ok_def lock_key_def booking_key_def
      holds_its_nights_def nights_of_def stay_of_def locked_for_def)

lemma busy_locks_ok: "locks_ok busy_db"
  using busy_hotel_ok by (simp add: hotel_ok_def)


theorem create_all_or_nothing_witness:
  "\<exists>d'. create_booking_atomic quiet_env ''t1'' (stay_booking ''bk2'' 8 10) False busy_db
          = (d', Inl (Conflict (Some ''h1'') ''booking'' [9]))
     \<and> bookings d' = bookings busy_db \<and> set (locks d') \<subseteq> set (locks busy_db)"
proof -
  have "snd (create_booking_atomic quiet_env ''t1'' (stay_booking ''bk2'' 8 10) False busy_db)
    = Inl (Conflict (Some ''h1'') ''booking'' [9])" by code_simp
  then obtain d' where c: "create_booking_atomic quiet_env ''t1'' (stay_booking ''bk2'' 8 10) False busy_db
    = (d', Inl (Conflict (Some ''h1'') ''booking'' [9]))" by (metis prod.collapse)
  from create_all_or_nothing[OF busy_locks_ok c] c show ?thesis by blast
qed

theorem create_keeps_hotel_ok_witness:
  "\<exists>d' b. create_booking_atomic quiet_env ''t1'' (stay_booking ''bk2'' 8 9) False busy_db = (d', Inr b)
     \<and> hotel_ok d' \<and> b \<in> set (bookings d')"
proof -
  have "case snd (create_booking_atomic quiet_env ''t1'' (stay_booking ''bk2'' 8 9) False busy_db)
    of Inl e \<Rightarrow> False | Inr b \<Rightarrow> True" by code_simp
  then obtain d' b where c: "create_booking_atomic quiet_env ''t1'' (stay_booking ''bk2'' 8 9) False busy_db
    = (d', Inr b)" by (metis old.sum.simps(5) prod.collapse sum.exhaust)
  have "\<forall>b \<in> set (bookings busy_db). booking_key b \<noteq> (''t1'', b_id (stay_booking ''bk2'' 8 9))"
    by (simp add: busy_db_def small_hotel booking_key_def)
  from create_keeps_hotel_ok[OF busy_hotel_ok c this] create_success[OF busy_locks_ok c] c
  show ?thesis by auto
qed

section \<open>Free nights can be sold\<close>

text \<open>
  C28.  A booking whose nights carry no lock and whose stay the overlap query lets through is
  accepted, and stored as prepared: the guard refuses nothing that is free.
\<close>

theorem create_accepts_free_nights:
  assumes "locks_ok d" "prepare_booking en tenant doc suppress d = Inr b"
    and "stay_of b = (Some ci, Some co)" "night_dates ci co = Some nights"
    and "b_room b = Some room" "room \<noteq> []"
    and "\<forall>n \<in> set nights. \<forall>l \<in> set (locks d). lock_key l \<noteq> (tenant, room, n)"
    and "find_overlapping_active_booking tenant room ci co (b_id b) d = None"
    and "booking_insert_error en b = None"
  shows "\<exists>d'. create_booking_atomic en tenant doc suppress d = (d', Inr b)
    \<and> bookings d' = bookings d @ [b]"
proof -
  have t: "b_tenant b = tenant" using prepare_keeps[OF assms(2)] by simp
  have dn: "distinct nights" using assms(4) by (auto simp: night_dates_Some)
  let ?c = "Some (str_or (b_corr b) (b_id b))"
  have "\<exists>d1. claim_loop en (\<lambda>_. False) (booking_lock en tenant room (b_id b)) ?c nights [] d
          = (d1, [] @ nights, None)"
    using assms(7) by (intro claim_loop_free[OF assms(1) booking_lock_docs dn]) auto
  then obtain d1 where run:
    "claim_loop en (\<lambda>_. False) (booking_lock en tenant room (b_id b)) ?c nights [] d = (d1, nights, None)"
    by auto
  then have "claim_and_insert en b room ci co ?c nights d =
      (let d2 = fst (claim_and_insert en b room ci co ?c nights d) in (d2, Inr b))"
    and "bookings (fst (claim_and_insert en b room ci co ?c nights d)) = bookings d @ [b]"
    using assms(9) t claim_loop_frame[OF run]
    by (simp_all add: claim_and_insert_def insert_booking_def Let_def)
  then obtain d2 where "claim_and_insert en b room ci co ?c nights d = (d2, Inr b)" "bookings d2 = bookings d @ [b]"
    by (metis fst_conv)
  then show ?thesis
    using assms(2-6,8,9) by (simp add: create_booking_atomic_def insert_booking_def Let_def)
qed

theorem create_accepts_free_nights_witness:
  "\<exists>d' b. create_booking_atomic quiet_env ''t1'' (stay_booking ''bk2'' 12 14) False busy_db = (d', Inr b)
     \<and> bookings d' = bookings busy_db @ [b]"
proof -
  obtain b where b: "prepare_booking quiet_env ''t1'' (stay_booking ''bk2'' 12 14) False busy_db = Inr b"
    by (simp add: prepare_booking_def quiet_env_def stay_booking_def Let_def)
  note p = prepare_keeps[OF b]
  have "stay_of b = (Some (Iso 12 14), Some (Iso 14 11))" "b_room b = Some ''101''" "b_id b = ''bk2''"
    using p by (simp_all add: stay_of_def stay_booking_def)
  moreover have "night_dates (Iso 12 14) (Iso 14 11) = Some [12, 13]" by code_simp
  moreover have "\<forall>n \<in> set [12, 13]. \<forall>l \<in> set (locks busy_db). lock_key l \<noteq> (''t1'', ''101'', n)"
    by (simp add: busy_db_def small_hotel lock_key_def)
  moreover have "find_overlapping_active_booking ''t1'' ''101'' (Iso 12 14) (Iso 14 11) ''bk2'' busy_db = None"
    by code_simp
  moreover have "booking_insert_error quiet_env b = None" by (simp add: quiet_env_def)
  ultimately show ?thesis
    using create_accepts_free_nights[OF busy_locks_ok b, of "Iso 12 14" "Iso 14 11" "[12, 13]" "''101''"]
    by auto
qed

section \<open>What the audit trail says\<close>

lemma booking_event_keeps: "e \<in> set (timeline d) \<Longrightarrow> e \<in> set (timeline (booking_event en t sg st i c m d))"
  by (simp add: booking_event_def timeline_append_keeps)

lemma booking_event_written:
  assumes "\<And>e. timeline_up en e"
  shows "\<exists>e \<in> set (timeline (booking_event en t sg st i c m d)).
           ev_tenant e = t \<and> ev_entity e = i \<and> ev_stage e = sg \<and> ev_status e = st \<and> ev_meta e = m"
  using assms by (simp add: booking_event_def timeline_append_def Let_def)

lemma retire_no_timeline_loss:
  "retire_stale_booking_lock en t r n ex rq c d = (d', ok) \<Longrightarrow> set (timeline d) \<subseteq> set (timeline d')"
  by (auto simp: retire_stale_booking_lock_def Let_def booking_event_def intro: timeline_append_keeps
      split: option.splits if_splits)

lemma reject_audited:
  assumes "\<And>e. timeline_up en e" "(d', e) = reject_creation en b room c nights claimed n ex d"
  shows "\<exists>ev \<in> set (timeline d'). ev_tenant ev = b_tenant b \<and> ev_entity ev = b_id b
    \<and> ev_stage ev = ''lock_conflict'' \<and> ev_status ev = ''rejected''
    \<and> map_of (ev_meta ev) ''conflict_night'' = Some (JDay n)
    \<and> map_of (ev_meta ev) ''claimed_before_conflict'' = Some (JDays claimed)"
proof -
  let ?m = "[(''conflict_night'', JDay n), (''conflict_type'', JStr (conflict_type_of (owner_of ex))),
        (''conflicting_booking_id'', jopt (owner_of ex)), (''conflicting_lock_type'', JStr (lock_type_of ex)),
        (''requested_nights'', JDays nights), (''claimed_before_conflict'', JDays claimed)]"
  let ?d1 = "booking_event en (b_tenant b) ''lock_conflict'' ''rejected'' (b_id b) c ?m d"
  have "set (timeline ?d1) \<subseteq> set (timeline d')"
    using assms(2) by (auto simp: reject_creation_def Let_def intro: booking_event_keeps)
  with booking_event_written[OF assms(1), of "b_tenant b" "''lock_conflict''" "''rejected''" "b_id b" c ?m d]
  show ?thesis by fastforce
qed

text \<open>
  Conflicts and the audit trail (INV-6): a creation refused on a night taken in the lock
  table leaves a \<open>lock_conflict\<close> event naming the booking, the night and the nights given
  back, as long as the timeline accepts inserts; a creation refused by the overlap query
  leaves the timeline as it was, and is only signalled by the notification.
\<close>

theorem conflicts_are_audited:
  assumes "\<And>e. timeline_up en e" "\<And>n. notify_up en n"
    and "create_booking_atomic en tenant doc suppress d = (d', Inl (Conflict other ctype ns))"
  shows "case ns of
      [] \<Rightarrow> timeline d' = timeline d \<and>
        (\<exists>note \<in> set (notifications d'). n_type note = ''overbooking_risk'' \<and> n_tenant note = tenant)
    | n # _ \<Rightarrow> \<exists>ev \<in> set (timeline d'). ev_tenant ev = tenant \<and> ev_entity ev = b_id doc
        \<and> ev_stage ev = ''lock_conflict'' \<and> ev_status ev = ''rejected''
        \<and> map_of (ev_meta ev) ''conflict_night'' = Some (JDay n)"
  using assms(3)
proof (cases rule: create_outcomes)
  case (overlaps b ct n c o1)
  then show ?thesis
    using assms(2) by (auto simp: emit_overbooking_alert_def Let_def)
next
  case (claims b ci co nights c)
  from claims(6) show ?thesis
  proof (cases rule: claim_and_insert_cases)
    case (taken d1 claimed n ex e1)
    have "e1 = Conflict (owner_of ex) (conflict_type_of (owner_of ex)) [n]"
      by (rule reject_frame[OF taken(2)]) simp
    with taken(3) have "ns = [n]" by simp
    with reject_audited[OF assms(1) taken(2)] prepare_keeps[OF claims(1)] show ?thesis by fastforce
  qed simp_all
next
  case (refused e)
  with assms(3) show ?thesis by auto
next
  case (stored b)
  then show ?thesis by (auto simp: insert_booking_def split: option.splits)
qed

theorem conflicts_are_audited_witness:
  "\<exists>d' other. create_booking_atomic quiet_env ''t1'' (stay_booking ''bk2'' 8 10) False busy_db
          = (d', Inl (Conflict other ''booking'' [9]))
     \<and> (\<exists>ev \<in> set (timeline d'). ev_stage ev = ''lock_conflict'')"
proof -
  have "snd (create_booking_atomic quiet_env ''t1'' (stay_booking ''bk2'' 8 10) False busy_db)
    = Inl (Conflict (Some ''h1'') ''booking'' [9])" by code_simp
  then obtain d' where c: "create_booking_atomic quiet_env ''t1'' (stay_booking ''bk2'' 8 10) False busy_db
    = (d', Inl (Conflict (Some ''h1'') ''booking'' [9]))" by (metis prod.collapse)
  from conflicts_are_audited[OF _ _ c] c show ?thesis by (fastforce simp: quiet_env_def)
qed

section \<open>The overlap query\<close>

lemma overlap_none_disjoint:
  assumes "find_overlapping_active_booking tenant room ci co me d = None"
    and "night_dates ci co = Some nights"
    and "length (find_many (overlap_filter tenant room (hd nights) co me) (bookings d)) \<le> 100"
    and "b \<in> set (bookings d)" "b_tenant b = tenant" "b_room b = Some room" "b_id b \<noteq> me"
    and "get_default '''' (b_status b) \<notin> set terminal_booking_statuses"
    and "b_check_in b = Some x" "b_check_out b = Some y"
  shows "set nights \<inter> nights_of b = {}"
proof (rule ccontr)
  assume "set nights \<inter> nights_of b \<noteq> {}"
  then obtain n where n: "n \<in> set nights" "n \<in> nights_of b" by blast
  from assms(2) obtain a z where az: "iso_date ci = Some a" "iso_date co = Some z" "nights = nights_from a z"
    by (auto simp: night_dates_Some)
  from n(1) az(3) have "a < z" by auto
  then have hd: "hd nights = a" using az(3) by (simp add: nights_from.simps[of a z])
  from n(2) assms(9,10) obtain p q where pq: "iso_date x = Some p" "iso_date y = Some q" "p \<le> n" "n < q"
    by (auto simp: nights_of_def stay_of_def night_dates_def split: option.splits)
  have "overlap_filter tenant room a co me b"
    using assms(5-10) n(1) az pq
    by (auto simp: overlap_filter_def intro: iso_less_dates iso_date_date_only)
  then have "b \<in> set (to_list 100 (find_many (overlap_filter tenant room a co me) (bookings d)))"
    using assms(3,4) hd by (simp add: to_list_def store_simps)
  moreover have "candidate_overlaps a z b"
    using assms(9,10) n(1) az pq by (auto simp: candidate_overlaps_def)
  ultimately show False
    using assms(1) az by (auto simp: find_overlapping_active_booking_def store_simps)
qed

text \<open>
  The overlap query misses nothing: when it answers that a room is free for a stay, and
  fewer than 100 bookings pass its Mongo filter, no other booking of the room that is
  neither cancelled, no-show nor checked out shares a night with the stay; the string
  comparisons of the filter, on mixed date and timestamp formats, drop no real overlap.
\<close>

theorem overlap_query_complete:
  assumes "find_overlapping_active_booking tenant room ci co me d = None"
    and "night_dates ci co = Some nights"
    and "length (find_many (overlap_filter tenant room (hd nights) co me) (bookings d)) \<le> 100"
    and "b \<in> set (bookings d)" "b_tenant b = tenant" "b_room b = Some room" "b_id b \<noteq> me"
    and "get_default '''' (b_status b) \<notin> set terminal_booking_statuses"
    and "b_check_in b = Some x" "b_check_out b = Some y"
  shows "set nights \<inter> nights_of b = {}"
  using assms by (rule overlap_none_disjoint)

theorem overlap_query_complete_witness:
  "find_overlapping_active_booking ''t1'' ''101'' (Iso 8 (-1)) (Iso 9 (-1)) ''bk2'' busy_db = None
   \<and> set [8::int] \<inter> nights_of (stay_booking ''bk1'' 7 8) = {}"
proof -
  have f: "find_overlapping_active_booking ''t1'' ''101'' (Iso 8 (-1)) (Iso 9 (-1)) ''bk2'' busy_db = None"
    by code_simp
  have n: "night_dates (Iso 8 (-1)) (Iso 9 (-1)) = Some [8]" by code_simp
  have l: "length (find_many (overlap_filter ''t1'' ''101'' (hd [8]) (Iso 9 (-1)) ''bk2'') (bookings busy_db)) \<le> 100"
    by code_simp
  have m: "stay_booking ''bk1'' 7 8 \<in> set (bookings busy_db)" by (simp add: busy_db_def small_db_def)
  show ?thesis
    using f overlap_query_complete[OF f n l m, of "Iso 7 14" "Iso 8 11"]
    by (simp add: stay_booking_def terminal_booking_statuses_def)
qed

section \<open>Assigning a room\<close>

lemma retirable_other: "retirable en i d l \<Longrightarrow> lk_booking l \<noteq> i"
  by (auto simp: retirable_def stale_reason_def Let_def split: if_splits)

lemma assign_outcomes:
  assumes "assign_room_atomic en t i room ci co c rel d = (d', r)"
  obtains (refused) e where "d' = d" "r = Inl e"
  | (taken) x y nights d1 claimed n ex e where "ci = Some x" "co = Some y" "night_dates x y = Some nights"
      "claim_loop en (\<lambda>ex. owner_of ex = Some i) (booking_lock en t room i) (Some (str_or c i)) nights [] d
         = (d1, claimed, Some (n, ex))"
      "locks d' = locks (release_claimed t room i claimed d1)" "bookings d' = bookings d1" "r = Inl e"
  | (assigned) x y nights d1 claimed where "ci = Some x" "co = Some y" "room \<noteq> []" "night_dates x y = Some nights"
      "claim_loop en (\<lambda>ex. owner_of ex = Some i) (booking_lock en t room i) (Some (str_or c i)) nights [] d
         = (d1, claimed, None)"
      "locks d' = (if rel then delete_many (\<lambda>l. lk_tenant l = t \<and> lk_booking l = i
                        \<and> (lk_room l \<noteq> room \<or> lk_night l \<notin> set nights)) (locks d1) else locks d1)"
      "bookings d' = bookings d1" "r = Inr nights"
proof (cases "ci = None \<or> co = None \<or> room = []")
  case True
  with assms show ?thesis
    by (intro refused[of ValueErr]) (auto simp: assign_room_atomic_def split: option.splits)
next
  case False
  then obtain x y where xy: "ci = Some x" "co = Some y" "room \<noteq> []" by auto
  show ?thesis
  proof (cases "find_overlapping_active_booking t room x y i d")
    case (Some o1)
    with assms xy show ?thesis by (intro refused) (auto simp: assign_room_atomic_def)
  next
    case no: None
    show ?thesis
    proof (cases "night_dates x y")
      case None
      with no assms xy show ?thesis by (intro refused[of ValueErr]) (auto simp: assign_room_atomic_def)
    next
      case (Some nights)
      obtain d1 claimed res where run:
        "claim_loop en (\<lambda>ex. owner_of ex = Some i) (booking_lock en t room i) (Some (str_or c i)) nights [] d
           = (d1, claimed, res)" by (metis prod_cases3)
      show ?thesis
      proof (cases res)
        case None
        have eq: "(\<lambda>l. lk_tenant l = t \<and> lk_booking l = i \<and> (lk_room l \<noteq> room \<or> lk_room l = room \<and> lk_night l \<notin> set nights))
          = (\<lambda>l. lk_tenant l = t \<and> lk_booking l = i \<and> (lk_room l \<noteq> room \<or> lk_night l \<notin> set nights))" by auto
        from None run Some no xy assms show ?thesis
          by (intro assigned[of x y nights d1 claimed]) (auto simp: assign_room_atomic_def Let_def eq split: if_splits)
      next
        case (Some q)
        obtain n ex where "q = (n, ex)" by (cases q)
        with Some run \<open>night_dates x y = Some nights\<close> no xy assms show ?thesis
          by (intro taken[of x y nights d1 claimed n ex]) (auto simp: assign_room_atomic_def Let_def)
      qed
    qed
  qed
qed

text \<open>After the call, the front desk writes the room and the dates to the booking.\<close>

definition write_assignment :: "string \<Rightarrow> string \<Rightarrow> string \<Rightarrow> iso \<Rightarrow> iso \<Rightarrow> db \<Rightarrow> db" where
  "write_assignment t i room ci co d =
     d\<lparr>bookings := update_one (\<lambda>b. booking_key b = (t, i))
         (\<lambda>b. b\<lparr>b_room := Some room, b_check_in := Some ci, b_check_out := Some co\<rparr>) (bookings d)\<rparr>"

lemma assign_owns:
  assumes "locks_ok d" "assign_room_atomic en t i room (Some ci) (Some co) c rel d = (d', Inr nights)"
  shows "locks_ok d' \<and> bookings d' = bookings d \<and> night_dates ci co = Some nights \<and> room \<noteq> [] \<and>
    (\<forall>n \<in> set nights. \<exists>l \<in> set (locks d'). lock_key l = (t, room, n) \<and> lk_booking l = i) \<and>
    (\<forall>l \<in> set (locks d). (lk_tenant l, lk_booking l) \<noteq> (t, i) \<longrightarrow> l \<in> set (locks d') \<or> retirable en i d l) \<and>
    (rel \<longrightarrow> (\<forall>l \<in> set (locks d'). (lk_tenant l, lk_booking l) = (t, i) \<longrightarrow> lock_key l \<in> (\<lambda>n. (t, room, n)) ` set nights))"
  using assms(2)
proof (cases rule: assign_outcomes)
  case (assigned x y nights' d1 claimed)
  then have eq: "x = ci" "y = co" "nights' = nights" by auto
  have dn: "distinct nights" using assigned(4) eq by (auto simp: night_dates_Some)
  note run = assigned(5)[unfolded eq]
  obtain ls: "set (locks d1) = booking_lock en t room i ` set claimed
        \<union> {l \<in> set (locks d). lock_key l \<notin> (\<lambda>n. (t, room, n)) ` set claimed}"
    and st: "\<forall>l \<in> set (locks d). lock_key l \<in> (\<lambda>n. (t, room, n)) ` set claimed \<longrightarrow> retirable en i d l"
    using claim_loop_locks[OF assms(1) booking_lock_docs run dn] by auto
  have key: "lock_key (booking_lock en t room i n) = (t, room, n)" "lk_booking (booking_lock en t room i n) = i" for n
    by (simp_all add: booking_lock_def lock_key_def)
  have own: "\<exists>l \<in> set (locks d1). lock_key l = (t, room, n) \<and> lk_booking l = i" if n: "n \<in> set nights" for n
  proof (cases "n \<in> set claimed")
    case True
    then show ?thesis using ls key by (intro bexI[of _ "booking_lock en t room i n"]) auto
  next
    case False
    with claim_loop_done[OF assms(1) booking_lock_docs dn run n]
    show ?thesis using ls by (auto simp: owner_of_def)
  qed
  then have "\<exists>l \<in> set (locks d'). lock_key l = (t, room, n) \<and> lk_booking l = i" if "n \<in> set nights" for n
    using that assigned(6) eq by (fastforce simp: store_simps lock_key_def)
  moreover have "locks_ok d'"
    using claim_loop_ok[OF assms(1) run] assigned(6) by (auto simp: locks_ok_def distinct_delete_many)
  ultimately show ?thesis
    using assigned eq claim_loop_frame[OF run] ls st by (auto simp: store_simps lock_key_def image_iff)
qed auto


lemma assign_failure:
  assumes "locks_ok d" "assign_room_atomic en t i room ci co c rel d = (d', Inl e)"
  shows "locks_ok d' \<and> bookings d' = bookings d \<and> set (locks d') \<subseteq> set (locks d) \<and>
    (\<forall>l \<in> set (locks d). l \<in> set (locks d') \<or> retirable en i d l)"
  using assms(2)
proof (cases rule: assign_outcomes)
  case (taken x y nights d1 claimed n ex e1)
  have dn: "distinct nights" using taken(3) by (auto simp: night_dates_Some)
  from taken rollback_locks[OF assms(1) booking_lock_docs dn taken(4) refl] claim_loop_frame[OF taken(4)]
    release_claimed_ok[of d1] claim_loop_ok[OF assms(1) taken(4)]
  show ?thesis by (simp add: locks_ok_def)
qed (use assms(1) in auto)

text \<open>
  Moving a booking is safe: if \<open>assign_room_atomic\<close> refuses, the tables are as before (up
  to stale locks) and the booking keeps the nights it had; if it accepts, then once the
  caller has written the room and dates to the booking every live booking holds all its
  nights and no two share one, whether or not the old locks were released.
\<close>

theorem assign_keeps_hotel_ok:
  assumes "hotel_ok d" "assign_room_atomic en t i room ci co c rel d = (d', r)"
  shows "case r of
      Inl e \<Rightarrow> hotel_ok d' \<and> bookings d' = bookings d \<and> set (locks d') \<subseteq> set (locks d)
    | Inr nights \<Rightarrow> (\<exists>x y. ci = Some x \<and> co = Some y \<and> hotel_ok (write_assignment t i room x y d'))"
proof (cases r)
  case (Inl e)
  from assms(1) have ok: "locks_ok d" by (simp add: hotel_ok_def)
  from assign_failure[OF ok assms(2)[unfolded Inl]] assms(1) Inl
    keeps_nights[OF assms(1), of _ d' en i]
  show ?thesis by (auto simp: hotel_ok_def)
next
  case (Inr nights)
  from assms(1) have ok: "locks_ok d" by (simp add: hotel_ok_def)
  obtain x y where xy: "ci = Some x" "co = Some y"
    using assms(2) Inr by (auto simp: assign_room_atomic_def split: option.splits)
  let ?f = "\<lambda>b. b\<lparr>b_room := Some room, b_check_in := Some x, b_check_out := Some y\<rparr>"
  let ?d = "write_assignment t i room x y d'"
  have run: "locks_ok d'" "bookings d' = bookings d" "night_dates x y = Some nights"
    and own: "\<And>n. n \<in> set nights \<Longrightarrow> \<exists>l \<in> set (locks d'). lock_key l = (t, room, n) \<and> lk_booking l = i"
    and keep: "\<And>l. l \<in> set (locks d) \<Longrightarrow> (lk_tenant l, lk_booking l) \<noteq> (t, i)
        \<Longrightarrow> l \<in> set (locks d') \<or> retirable en i d l"
    using assign_owns[OF ok assms(2)[unfolded Inr xy]] by auto
  have keys: "map booking_key (bookings ?d) = map booking_key (bookings d)"
    unfolding write_assignment_def using run(2) by (simp add: map_update_one booking_key_def)
  have "holds_its_nights ?d b" if b: "b \<in> set (bookings ?d)" for b
  proof -
    have dist: "distinct (map booking_key (bookings d))" using assms(1) by (simp add: hotel_ok_def)
    have "bookings ?d = update_many (\<lambda>b. booking_key b = (t, i)) ?f (bookings d)"
      unfolding write_assignment_def run(2) using dist by (simp add: update_one_is_many)
    with b consider b0 where "b0 \<in> set (bookings d)" "booking_key b0 = (t, i)" "b = ?f b0"
      | "b \<in> set (bookings d)" "booking_key b \<noteq> (t, i)"
      by (auto simp: update_many_def)
    then show ?thesis
    proof cases
      case 1
      then show ?thesis using own run(3)
        by (auto simp: holds_its_nights_def locked_for_def write_assignment_def booking_key_def
            nights_of_def stay_of_def)
    next
      case 2
      have "holds_its_nights d' b"
        using keep 2(2) by (intro keeps_nights[OF assms(1) 2(1), of _ en i]) (auto simp: booking_key_def)
      then show ?thesis by (simp add: holds_its_nights_def locked_for_def write_assignment_def)
    qed
  qed
  then show ?thesis
    using run keys assms(1) xy Inr by (simp add: hotel_ok_def locks_ok_def write_assignment_def)
qed

theorem assign_keeps_hotel_ok_witness:
  "\<exists>d'. assign_room_atomic quiet_env ''t1'' ''bk1'' ''102'' (Some (Iso 7 14)) (Some (Iso 9 11)) None True busy_db
          = (d', Inr [7, 8])
     \<and> hotel_ok (write_assignment ''t1'' ''bk1'' ''102'' (Iso 7 14) (Iso 9 11) d')"
proof -
  let ?run = "assign_room_atomic quiet_env ''t1'' ''bk1'' ''102'' (Some (Iso 7 14)) (Some (Iso 9 11)) None True busy_db"
  have "snd ?run = Inr [7, 8]" by code_simp
  then obtain d' where "?run = (d', Inr [7, 8])" by (metis prod.collapse)
  with assign_keeps_hotel_ok[OF busy_hotel_ok this] show ?thesis by simp
qed

section \<open>Cancelling gives the nights back\<close>

definition write_status :: "string \<Rightarrow> string \<Rightarrow> string \<Rightarrow> db \<Rightarrow> db" where
  "write_status t i status d =
     d\<lparr>bookings := update_one (\<lambda>b. booking_key b = (t, i)) (\<lambda>b. b\<lparr>b_status := Some status\<rparr>) (bookings d)\<rparr>"

lemma release_result:
  "locks (fst (release_booking_nights en t i reason c d))
     = delete_many (\<lambda>l. lk_tenant l = t \<and> lk_booking l = i) (locks d)"
  "bookings (fst (release_booking_nights en t i reason c d)) = bookings d"
  by (simp_all add: release_booking_nights_def Let_def)

lemma release_after_terminal:
  assumes "hotel_ok d" and f: "\<And>b. booking_key (f b) = booking_key b" "\<And>b. \<not> live (f b)"
    and d1: "locks d1 = locks d" "bookings d1 = update_one (\<lambda>b. booking_key b = (t, i)) f (bookings d)"
    and "release_booking_nights en t i reason c d1 = (d', n)"
  shows "hotel_ok d' \<and> set (locks d') = {l \<in> set (locks d). (lk_tenant l, lk_booking l) \<noteq> (t, i)} \<and>
    bookings d' = bookings d1 \<and>
    n = count_documents (\<lambda>l. lk_tenant l = t \<and> lk_booking l = i) (locks d)"
proof -
  have d': "locks d' = delete_many (\<lambda>l. lk_tenant l = t \<and> lk_booking l = i) (locks d)"
    "bookings d' = bookings d1"
    using assms(6) release_result[of en t i reason c d1] d1 by auto
  have n: "n = count_documents (\<lambda>l. lk_tenant l = t \<and> lk_booking l = i) (locks d)"
    using assms(6) d1 by (auto simp: release_booking_nights_def Let_def)
  have dist: "distinct (map booking_key (bookings d))" and ok: "locks_ok d"
    using assms(1) by (simp_all add: hotel_ok_def)
  have keys: "map booking_key (bookings d') = map booking_key (bookings d)"
    unfolding d' d1 using f(1) by (simp add: map_update_one)
  have "holds_its_nights d' b" if "b \<in> set (bookings d')" for b
  proof -
    have "bookings d' = update_many (\<lambda>b. booking_key b = (t, i)) f (bookings d)"
      unfolding d' d1 using dist by (simp add: update_one_is_many)
    with that consider "\<not> live b" | "b \<in> set (bookings d)" "booking_key b \<noteq> (t, i)"
      using f(2) by (auto simp: update_many_def)
    then show ?thesis
    proof cases
      case 2
      then show ?thesis
        using d'(1) by (intro keeps_nights[OF assms(1) 2(1), of _ undefined undefined])
          (auto simp: store_simps booking_key_def)
    qed (simp add: holds_its_nights_def)
  qed
  with keys dist ok have "hotel_ok d'"
    by (simp add: hotel_ok_def locks_ok_def d' distinct_delete_many)
  with d' n show ?thesis by (auto simp: store_simps)
qed

text \<open>
  C25.  Cancelling frees the room and nothing else: after a terminal status is written and
  \<open>release_booking_nights\<close> has run, the invariant holds, no lock of the booking is left, every
  other lock is still there, and each night it held accepts the next insert.
\<close>

theorem cancel_frees_exactly_its_nights:
  assumes "hotel_ok d" "terminal_status (Some status)"
    and "release_booking_nights en t i reason c (write_status t i status d) = (d', n)"
  shows "hotel_ok d' \<and> set (locks d') = {l \<in> set (locks d). (lk_tenant l, lk_booking l) \<noteq> (t, i)} \<and>
    n = count_documents (\<lambda>l. lk_tenant l = t \<and> lk_booking l = i) (locks d) \<and>
    (\<forall>l \<in> set (locks d). (lk_tenant l, lk_booking l) = (t, i) \<longrightarrow>
       (\<forall>doc. lock_key doc = lock_key l \<longrightarrow> insert_unique lock_key doc (locks d') \<noteq> None))"
proof -
  have r: "hotel_ok d' \<and> set (locks d') = {l \<in> set (locks d). (lk_tenant l, lk_booking l) \<noteq> (t, i)} \<and>
    bookings d' = bookings (write_status t i status d) \<and>
    n = count_documents (\<lambda>l. lk_tenant l = t \<and> lk_booking l = i) (locks d)"
    using assms(2)
    by (intro release_after_terminal[OF assms(1) _ _ _ _ assms(3), of "\<lambda>b. b\<lparr>b_status := Some status\<rparr>"])
       (auto simp: write_status_def booking_key_def live_def)
  have "insert_unique lock_key doc (locks d') \<noteq> None"
    if "l \<in> set (locks d)" "(lk_tenant l, lk_booking l) = (t, i)" "lock_key doc = lock_key l" for l doc
    using that r assms(1) by (auto simp: hotel_ok_def store_simps locks_ok_def dest: distinct_map_key_eq)
  with r show ?thesis by blast
qed

theorem cancel_frees_exactly_its_nights_witness:
  "\<exists>d' n. release_booking_nights quiet_env ''t1'' ''bk1'' ''cancelled'' None
            (write_status ''t1'' ''bk1'' ''cancelled'' busy_db) = (d', n) \<and> n = 1 \<and> hotel_ok d'
       \<and> night_lock ''bk1'' 7 \<notin> set (locks d')"
proof -
  obtain d' n where r: "release_booking_nights quiet_env ''t1'' ''bk1'' ''cancelled'' None
            (write_status ''t1'' ''bk1'' ''cancelled'' busy_db) = (d', n)" by fastforce
  have t: "terminal_status (Some ''cancelled'')" by code_simp
  have "count_documents (\<lambda>l. lk_tenant l = ''t1'' \<and> lk_booking l = ''bk1'') (locks busy_db) = 1" by code_simp
  with cancel_frees_exactly_its_nights[OF busy_hotel_ok t r] r show ?thesis
    by (auto simp: night_lock_def)
qed

end
