(* ===== verification/RoomBlocks.thy ===== *)
theory RoomBlocks
  imports AtomicBooking
begin

text \<open>
  Out-of-order, out-of-service and maintenance blocks (\<open>apply_room_block\<close>,
  \<open>release_room_block\<close>, \<open>get_room_blocks\<close> of core/atomic_booking.py).  A block is a set of
  locks in the same table, owned by the room's block id (INV-5).
\<close>

definition block_prefix :: "string \<Rightarrow> string option" where
  "block_prefix block_type =
     map_of [(''ooo'', ooo_prefix), (''oos'', oos_prefix), (''maintenance'', maintenance_prefix)] block_type"

definition block_owner :: "string \<Rightarrow> string \<Rightarrow> string" where
  "block_owner block_type room = get_default ooo_prefix (block_prefix block_type) @ room"

text \<open>\<open>f"{d}T00:00:00+00:00"\<close> parses exactly when \<open>d\<close> is a date without a time.\<close>

fun midnight :: "iso \<Rightarrow> iso" where
  "midnight (Iso d t) = (if t = -1 then Iso d 0 else BadTail d t)"
| "midnight (BadTail d t) = BadTail d t"
| "midnight (Junk d t) = Junk d t"

record block_result =
  br_success :: bool
  br_blocked :: "day list"
  br_conflicts :: "(day \<times> string \<times> string) list"
  br_id :: string

text \<open>The loop: insert a lock per night, and note who holds the nights already taken.\<close>

fun block_nights :: "(day \<Rightarrow> lock) \<Rightarrow> day list \<Rightarrow> db \<Rightarrow> db \<times> day list \<times> (day \<times> string \<times> string) list" where
  "block_nights doc [] d = (d, [], [])"
| "block_nights doc (night # rest) d =
     (case insert_unique lock_key (doc night) (locks d) of
        Some ls \<Rightarrow>
          (let (d', blocked, conflicts) = block_nights doc rest (d\<lparr>locks := ls\<rparr>)
           in (d', night # blocked, conflicts))
      | None \<Rightarrow>
          (let (held_by, lock_type) =
                 (case find_lock (lk_tenant (doc night)) (lk_room (doc night)) night (locks d) of
                    None \<Rightarrow> (''unknown'', ''unknown'')
                  | Some l \<Rightarrow> (lk_booking l, get_default ''unknown'' (lk_type l)));
               (d', blocked, conflicts) = block_nights doc rest d
           in (d', blocked, (night, held_by, lock_type) # conflicts)))"

definition apply_room_block ::
  "env \<Rightarrow> string \<Rightarrow> string \<Rightarrow> string \<Rightarrow> iso \<Rightarrow> iso \<Rightarrow> string \<Rightarrow> string \<Rightarrow> db \<Rightarrow>
   db \<times> (booking_error + block_result option)" where
  "apply_room_block en tenant room block_type start_date end_date reason actor d =
     (let owner = block_owner block_type room in
      case night_dates (midnight start_date) (midnight end_date) of
        None \<Rightarrow> (d, Inl ValueErr)
      | Some nights \<Rightarrow>
          if nights = [] then (d, Inr None)
          else
            (let doc = (\<lambda>night. \<lparr>lk_tenant = tenant, lk_room = room, lk_night = night, lk_booking = owner,
                          lk_type = Some block_type, lk_created = Stamp (now en), lk_expires = None,
                          lk_reason = reason, lk_by = actor\<rparr>);
                 (d1, blocked, conflicts) = block_nights doc nights d;
                 d2 = (if blocked = [] then d1
                       else booking_event en tenant (block_type @ ''_applied'') ''success'' owner None
                              [(''block_type'', JStr block_type), (''nights_blocked'', JDays blocked),
                               (''conflicts'', JDays (map fst conflicts)), (''reason'', JStr reason),
                               (''actor'', JStr actor)] d1)
             in (d2, Inr (Some \<lparr>br_success = (0 < length blocked), br_blocked = blocked,
                                br_conflicts = conflicts, br_id = owner\<rparr>))))"

text \<open>The released count and the nights listed (at most 365).\<close>

definition release_room_block ::
  "env \<Rightarrow> string \<Rightarrow> string \<Rightarrow> string \<Rightarrow> iso option \<Rightarrow> iso option \<Rightarrow> string \<Rightarrow> db \<Rightarrow>
   db \<times> (booking_error + nat \<times> day list)" where
  "release_room_block en tenant room block_type start_date end_date actor d =
     (let owner = block_owner block_type room;
          range = (case (start_date, end_date) of
                     (Some s, Some e) \<Rightarrow> night_dates (midnight s) (midnight e)
                   | _ \<Rightarrow> Some [])
      in case range of
           None \<Rightarrow> (d, Inl ValueErr)
         | Some nights \<Rightarrow>
             (let query = (\<lambda>l. lk_tenant l = tenant \<and> lk_room l = room \<and> lk_booking l = owner
                              \<and> (nights \<noteq> [] \<longrightarrow> lk_night l \<in> set nights));
                  released = map lk_night (to_list 365 (find_many query (locks d)));
                  deleted = count_documents query (locks d);
                  d1 = d\<lparr>locks := delete_many query (locks d)\<rparr>;
                  d2 = (if deleted > 0 then
                          booking_event en tenant (block_type @ ''_released'') ''success'' owner None
                            [(''block_type'', JStr block_type), (''released_nights'', JDays released),
                             (''actor'', JStr actor)] d1
                        else d1)
              in (d2, Inr (deleted, released))))"

definition get_room_blocks :: "string \<Rightarrow> string option \<Rightarrow> string option \<Rightarrow> db \<Rightarrow> lock list" where
  "get_room_blocks tenant room block_type d =
     (let owner_ok = (if truthy block_type then
                        (case block_prefix (get_default '''' block_type) of
                           None \<Rightarrow> (\<lambda>o'. True)
                         | Some p \<Rightarrow> (\<lambda>o'. startswith o' p))
                      else is_block_owner)
      in to_list 1000 (find_many (\<lambda>l. lk_tenant l = tenant \<and> (truthy room \<longrightarrow> Some (lk_room l) = room)
                                     \<and> owner_ok (lk_booking l)) (locks d)))"

section \<open>Blocks never displace anything\<close>

text \<open>Each reported conflict names the owner of a lock that is really on that night.\<close>

definition named_holders :: "lock list \<Rightarrow> string \<Rightarrow> string \<Rightarrow> (day \<times> string \<times> string) list \<Rightarrow> bool" where
  "named_holders ls t r conflicts \<longleftrightarrow>
     (\<forall>(n, held, ty) \<in> set conflicts. \<exists>l \<in> set ls. lock_key l = (t, r, n) \<and> lk_booking l = held)"

lemma named_holders_Cons:
  "l \<in> set ls \<Longrightarrow> lock_key l = (t, r, n) \<Longrightarrow> named_holders ls t r cs
     \<Longrightarrow> named_holders ls t r ((n, lk_booking l, ty) # cs)"
  by (auto simp: named_holders_def)

lemma block_nights_spec:
  assumes "locks_ok d" "stay_docs t r i doc" "block_nights doc ns d = (d', blocked, conflicts)"
  shows "locks_ok d' \<and> bookings d' = bookings d \<and>
    set (locks d') = set (locks d) \<union> doc ` set blocked \<and>
    set blocked \<union> fst ` set conflicts = set ns \<and>
    named_holders (locks d') t r conflicts"
  using assms
proof (induction ns arbitrary: d blocked conflicts)
  case (Cons n ns)
  have dk: "lock_key (doc k) = (t, r, k)" "lk_tenant (doc k) = t" "lk_room (doc k) = r" for k
    using Cons.prems(2) by (auto simp: stay_docs_def lock_key_def)
  show ?case
  proof (cases "insert_unique lock_key (doc n) (locks d)")
    case (Some ls)
    then have ls: "ls = locks d @ [doc n]" "\<forall>e \<in> set (locks d). lock_key e \<noteq> lock_key (doc n)"
      by (auto simp: store_simps)
    then have ok: "locks_ok (d\<lparr>locks := ls\<rparr>)" using Cons.prems(1) by (auto simp: locks_ok_def)
    obtain b1 where run: "block_nights doc ns (d\<lparr>locks := ls\<rparr>) = (d', b1, conflicts)" and b1: "blocked = n # b1"
      using Cons.prems(3) Some by (auto split: prod.splits)
    note ih = Cons.IH[OF ok Cons.prems(2) run]
    show ?thesis
    proof (intro conjI)
      show "set (locks d') = set (locks d) \<union> doc ` set blocked" using ih b1 ls(1) by simp
    qed (use ih b1 in auto)
  next
    case None
    then obtain l where "l \<in> set (locks d)" "lock_key l = (t, r, n)" using dk by (auto simp: store_simps)
    then have fl: "find_lock t r n (locks d) = Some l"
      using Cons.prems(1) find_lock_eq by (simp add: locks_ok_def)
    obtain c1 where run: "block_nights doc ns d = (d', blocked, c1)"
      and c1: "conflicts = (n, lk_booking l, get_default ''unknown'' (lk_type l)) # c1"
      using Cons.prems(3) None fl dk by (auto split: prod.splits)
    note ih = Cons.IH[OF Cons.prems(1,2) run]
    then have "l \<in> set (locks d')" "lock_key l = (t, r, n)" using find_lock_Some[OF fl] by auto
    then show ?thesis
      unfolding c1 using ih by (intro conjI named_holders_Cons) auto
  qed
qed (simp add: named_holders_def)

lemma block_owner_is_block [simp]: "is_block_owner (block_owner ty room)"
  by (auto simp: block_owner_def block_prefix_def is_block_owner_def startswith_def)

lemma create_refused:
  assumes "locks_ok d" "l \<in> set (locks d)" "\<not> is_booking_lock l" "lock_key l = (tenant, room, n)"
    and "live doc" "b_room doc = Some room" "room \<noteq> []" "n \<in> nights_of doc"
    and "create_booking_atomic en tenant doc s d = (d', Inr b)"
  shows "lk_booking l = b_id doc"
proof -
  note c = create_success[OF assms(1,9)]
  then have pr: "prepare_booking en tenant doc s d = Inr b" by simp
  note p = prepare_keeps[OF pr]
  have "\<not> retirable en (b_id doc) d l" using assms(3) retirable_booking_lock by blast
  with c assms(2) have l: "l \<in> set (locks d')" by blast
  have "locked_for d' b room n"
    using c p assms(5-8) by (auto simp: holds_its_nights_def live_def nights_of_def)
  then obtain k where "k \<in> set (locks d')" "lock_key k = lock_key l" "lk_booking k = b_id b"
    using p assms(4) by (auto simp: locked_for_def)
  with c l p show ?thesis by (auto simp: locks_ok_def dest: distinct_map_key_eq)
qed

lemma apply_block_cases:
  assumes "locks_ok d" "apply_room_block en t room ty s e reason actor d = (d', Inr (Some res))"
  shows "\<exists>doc nights. stay_docs t room (block_owner ty room) doc \<and> (\<forall>n. \<not> is_booking_lock (doc n)) \<and>
    night_dates (midnight s) (midnight e) = Some nights \<and>
    locks_ok d' \<and> bookings d' = bookings d \<and>
    set (locks d') = set (locks d) \<union> doc ` set (br_blocked res) \<and>
    set (br_blocked res) \<union> fst ` set (br_conflicts res) = set nights \<and>
    named_holders (locks d') t room (br_conflicts res)"
proof -
  let ?doc = "\<lambda>night. \<lparr>lk_tenant = t, lk_room = room, lk_night = night, lk_booking = block_owner ty room,
      lk_type = Some ty, lk_created = Stamp (now en), lk_expires = None, lk_reason = reason, lk_by = actor\<rparr>"
  obtain nights where n: "night_dates (midnight s) (midnight e) = Some nights" "nights \<noteq> []"
    using assms(2) by (auto simp: apply_room_block_def Let_def split: option.splits if_splits)
  obtain d1 blocked conflicts where run: "block_nights ?doc nights d = (d1, blocked, conflicts)"
    by (metis prod_cases3)
  have docs: "stay_docs t room (block_owner ty room) ?doc" by (simp add: stay_docs_def lock_key_def)
  have "locks d' = locks d1" "bookings d' = bookings d1" "br_blocked res = blocked" "br_conflicts res = conflicts"
    using assms(2) n run by (auto simp: apply_room_block_def Let_def)
  moreover have "\<forall>n. \<not> is_booking_lock (?doc n)" by (simp add: is_booking_lock_def)
  ultimately show ?thesis
    using block_nights_spec[OF assms(1) docs run] docs n(1)
    by (intro exI[of _ ?doc] exI[of _ nights]) (simp add: locks_ok_def)
qed

lemma apply_block_typed:
  assumes "locks_ok d" "apply_room_block en t room ty s e reason actor d = (d', Inr (Some res))"
    and "n \<in> set (br_blocked res)"
  shows "locks_ok d' \<and> (\<exists>l \<in> set (locks d'). lock_key l = (t, room, n) \<and> lk_type l = Some ty)"
proof -
  let ?doc = "\<lambda>night. \<lparr>lk_tenant = t, lk_room = room, lk_night = night, lk_booking = block_owner ty room,
      lk_type = Some ty, lk_created = Stamp (now en), lk_expires = None, lk_reason = reason, lk_by = actor\<rparr>"
  obtain nights where nn: "night_dates (midnight s) (midnight e) = Some nights" "nights \<noteq> []"
    using assms(2) by (auto simp: apply_room_block_def Let_def split: option.splits if_splits)
  obtain d1 blocked conflicts where run: "block_nights ?doc nights d = (d1, blocked, conflicts)"
    by (metis prod_cases3)
  have "stay_docs t room (block_owner ty room) ?doc" by (simp add: stay_docs_def lock_key_def)
  note sp = block_nights_spec[OF assms(1) this run]
  have "locks d' = locks d1" "br_blocked res = blocked"
    using assms(2) nn run by (auto simp: apply_room_block_def Let_def)
  with sp assms(3) have "?doc n \<in> set (locks d')" "locks_ok d'" by (auto simp: locks_ok_def)
  then show ?thesis by (auto simp: lock_key_def intro!: bexI[of _ "?doc n"])
qed

text \<open>
  Blocking a room takes nothing from anybody: every existing lock stays, the invariant of
  the booking tables is kept, each night of the range is either blocked now or reported with
  the owner that holds it.
\<close>

theorem block_displaces_nothing:
  assumes "hotel_ok d" "apply_room_block en t room ty s e reason actor d = (d', Inr (Some res))"
  shows "hotel_ok d' \<and> set (locks d) \<subseteq> set (locks d') \<and>
    Some (set (br_blocked res) \<union> fst ` set (br_conflicts res)) = map_option set (night_dates (midnight s) (midnight e)) \<and>
    named_holders (locks d') t room (br_conflicts res)"
proof -
  have ok: "locks_ok d" using assms(1) by (simp add: hotel_ok_def)
  from apply_block_cases[OF ok assms(2)] have "locks_ok d'" "bookings d' = bookings d"
    "set (locks d) \<subseteq> set (locks d')" by auto
  then have "hotel_ok d'"
    using assms(1) keeps_nights[OF assms(1), of _ d' undefined undefined] by (auto simp: hotel_ok_def)
  with apply_block_cases[OF ok assms(2)] show ?thesis by auto
qed

theorem block_displaces_nothing_witness:
  "\<exists>d' res. apply_room_block quiet_env ''t1'' ''101'' ''ooo'' (Iso 7 (-1)) (Iso 12 (-1)) '''' ''fd'' busy_db = (d', Inr (Some res))
     \<and> br_blocked res = [10, 11] \<and> hotel_ok d'"
proof -
  let ?run = "apply_room_block quiet_env ''t1'' ''101'' ''ooo'' (Iso 7 (-1)) (Iso 12 (-1)) '''' ''fd'' busy_db"
  have "case snd ?run of Inr (Some res) \<Rightarrow> br_blocked res = [10, 11] | _ \<Rightarrow> False" by code_simp
  then obtain res where "snd ?run = Inr (Some res)" "br_blocked res = [10, 11]"
    by (auto split: sum.splits option.splits)
  then obtain d' where r: "?run = (d', Inr (Some res))" by (metis prod.collapse)
  from block_displaces_nothing[OF busy_hotel_ok r] r \<open>br_blocked res = [10, 11]\<close> show ?thesis by blast
qed

text \<open>
  What is blocked cannot be sold (INV-5): no live booking of the room whose stay includes
  a blocked night is created, whatever its status and however old the block is; the creation
  raises and stores nothing.
\<close>

theorem blocked_night_not_sellable:
  assumes "locks_ok d" "apply_room_block en t room ty s e reason actor d = (d', Inr (Some res))"
    and "n \<in> set (br_blocked res)" "n \<in> nights_of doc" "live doc" "b_room doc = Some room" "room \<noteq> []"
    and "\<not> is_block_owner (b_id doc)"
  shows "\<exists>err. snd (create_booking_atomic en2 t doc quiet d') = Inl err
    \<and> bookings (fst (create_booking_atomic en2 t doc quiet d')) = bookings d'"
proof (cases "create_booking_atomic en2 t doc quiet d'")
  case (Pair d2 r)
  obtain l where l: "l \<in> set (locks d')" "\<not> is_booking_lock l" "lock_key l = (t, room, n)"
      "lk_booking l = block_owner ty room" and ok: "locks_ok d'"
  proof -
    from apply_block_cases[OF assms(1,2)] obtain doc where
      "stay_docs t room (block_owner ty room) doc" "\<forall>n. \<not> is_booking_lock (doc n)" "locks_ok d'"
      "doc n \<in> set (locks d')" using assms(3) by blast
    then show thesis using that[of "doc n"] by (simp add: stay_docs_def)
  qed
  show ?thesis
  proof (cases r)
    case (Inl err)
    with Pair create_failure[OF ok] show ?thesis by auto
  next
    case (Inr b)
    with Pair have "create_booking_atomic en2 t doc quiet d' = (d2, Inr b)" by simp
    from create_refused[OF ok l(1-3) assms(5-7,4) this] l(4) assms(8) block_owner_is_block[of ty room]
    show ?thesis by simp
  qed
qed

theorem blocked_night_not_sellable_witness:
  "\<exists>d' res err. apply_room_block quiet_env ''t1'' ''101'' ''oos'' (Iso 20 (-1)) (Iso 22 (-1)) '''' ''fd'' busy_db = (d', Inr (Some res))
     \<and> br_blocked res = [20, 21]
     \<and> snd (create_booking_atomic quiet_env ''t1'' (stay_booking ''bk3'' 21 23) False d') = Inl err"
proof -
  let ?run = "apply_room_block quiet_env ''t1'' ''101'' ''oos'' (Iso 20 (-1)) (Iso 22 (-1)) '''' ''fd'' busy_db"
  have "case snd ?run of Inr (Some res) \<Rightarrow> br_blocked res = [20, 21] | _ \<Rightarrow> False" by code_simp
  then obtain res where res: "snd ?run = Inr (Some res)" "br_blocked res = [20, 21]"
    by (auto split: sum.splits option.splits)
  then obtain d' where r: "?run = (d', Inr (Some res))" by (metis prod.collapse)
  have "21 \<in> set (br_blocked res)" "21 \<in> nights_of (stay_booking ''bk3'' 21 23)"
    "live (stay_booking ''bk3'' 21 23)" "b_room (stay_booking ''bk3'' 21 23) = Some ''101''"
    "\<not> is_block_owner (b_id (stay_booking ''bk3'' 21 23))"
    unfolding res by code_simp+
  from blocked_night_not_sellable[OF busy_locks_ok r this(1-4) _ this(5)] r res show ?thesis by simp
qed

text \<open>
  Releasing a block over an empty range (an end not after the start) releases all of it:
  the night filter is only added when the range has nights, so the call removes every lock
  of the block on the room, where the contract promises only the nights of the range.
\<close>

theorem empty_range_releases_whole_block:
  assumes "night_dates (midnight s) (midnight e) = Some []"
  shows "set (locks (fst (release_room_block en t room ty (Some s) (Some e) actor d)))
    = {l \<in> set (locks d). \<not> (lk_tenant l = t \<and> lk_room l = room \<and> lk_booking l = block_owner ty room)}"
  using assms by (auto simp: release_room_block_def Let_def store_simps)

theorem empty_range_releases_whole_block_witness:
  "locks (fst (release_room_block quiet_env ''t1'' ''101'' ''ooo'' (Some (Iso 9 (-1))) (Some (Iso 9 (-1))) ''fd''
      (empty_db\<lparr>locks := [night_lock ''OOO:101'' 7]\<rparr>))) = []"
proof -
  have "night_dates (midnight (Iso 9 (-1))) (midnight (Iso 9 (-1))) = Some []" by code_simp
  from empty_range_releases_whole_block[OF this, of quiet_env "''t1''" "''101''" "''ooo''" "''fd''"
      "empty_db\<lparr>locks := [night_lock ''OOO:101'' 7]\<rparr>"]
  have "set (locks (fst (release_room_block quiet_env ''t1'' ''101'' ''ooo'' (Some (Iso 9 (-1))) (Some (Iso 9 (-1))) ''fd''
      (empty_db\<lparr>locks := [night_lock ''OOO:101'' 7]\<rparr>)))) = {}"
    by (auto simp: night_lock_def block_owner_def block_prefix_def ooo_prefix_def)
  then show ?thesis by simp
qed

text \<open>
  Listing blocks: without a type, or with one of the three known types, only locks owned
  by a block are returned; with any other type the owner filter is dropped and ordinary
  booking locks are returned as blocks.
\<close>

theorem get_room_blocks_kinds:
  assumes "length (locks d) \<le> 1000"
  shows "set (get_room_blocks t None ty d) =
    (if truthy ty \<and> block_prefix (get_default '''' ty) = None
     then {l \<in> set (locks d). lk_tenant l = t}
     else {l \<in> set (locks d). lk_tenant l = t \<and> is_block_owner (lk_booking l) \<and>
            (truthy ty \<longrightarrow> startswith (lk_booking l) (get_default '''' (block_prefix (get_default '''' ty))))})"
proof -
  have "length (find_many p (locks d)) \<le> 1000" for p
    using assms le_trans[OF length_filter_le[of p "locks d"]] by (simp add: find_many_def)
  then have "to_list 1000 (find_many p (locks d)) = find_many p (locks d)" for p by (simp add: to_list_def)
  then show ?thesis
    by (auto simp: get_room_blocks_def Let_def store_simps is_block_owner_def block_prefix_def
        split: option.splits if_splits)
qed

theorem get_room_blocks_kinds_witness:
  "set (get_room_blocks ''t1'' None (Some ''ooo'') small_db) = {} \<and>
   night_lock ''bk1'' 7 \<in> set (get_room_blocks ''t1'' None (Some ''out_of_order'') small_db)"
proof -
  have l: "length (locks small_db) \<le> 1000" by (simp add: small_db_def)
  show ?thesis
    unfolding get_room_blocks_kinds[OF l]
    by (auto simp: small_hotel block_prefix_def is_block_owner_def startswith_def ooo_prefix_def
        oos_prefix_def maintenance_prefix_def)
qed

end
