(* ===== verification/BookingHold.thy ===== *)
theory BookingHold
  imports RoomBlocks
begin

text \<open>
  Holds with a time to live (core/booking_hold_service.py): a pending booking claims its
  nights with locks of type \<open>hold\<close> that carry an expiry; payment turns them into booking
  locks, and a sweeper releases the expired ones across all tenants.
\<close>

definition hold_event ::
  "env \<Rightarrow> string \<Rightarrow> string \<Rightarrow> string \<Rightarrow> string \<Rightarrow> metadata \<Rightarrow> db \<Rightarrow> db" where
  "hold_event en tenant stage status booking_id meta d =
     d\<lparr>timeline := timeline_append (timeline_up en) tenant
          (if booking_id = [] then ''unknown'' else booking_id) ''booking'' booking_id
          stage status ''booking_hold_service'' '''' meta (timeline d)\<rparr>"

lemma hold_event_frame [simp]:
  "locks (hold_event en t sg st i m d) = locks d"
  "bookings (hold_event en t sg st i m d) = bookings d"
  by (simp_all add: hold_event_def)

section \<open>Creating a hold\<close>

datatype hold_result = Held instant "day list" int | NoNights | HoldConflict day

text \<open>The loop over the nights; the first taken night ends it.\<close>

fun hold_nights :: "(day \<Rightarrow> lock) \<Rightarrow> day list \<Rightarrow> day list \<Rightarrow> db \<Rightarrow> db \<times> day list \<times> day option" where
  "hold_nights doc [] claimed d = (d, claimed, None)"
| "hold_nights doc (night # rest) claimed d =
     (case insert_unique lock_key (doc night) (locks d) of
        Some ls \<Rightarrow> hold_nights doc rest (claimed @ [night]) (d\<lparr>locks := ls\<rparr>)
      | None \<Rightarrow> (d, claimed, Some night))"

definition hold_lock :: "env \<Rightarrow> string \<Rightarrow> string \<Rightarrow> string \<Rightarrow> instant \<Rightarrow> day \<Rightarrow> lock" where
  "hold_lock en tenant room booking_id expires night =
     \<lparr>lk_tenant = tenant, lk_room = room, lk_night = night, lk_booking = booking_id,
      lk_type = Some ''hold'', lk_created = Stamp (now en), lk_expires = Some expires,
      lk_reason = '''', lk_by = ''''\<rparr>"

definition create_booking_hold ::
  "env \<Rightarrow> int \<Rightarrow> string \<Rightarrow> string \<Rightarrow> string \<Rightarrow> iso \<Rightarrow> iso \<Rightarrow> int option \<Rightarrow> db \<Rightarrow> db \<times> (booking_error + hold_result)" where
  "create_booking_hold en default_ttl tenant booking_id room check_in check_out ttl_minutes d =
     (let ttl = (case ttl_minutes of None \<Rightarrow> default_ttl | Some m \<Rightarrow> if m = 0 then default_ttl else m);
          expires = now en + 60 * ttl in
      case night_dates check_in check_out of
        None \<Rightarrow> (d, Inl ValueErr)
      | Some nights \<Rightarrow>
          if nights = [] then (d, Inr NoNights)
          else (case hold_nights (hold_lock en tenant room booking_id expires) nights [] d of
              (d1, claimed, Some night) \<Rightarrow>
                (release_claimed tenant room booking_id claimed d1, Inr (HoldConflict night))
            | (d1, claimed, None) \<Rightarrow>
                (hold_event en tenant ''hold_created'' ''success'' booking_id
                   [(''nights_held'', JDays claimed), (''hold_expires_at'', JTime expires),
                    (''ttl_minutes'', JInt ttl), (''check_in'', JIso check_in), (''check_out'', JIso check_out)] d1,
                 Inr (Held expires claimed ttl))))"

section \<open>Confirming and releasing a hold\<close>

definition is_hold :: "string \<Rightarrow> string \<Rightarrow> lock \<Rightarrow> bool" where
  "is_hold tenant booking_id l \<longleftrightarrow>
     lk_tenant l = tenant \<and> lk_booking l = booking_id \<and> lk_type l = Some ''hold''"

definition confirm_hold :: "env \<Rightarrow> string \<Rightarrow> string \<Rightarrow> db \<Rightarrow> db \<times> nat" where
  "confirm_hold en tenant booking_id d =
     (let modified = count_documents (is_hold tenant booking_id) (locks d);
          d1 = d\<lparr>locks := update_many (is_hold tenant booking_id)
                  (\<lambda>l. l\<lparr>lk_type := Some ''booking'', lk_expires := None\<rparr>) (locks d)\<rparr>
      in (if modified > 0 then
            hold_event en tenant ''hold_confirmed'' ''success'' booking_id
              [(''nights_confirmed'', JInt (int modified))] d1
          else d1, modified))"

definition release_hold :: "env \<Rightarrow> string \<Rightarrow> string \<Rightarrow> string \<Rightarrow> db \<Rightarrow> db \<times> nat" where
  "release_hold en tenant booking_id reason d =
     (let found = to_list 365 (find_many (is_hold tenant booking_id) (locks d));
          deleted = count_documents (is_hold tenant booking_id) (locks d);
          d1 = d\<lparr>locks := delete_many (is_hold tenant booking_id) (locks d)\<rparr>
      in (if deleted > 0 then
            hold_event en tenant ''hold_released'' ''success'' booking_id
              [(''released_nights'', JDays (map lk_night found)), (''reason'', JStr reason)] d1
          else d1, deleted))"

section \<open>The sweeper\<close>

definition expired_hold :: "instant \<Rightarrow> lock \<Rightarrow> bool" where
  "expired_hold t l \<longleftrightarrow>
     lk_type l = Some ''hold'' \<and> (case lk_expires l of None \<Rightarrow> False | Some x \<Rightarrow> x \<le> t)"

text \<open>\<open>bookings_map\<close>: grouped by booking id, in order of first appearance.\<close>

fun add_to_group :: "lock \<Rightarrow> (string \<times> lock list) list \<Rightarrow> (string \<times> lock list) list" where
  "add_to_group l [] = [(lk_booking l, [l])]"
| "add_to_group l ((i, ls) # gs) =
     (if i = lk_booking l then (i, ls @ [l]) # gs else (i, ls) # add_to_group l gs)"

definition group_by_booking :: "lock list \<Rightarrow> (string \<times> lock list) list" where
  "group_by_booking ls = fold add_to_group ls []"

definition expire_booking :: "instant \<Rightarrow> string \<Rightarrow> string \<Rightarrow> booking list \<Rightarrow> booking list" where
  "expire_booking t tenant i =
     update_one (\<lambda>b. b_id b = i \<and> b_tenant b = tenant \<and> b_status b \<in> {Some ''pending'', Some ''hold''})
       (\<lambda>b. b\<lparr>b_status := Some ''hold_expired'', b_marks := dict_set ''hold_expired_at'' (JTime t) (b_marks b)\<rparr>)"

definition expire_group :: "env \<Rightarrow> string \<times> lock list \<Rightarrow> db \<Rightarrow> db \<times> nat" where
  "expire_group en g d =
     (let (i, ls) = g; tenant = lk_tenant (hd ls);
          p = (\<lambda>l. lk_tenant l = tenant \<and> lk_booking l = i \<and> expired_hold (now en) l);
          d1 = d\<lparr>locks := delete_many p (locks d),
                 bookings := expire_booking (now en) tenant i (bookings d)\<rparr>
      in (hold_event en tenant ''hold_expired'' ''expired'' i
            [(''released_nights'', JDays (map lk_night ls)), (''night_count'', JInt (int (length ls))),
             (''reason'', JStr ''ttl_expired'')] d1,
          count_documents p (locks d)))"

fun expire_groups :: "env \<Rightarrow> (string \<times> lock list) list \<Rightarrow> db \<Rightarrow> db \<times> nat" where
  "expire_groups en [] d = (d, 0)"
| "expire_groups en (g # gs) d =
     (let (d1, n) = expire_group en g d; (d2, m) = expire_groups en gs d1 in (d2, n + m))"

text \<open>The expired count and the bookings affected.\<close>

definition sweep_expired_holds :: "env \<Rightarrow> db \<Rightarrow> db \<times> nat \<times> string list" where
  "sweep_expired_holds en d =
     (let expired = to_list 10000 (find_many (expired_hold (now en)) (locks d)) in
      if expired = [] then (d, 0, [])
      else (let gs = group_by_booking expired; (d1, n) = expire_groups en gs d
            in (d1, n, map fst gs)))"

section \<open>Holds displace nothing\<close>

lemma hold_nights_spec:
  assumes "locks_ok d" "stay_docs t r i doc" "distinct ns" "hold_nights doc ns cl d = (d', cl', res)"
  shows "\<exists>new. cl' = cl @ new \<and> set new \<subseteq> set ns \<and> locks d' = locks d @ map doc new \<and> locks_ok d' \<and>
    bookings d' = bookings d \<and> (res = None \<longrightarrow> new = ns) \<and>
    (\<forall>l \<in> set (locks d). lock_key l \<notin> (\<lambda>n. (t, r, n)) ` set new)"
  using assms
proof (induction ns arbitrary: cl d)
  case (Cons n ns)
  have dk: "lock_key (doc k) = (t, r, k)" for k
    using Cons.prems(2) by (auto simp: stay_docs_def lock_key_def)
  show ?case
  proof (cases "insert_unique lock_key (doc n) (locks d)")
    case (Some ls)
    then have ls: "ls = locks d @ [doc n]" "\<forall>e \<in> set (locks d). lock_key e \<noteq> (t, r, n)"
      using dk by (auto simp: store_simps)
    then have ok: "locks_ok (d\<lparr>locks := ls\<rparr>)" using Cons.prems(1) dk by (auto simp: locks_ok_def)
    have "hold_nights doc ns (cl @ [n]) (d\<lparr>locks := ls\<rparr>) = (d', cl', res)"
      using Cons.prems(4) Some by simp
    from Cons.IH[OF ok Cons.prems(2) _ this] Cons.prems(3) obtain new where
      "cl' = (cl @ [n]) @ new" "set new \<subseteq> set ns" "locks d' = ls @ map doc new" "locks_ok d'"
      "bookings d' = bookings d" "res = None \<longrightarrow> new = ns" "\<forall>l \<in> set ls. lock_key l \<notin> (\<lambda>n. (t, r, n)) ` set new"
      by auto
    then show ?thesis using ls by (intro exI[of _ "n # new"]) auto
  next
    case None
    with Cons.prems show ?thesis by auto
  qed
qed simp

text \<open>
  A hold takes all nights of its range or none, and never touches another lock: when it
  is granted each night carries its hold with the one expiry, when it is refused the lock
  table is exactly what it was, and the invariant of the booking tables is kept.
\<close>

theorem hold_all_or_nothing:
  assumes "hotel_ok d" "create_booking_hold en ttl0 t i room ci co ttl d = (d', r)"
  shows "hotel_ok d' \<and> (case r of
      Inr (Held expires ns m) \<Rightarrow> night_dates ci co = Some ns \<and>
        locks d' = locks d @ map (hold_lock en t room i expires) ns
    | _ \<Rightarrow> set (locks d') = set (locks d))"
proof -
  have ok: "locks_ok d" using assms(1) by (simp add: hotel_ok_def)
  have keep: "hotel_ok d'" if "locks_ok d'" "bookings d' = bookings d" "set (locks d) \<subseteq> set (locks d')"
    using that assms(1) keeps_nights[OF assms(1), of _ d' undefined undefined] by (auto simp: hotel_ok_def)
  show ?thesis
  proof (cases "night_dates ci co = None \<or> night_dates ci co = Some []")
    case True
    with assms show ?thesis by (auto simp: create_booking_hold_def Let_def)
  next
    case False
    then obtain nights where n: "night_dates ci co = Some nights" "nights \<noteq> []" by auto
    then have dn: "distinct nights" by (auto simp: night_dates_Some)
    define m where "m = (case ttl of None \<Rightarrow> ttl0 | Some m \<Rightarrow> if m = 0 then ttl0 else m)"
    define doc where "doc = hold_lock en t room i (now en + 60 * m)"
    have docs: "stay_docs t room i doc" by (simp add: doc_def stay_docs_def hold_lock_def lock_key_def)
    obtain d1 claimed res where run: "hold_nights doc nights [] d = (d1, claimed, res)" by (metis prod_cases3)
    from hold_nights_spec[OF ok docs dn run] have
      h: "locks d1 = locks d @ map doc claimed" "locks_ok d1" "bookings d1 = bookings d" "res = None \<longrightarrow> claimed = nights"
      "\<forall>l \<in> set (locks d). lock_key l \<notin> (\<lambda>n. (t, room, n)) ` set claimed" by auto
    show ?thesis
    proof (cases res)
      case None
      with assms(2) n run h have "r = Inr (Held (now en + 60 * m) nights m)" "locks d' = locks d1" "bookings d' = bookings d1"
        by (auto simp: create_booking_hold_def Let_def m_def doc_def)
      then show ?thesis using keep h n None by (simp add: locks_ok_def doc_def)
    next
      case (Some x)
      with assms(2) n run have r: "r = Inr (HoldConflict x)" "d' = release_claimed t room i claimed d1"
        by (auto simp: create_booking_hold_def Let_def m_def doc_def)
      have "lk_tenant (doc n) = t" "lk_room (doc n) = room" "lk_night (doc n) = n" "lk_booking (doc n) = i" for n
        by (simp_all add: doc_def hold_lock_def)
      then have "set (locks d') = set (locks d)"
        using h unfolding r(2) by (auto simp: release_claimed_locks store_simps lock_key_def)
      then show ?thesis using keep h r release_claimed_ok[of d1] by simp
    qed
  qed
qed

theorem hold_all_or_nothing_witness:
  "\<exists>d'. create_booking_hold quiet_env 15 ''t1'' ''h2'' ''101'' (Iso 10 14) (Iso 12 11) None busy_db
          = (d', Inr (Held 1900 [10, 11] 15)) \<and> hotel_ok d'"
proof -
  let ?run = "create_booking_hold quiet_env 15 ''t1'' ''h2'' ''101'' (Iso 10 14) (Iso 12 11) None busy_db"
  have "snd ?run = Inr (Held 1900 [10, 11] 15)" by code_simp
  then obtain d' where r: "?run = (d', Inr (Held 1900 [10, 11] 15))" by (metis prod.collapse)
  from hold_all_or_nothing[OF busy_hotel_ok r] r show ?thesis by blast
qed

section \<open>The sweeper releases what is expired\<close>

lemma map_of_add_to_group:
  "map_of (add_to_group l gs) i =
     (if i = lk_booking l then Some (get_default [] (map_of gs i) @ [l]) else map_of gs i)"
  by (induction l gs rule: add_to_group.induct) auto

lemma keys_add_to_group:
  "fst ` set (add_to_group l gs) = insert (lk_booking l) (fst ` set gs)"
  "distinct (map fst gs) \<Longrightarrow> distinct (map fst (add_to_group l gs))"
proof -
  show k: "fst ` set (add_to_group l gs) = insert (lk_booking l) (fst ` set gs)" for gs
    by (induction l gs rule: add_to_group.induct) auto
  show "distinct (map fst gs) \<Longrightarrow> distinct (map fst (add_to_group l gs))"
    using k by (induction l gs rule: add_to_group.induct) auto
qed

lemma fold_groups:
  "distinct (map fst gs) \<Longrightarrow> distinct (map fst (fold add_to_group ls gs)) \<and>
     fst ` set (fold add_to_group ls gs) = fst ` set gs \<union> lk_booking ` set ls \<and>
     get_default [] (map_of (fold add_to_group ls gs) i) = get_default [] (map_of gs i) @ filter (\<lambda>l. lk_booking l = i) ls"
  by (induction ls arbitrary: gs) (auto simp: keys_add_to_group map_of_add_to_group)

lemma group_by_booking_spec:
  assumes "(i, ls) \<in> set (group_by_booking es)"
  shows "ls = filter (\<lambda>l. lk_booking l = i) es \<and> ls \<noteq> []"
proof -
  note f = fold_groups[of "[]" es i, folded group_by_booking_def, simplified]
  from assms f have ls: "ls = filter (\<lambda>l. lk_booking l = i) es" by (metis get_default_simps(2) map_of_is_SomeI)
  from assms f have "i \<in> lk_booking ` set es" by (metis fst_conv image_eqI)
  with ls show ?thesis by (auto simp: filter_empty_conv)
qed

lemma group_of: "l \<in> set es \<Longrightarrow> \<exists>ls. (lk_booking l, ls) \<in> set (group_by_booking es)"
  using fold_groups[of "[]" es "lk_booking l", folded group_by_booking_def] by force

definition swept :: "(string \<times> lock list) list \<Rightarrow> instant \<Rightarrow> lock \<Rightarrow> bool" where
  "swept gs t l \<longleftrightarrow> expired_hold t l \<and> (\<exists>(i, ls) \<in> set gs. lk_booking l = i \<and> lk_tenant l = lk_tenant (hd ls))"

definition unpaid :: "booking \<Rightarrow> bool" where
  "unpaid b \<longleftrightarrow> b_status b \<in> {Some ''pending'', Some ''hold''}"

lemma expire_booking_spec:
  assumes "distinct (map booking_key bs)"
  shows "map booking_key (expire_booking t tn i bs) = map booking_key bs \<and>
    (\<forall>b \<in> set (expire_booking t tn i bs). \<not> live b \<or> b \<in> set bs \<and> \<not> (b_id b = i \<and> b_tenant b = tn \<and> unpaid b))"
proof -
  have "expire_booking t tn i bs = update_many (\<lambda>b. b_id b = i \<and> b_tenant b = tn \<and> unpaid b)
      (\<lambda>b. b\<lparr>b_status := Some ''hold_expired'', b_marks := dict_set ''hold_expired_at'' (JTime t) (b_marks b)\<rparr>) bs"
    unfolding expire_booking_def unpaid_def
    by (rule update_one_unique[OF assms, of _ "(tn, i)"]) (auto simp: booking_key_def)
  then show ?thesis by (auto simp: update_many_def live_def booking_key_def)
qed

lemma expire_groups_spec:
  assumes "distinct (map booking_key (bookings d))" "expire_groups en gs d = (d', n)"
  shows "set (locks d') = {l \<in> set (locks d). \<not> swept gs (now en) l} \<and>
    (locks_ok d \<longrightarrow> locks_ok d') \<and>
    map booking_key (bookings d') = map booking_key (bookings d) \<and>
    (\<forall>b \<in> set (bookings d'). \<not> live b \<or> b \<in> set (bookings d) \<and>
       \<not> (\<exists>(i, ls) \<in> set gs. b_id b = i \<and> b_tenant b = lk_tenant (hd ls) \<and> unpaid b))"
  using assms
proof (induction gs arbitrary: d n)
  case Nil
  then show ?case by (simp add: swept_def)
next
  case (Cons g gs)
  obtain i ls where g: "g = (i, ls)" by (cases g)
  obtain d1 m where s: "expire_group en g d = (d1, m)" by (metis prod.exhaust)
  obtain k where run: "expire_groups en gs d1 = (d', k)" using Cons.prems(2) s by (auto split: prod.splits)
  let ?t = "lk_tenant (hd ls)"
  have d1: "locks d1 = delete_many (\<lambda>l. lk_tenant l = ?t \<and> lk_booking l = i \<and> expired_hold (now en) l) (locks d)"
    "bookings d1 = expire_booking (now en) ?t i (bookings d)"
    using s g by (auto simp: expire_group_def Let_def)
  note eb = expire_booking_spec[OF Cons.prems(1), of "now en" ?t i, folded d1(2)]
  have "distinct (map booking_key (bookings d1))" using eb Cons.prems(1) by simp
  from Cons.IH[OF this run] have ih: "set (locks d') = {l \<in> set (locks d1). \<not> swept gs (now en) l}"
    "locks_ok d1 \<longrightarrow> locks_ok d'" "map booking_key (bookings d') = map booking_key (bookings d1)"
    "\<forall>b \<in> set (bookings d'). \<not> live b \<or> b \<in> set (bookings d1) \<and>
       \<not> (\<exists>(i, ls) \<in> set gs. b_id b = i \<and> b_tenant b = lk_tenant (hd ls) \<and> unpaid b)" by blast+
  show ?case
  proof (intro conjI)
    show "set (locks d') = {l \<in> set (locks d). \<not> swept (g # gs) (now en) l}"
      using ih(1) d1(1) g by (auto simp: store_simps swept_def)
    show "locks_ok d \<longrightarrow> locks_ok d'"
      using ih(2) d1(1) by (simp add: locks_ok_def distinct_delete_many)
    show "map booking_key (bookings d') = map booking_key (bookings d)" using ih(3) eb by simp
    show "\<forall>b \<in> set (bookings d'). \<not> live b \<or> b \<in> set (bookings d) \<and>
       \<not> (\<exists>(i, ls) \<in> set (g # gs). b_id b = i \<and> b_tenant b = lk_tenant (hd ls) \<and> unpaid b)"
      using ih(4) eb g by auto
  qed
qed

text \<open>
  C36.  The sweeper releases exactly the expired holds: with at most 10000 of them, each
  belonging to an unpaid or dead booking, and booking ids not shared between tenants, one
  sweep removes every expired hold lock and no other lock, and every booking that is still
  live keeps all its nights.
\<close>

theorem sweep_releases_expired_holds:
  assumes "hotel_ok d" "sweep_expired_holds en d = (d', n, ids)"
    and "length (find_many (expired_hold (now en)) (locks d)) \<le> 10000"
    and "\<forall>l \<in> set (locks d). \<forall>k \<in> set (locks d). expired_hold (now en) l \<and> expired_hold (now en) k
           \<and> lk_booking l = lk_booking k \<longrightarrow> lk_tenant l = lk_tenant k"
    and "\<forall>l \<in> set (locks d). \<forall>b \<in> set (bookings d). expired_hold (now en) l
           \<and> booking_key b = (lk_tenant l, lk_booking l) \<longrightarrow> unpaid b \<or> \<not> live b"
  shows "set (locks d') = {l \<in> set (locks d). \<not> expired_hold (now en) l} \<and> hotel_ok d'"
proof -
  let ?es = "find_many (expired_hold (now en)) (locks d)"
  have es: "to_list 10000 ?es = ?es" using assms(3) by (simp add: to_list_def)
  have dist: "distinct (map booking_key (bookings d))" and ok: "locks_ok d"
    using assms(1) by (simp_all add: hotel_ok_def)
  show ?thesis
  proof (cases "?es = []")
    case True
    then have none: "\<forall>l \<in> set (locks d). \<not> expired_hold (now en) l"
      by (simp add: find_many_def filter_empty_conv)
    from True es assms(1,2) none show ?thesis by (auto simp: sweep_expired_holds_def)
  next
    case False
    then have run: "\<exists>m. expire_groups en (group_by_booking ?es) d = (d', m)"
      using assms(2) es by (auto simp: sweep_expired_holds_def Let_def split: prod.splits)
    then obtain m where run: "expire_groups en (group_by_booking ?es) d = (d', m)" ..
    note sp = expire_groups_spec[OF dist run]
    have hd: "lk_tenant (hd ls) = lk_tenant l" if "(lk_booking l, ls) \<in> set (group_by_booking ?es)"
      "l \<in> set (locks d)" "expired_hold (now en) l" for l ls
    proof -
      have ls: "ls = filter (\<lambda>k. lk_booking k = lk_booking l) ?es" "ls \<noteq> []"
        using group_by_booking_spec[OF that(1)] by auto
      have mem: "hd ls \<in> set ls" using ls(2) by (rule hd_in_set)
      have "\<forall>k \<in> set ls. k \<in> set (locks d) \<and> expired_hold (now en) k \<and> lk_booking k = lk_booking l"
        using ls(1) by (auto simp: store_simps)
      with mem have "hd ls \<in> set (locks d)" "expired_hold (now en) (hd ls)" "lk_booking (hd ls) = lk_booking l"
        by blast+
      with assms(4) that(2,3) show ?thesis by blast
    qed
    have sw: "swept (group_by_booking ?es) (now en) l" if "l \<in> set (locks d)" "expired_hold (now en) l" for l
      using group_of[of l ?es] hd[OF _ that] that by (force simp: swept_def store_simps)
    then have locks': "set (locks d') = {l \<in> set (locks d). \<not> expired_hold (now en) l}"
      using sp by (auto simp: swept_def)
    have "holds_its_nights d' b" if b: "b \<in> set (bookings d')" for b
    proof (cases "live b")
      case True
      with sp b have b0: "b \<in> set (bookings d)" and nu:
        "\<not> (\<exists>(i, ls) \<in> set (group_by_booking ?es). b_id b = i \<and> b_tenant b = lk_tenant (hd ls) \<and> unpaid b)" by blast+
      have "\<not> expired_hold (now en) l" if m: "l \<in> set (locks d)" "lk_tenant l = b_tenant b" "lk_booking l = b_id b" for l
      proof
        assume e: "expired_hold (now en) l"
        have "booking_key b = (lk_tenant l, lk_booking l)" using m by (simp add: booking_key_def)
        with assms(5) m(1) b0 True e have "unpaid b" by blast
        moreover obtain ls where g: "(lk_booking l, ls) \<in> set (group_by_booking ?es)"
          using group_of[of l ?es] m(1) e by (auto simp: store_simps)
        ultimately show False using nu hd[OF g m(1) e] m by auto
      qed
      with locks' show ?thesis by (intro keeps_nights[OF assms(1) b0, of _ en "[]"]) auto
    qed (simp add: holds_its_nights_def)
    with sp ok dist locks' show ?thesis by (simp add: hotel_ok_def)
  qed
qed


text \<open>A pending booking with an expired hold on night 20.\<close>

definition hold_db :: db where
  "hold_db = busy_db\<lparr>
     locks := locks busy_db @ [(night_lock ''p1'' 20)\<lparr>lk_type := Some ''hold'', lk_expires := Some 900\<rparr>],
     bookings := bookings busy_db @ [(stay_booking ''p1'' 20 21)\<lparr>b_status := Some ''pending''\<rparr>]\<rparr>"

lemma hold_db_ok: "hotel_ok hold_db"
  by (auto simp: hold_db_def busy_db_def hotel_ok_def small_hotel locks_ok_def lock_key_def booking_key_def
      holds_its_nights_def nights_of_def stay_of_def locked_for_def)

theorem sweep_releases_expired_holds_witness:
  "\<exists>d'. sweep_expired_holds quiet_env hold_db = (d', 1, [''p1'']) \<and> hotel_ok d' \<and>
     night_lock ''bk1'' 7 \<in> set (locks d') \<and> \<not> list_ex (\<lambda>l. lk_booking l = ''p1'') (locks d')"
proof -
  have "snd (sweep_expired_holds quiet_env hold_db) = (1, [''p1''])" by code_simp
  then obtain d' where r: "sweep_expired_holds quiet_env hold_db = (d', 1, [''p1''])" by (metis prod.collapse)
  have "list_all (\<lambda>l. expired_hold (now quiet_env) l = (lk_booking l = ''p1'')) (locks hold_db)" by code_simp
  then have e: "expired_hold (now quiet_env) l \<longleftrightarrow> lk_booking l = ''p1''" if "l \<in> set (locks hold_db)" for l
    using that by (simp add: list_all_iff)
  have "list_all (\<lambda>l. lk_tenant l = ''t1'') (locks hold_db)" by code_simp
  then have t: "lk_tenant l = ''t1''" if "l \<in> set (locks hold_db)" for l using that by (simp add: list_all_iff)
  have "list_all (\<lambda>b. b_id b = ''p1'' \<longrightarrow> unpaid b) (bookings hold_db)" by code_simp
  then have u: "unpaid b" if "b \<in> set (bookings hold_db)" "b_id b = ''p1''" for b
    using that by (simp add: list_all_iff)
  have len: "length (find_many (expired_hold (now quiet_env)) (locks hold_db)) \<le> 10000" by code_simp
  have sw: "set (locks d') = {l \<in> set (locks hold_db). \<not> expired_hold (now quiet_env) l} \<and> hotel_ok d'"
  proof (rule sweep_releases_expired_holds[OF hold_db_ok r len])
    show "\<forall>l \<in> set (locks hold_db). \<forall>k \<in> set (locks hold_db). expired_hold (now quiet_env) l
        \<and> expired_hold (now quiet_env) k \<and> lk_booking l = lk_booking k \<longrightarrow> lk_tenant l = lk_tenant k"
      using t by simp
    show "\<forall>l \<in> set (locks hold_db). \<forall>b \<in> set (bookings hold_db). expired_hold (now quiet_env) l
        \<and> booking_key b = (lk_tenant l, lk_booking l) \<longrightarrow> unpaid b \<or> \<not> live b"
      using e u by (simp add: booking_key_def)
  qed
  have "night_lock ''bk1'' 7 \<in> set (locks hold_db)" "lk_booking (night_lock ''bk1'' 7) \<noteq> ''p1''"
    by (simp_all add: hold_db_def busy_db_def small_db_def night_lock_def)
  with r sw e show ?thesis by (auto simp: list_ex_iff)
qed

text \<open>
  An expired hold goes on blocking the room: the sweeper writes the status
  \<open>hold_expired\<close>, which the overlap query does not treat as terminal, so although its locks
  are gone the expired booking is still found for every overlapping request (up to the
  100-row limit of the query) and no new booking of those nights can be created.
\<close>

theorem expired_hold_still_blocks:
  assumes "b \<in> set (bookings d)" "b_status b = Some ''hold_expired''"
    and "b_tenant b = tenant" "b_room b = Some room" "b_id b \<noteq> me"
    and "b_check_in b = Some x" "b_check_out b = Some y"
    and "night_dates ci co = Some nights" "set nights \<inter> nights_of b \<noteq> {}"
    and "length (find_many (overlap_filter tenant room (hd nights) co me) (bookings d)) \<le> 100"
  shows "\<exists>other. find_overlapping_active_booking tenant room ci co me d = Some other"
  using overlap_none_disjoint[OF _ assms(8,10,1,3-5) _ assms(6,7)] assms(2,9)
  by (cases "find_overlapping_active_booking tenant room ci co me d")
     (auto simp: terminal_booking_statuses_def)

theorem expired_hold_still_blocks_witness:
  "snd (create_booking_atomic quiet_env ''t1'' (stay_booking ''bk9'' 20 21) False
          (fst (sweep_expired_holds quiet_env hold_db))) = Inl (Conflict (Some ''p1'') ''booking'' [])
   \<and> (\<exists>other. find_overlapping_active_booking ''t1'' ''101'' (Iso 20 14) (Iso 21 11) ''bk9''
        (fst (sweep_expired_holds quiet_env hold_db)) = Some other)"
proof -
  let ?d = "fst (sweep_expired_holds quiet_env hold_db)"
  have c: "snd (create_booking_atomic quiet_env ''t1'' (stay_booking ''bk9'' 20 21) False ?d)
      = Inl (Conflict (Some ''p1'') ''booking'' [])" by code_simp
  let ?b = "(stay_booking ''p1'' 20 21)\<lparr>b_status := Some ''hold_expired'', b_marks := [(''hold_expired_at'', JTime 1000)]\<rparr>"
  have bs: "bookings ?d = [stay_booking ''bk1'' 7 8, ?b]" by code_simp
  have n: "night_dates (Iso 20 14) (Iso 21 11) = Some [20]" by code_simp
  have l: "length (find_many (overlap_filter ''t1'' ''101'' (hd [20]) (Iso 21 11) ''bk9'') (bookings ?d)) \<le> 100"
    unfolding bs by code_simp
  have "set [20] \<inter> nights_of ?b \<noteq> {}" by code_simp
  from expired_hold_still_blocks[of ?b ?d "''t1''" "''101''" "''bk9''", OF _ _ _ _ _ _ _ n this l] c bs
  show ?thesis by (simp add: stay_booking_def)
qed

end
