(* ===== verification/LockRepair.thy ===== *)
theory LockRepair
  imports BookingHold "HOL-Library.Product_Lexorder"
begin

text \<open>
  Duplicate room-night locks (the operator tools of core/atomic_booking.py): on a
  deployment whose unique index was missing, several locks may exist for one room night.
  The scan groups them, each owner is classified, and a group is resolved automatically
  only when at most one owner is still active.

  The order of the groups of a Mongo \<open>$group\<close> is not documented; here it is the order of
  first appearance.  \<open>lookup_up\<close> says whether the booking lookup of the classifier
  succeeds; the other reads and writes of these tools are taken to succeed.
\<close>

datatype owner_kind = BlockOwner | ActiveOwner | TerminalOwner | MissingOwner | UnknownOwner

record lock_owner =
  ow_booking :: string
  ow_type :: "string option"
  ow_lock_created :: created
  ow_kind :: owner_kind
  ow_status :: "string option"
  ow_created :: created

datatype recommendation = AutoSafe | AutoSafeAllInactive | ManualRequired

record dup_group =
  dg_tenant :: string
  dg_room :: string
  dg_night :: day
  dg_count :: nat
  dg_booking_ids :: "string list"
  dg_owners :: "lock_owner list"
  dg_recommendation :: recommendation
  dg_reason :: string
  dg_keep :: "string option"
  dg_retire :: "string list"

section \<open>Scanning and classifying\<close>

definition on_triple :: "string \<Rightarrow> string \<Rightarrow> day \<Rightarrow> lock \<Rightarrow> bool" where
  "on_triple t r n l \<longleftrightarrow> lk_tenant l = t \<and> lk_room l = r \<and> lk_night l = n"

text \<open>\<open>scan_room_night_lock_duplicates\<close>: key, count and set of owners of each duplicated key.\<close>

definition scan_room_night_lock_duplicates ::
  "nat \<Rightarrow> db \<Rightarrow> ((string \<times> string \<times> day) \<times> nat \<times> string list) list" where
  "scan_room_night_lock_duplicates limit d =
     (let keys = rev (remdups (rev (map lock_key (locks d))));
          group = (\<lambda>k. filter (\<lambda>l. lock_key l = k) (locks d))
      in take limit (filter (\<lambda>(k, c, ids). c > 1)
           (map (\<lambda>k. (k, length (group k), remdups (map lk_booking (group k)))) keys)))"

text \<open>\<open>_classify_lock_owner\<close>: kind, status and creation time of the owner.\<close>

definition classify_lock_owner ::
  "(string \<Rightarrow> bool) \<Rightarrow> string \<Rightarrow> string \<Rightarrow> db \<Rightarrow> owner_kind \<times> string option \<times> created" where
  "classify_lock_owner lookup_up tenant booking_id d =
     (if booking_id = [] then (MissingOwner, None, NoStamp)
      else if is_block_owner booking_id then (BlockOwner, Some ''block'', NoStamp)
      else if \<not> lookup_up booking_id then (UnknownOwner, None, NoStamp)
      else case find_booking tenant booking_id d of
          None \<Rightarrow> (MissingOwner, None, NoStamp)
        | Some b \<Rightarrow>
            (let status = lower (get_default '''' (b_status b));
                 kind = (if status \<in> set terminal_booking_statuses then TerminalOwner
                         else if status \<in> set active_booking_statuses then ActiveOwner
                         else ActiveOwner)
             in (kind, Some status, b_created b)))"

definition annotate_owner :: "(string \<Rightarrow> bool) \<Rightarrow> string \<Rightarrow> db \<Rightarrow> lock \<Rightarrow> lock_owner" where
  "annotate_owner lookup_up tenant d l =
     (let (kind, status, created) = classify_lock_owner lookup_up tenant (lk_booking l) d
      in \<lparr>ow_booking = lk_booking l, ow_type = lk_type l, ow_lock_created = lk_created l,
          ow_kind = kind, ow_status = status, ow_created = created\<rparr>)"

section \<open>The recommendation\<close>

text \<open>The sort key \<open>(lock_created_at or "", created_at or "")\<close>; a missing stamp sorts first.\<close>

fun stamp_rank :: "created \<Rightarrow> int \<times> int" where
  "stamp_rank NoStamp = (0, 0)"
| "stamp_rank (Stamp t) = (1, t)"
| "stamp_rank (BadStamp t) = (1, t)"

definition newest_first :: "lock_owner list \<Rightarrow> lock_owner list" where
  "newest_first os =
     rev (sort_key (\<lambda>o'. (stamp_rank (ow_lock_created o'), stamp_rank (ow_created o'))) (rev os))"

definition is_keeper :: "lock_owner \<Rightarrow> bool" where
  "is_keeper o' \<longleftrightarrow> ow_kind o' \<in> {BlockOwner, ActiveOwner}"

definition is_inactive :: "lock_owner \<Rightarrow> bool" where
  "is_inactive o' \<longleftrightarrow> ow_kind o' \<in> {TerminalOwner, MissingOwner}"

text \<open>Recommendation, reason, the booking to keep, and the bookings to retire.\<close>

definition recommend :: "lock_owner list \<Rightarrow> recommendation \<times> string \<times> string option \<times> string list" where
  "recommend owners =
     (let keepers = filter is_keeper owners;
          unknowns = filter (\<lambda>o'. ow_kind o' = UnknownOwner) owners;
          inactive = filter is_inactive owners
      in if unknowns \<noteq> [] then (ManualRequired, ''owner classification failed for one or more locks'', None, [])
         else if length keepers = 1 \<and> inactive \<noteq> [] then
           (AutoSafe, ''single active keeper, remainder terminal/missing'', Some (ow_booking (hd keepers)), map ow_booking inactive)
         else if length keepers \<ge> 2 then (ManualRequired, ''two or more active bookings on the same night'', None, [])
         else if keepers = [] \<and> inactive \<noteq> [] then
           (let sorted = newest_first inactive
            in (AutoSafeAllInactive, ''all owners terminal/missing; keep most recent for audit'',
                Some (ow_booking (hd sorted)), map ow_booking (tl sorted)))
         else (ManualRequired, ''no resolvable pattern'', None, []))"

definition list_room_night_lock_duplicate_groups :: "(string \<Rightarrow> bool) \<Rightarrow> nat \<Rightarrow> db \<Rightarrow> dup_group list" where
  "list_room_night_lock_duplicate_groups lookup_up limit d =
     map (\<lambda>((t, r, n), count, ids).
            (let owners = map (annotate_owner lookup_up t d) (to_list 100 (find_many (on_triple t r n) (locks d)));
                 (rec, reason, keep, retire) = recommend owners
             in \<lparr>dg_tenant = t, dg_room = r, dg_night = n, dg_count = count, dg_booking_ids = ids,
                 dg_owners = owners, dg_recommendation = rec, dg_reason = reason,
                 dg_keep = keep, dg_retire = retire\<rparr>))
         (scan_room_night_lock_duplicates limit d)"

section \<open>Resolving\<close>

datatype resolution = Skipped string | Planned | PostCheck nat | Resolved nat

definition repair_audit :: "string \<Rightarrow> string \<Rightarrow> string \<Rightarrow> string \<Rightarrow> metadata \<Rightarrow> db \<Rightarrow> db" where
  "repair_audit tenant actor action entity changes d =
     d\<lparr>audit_logs := audit_logs d @ [\<lparr>a_tenant = tenant, a_user = actor, a_action = action,
         a_entity_type = ''room_night_lock'', a_entity = entity, a_changes = changes\<rparr>]\<rparr>"

definition retire_filter :: "string \<Rightarrow> string \<Rightarrow> day \<Rightarrow> string list \<Rightarrow> lock \<Rightarrow> bool" where
  "retire_filter t r n ids l \<longleftrightarrow> on_triple t r n l \<and> lk_booking l \<in> set ids"

text \<open>The body of the loop of \<open>resolve_room_night_lock_duplicates\<close>.\<close>

definition resolve_group :: "env \<Rightarrow> bool \<Rightarrow> string \<Rightarrow> dup_group \<Rightarrow> db \<Rightarrow> db \<times> resolution" where
  "resolve_group en apply_it actor g d =
     (if dg_recommendation g \<notin> {AutoSafe, AutoSafeAllInactive} then (d, Skipped (dg_reason g))
      else if dg_retire g = [] then (d, Skipped ''nothing to retire'')
      else if \<not> apply_it then (d, Planned)
      else
        (let t = dg_tenant g; r = dg_room g; n = dg_night g;
             deleted = count_documents (retire_filter t r n (dg_retire g)) (locks d);
             d1 = d\<lparr>locks := delete_many (retire_filter t r n (dg_retire g)) (locks d)\<rparr>;
             remaining = count_documents (on_triple t r n) (locks d1)
         in if remaining \<noteq> 1 then (d1, PostCheck remaining)
            else
              (let d2 = repair_audit t actor ''AUTO_RESOLVE_RNL_DUPLICATE'' (t @ '':'' @ r)
                     [(''night'', JDay n), (''reason'', JStr (dg_reason g)), (''keep_booking_id'', jopt (dg_keep g)),
                      (''retire_booking_ids'', JStrs (dg_retire g)), (''deleted_count'', JInt (int deleted))] d1;
                   d3 = booking_event en t ''lock_duplicate_resolved'' ''success'' (get_default '''' (dg_keep g)) None
                     [(''night_date'', JDay n), (''keep_booking_id'', jopt (dg_keep g)),
                      (''retired_booking_ids'', JStrs (dg_retire g)), (''deleted_count'', JInt (int deleted)),
                      (''actor_id'', JStr actor)] d2
               in (d3, Resolved deleted))))"

fun resolve_groups :: "env \<Rightarrow> bool \<Rightarrow> string \<Rightarrow> dup_group list \<Rightarrow> db \<Rightarrow> db \<times> resolution list" where
  "resolve_groups en apply_it actor [] d = (d, [])"
| "resolve_groups en apply_it actor (g # gs) d =
     (let (d1, r) = resolve_group en apply_it actor g d; (d2, rs) = resolve_groups en apply_it actor gs d1
      in (d2, r # rs))"

definition resolve_room_night_lock_duplicates ::
  "env \<Rightarrow> (string \<Rightarrow> bool) \<Rightarrow> bool \<Rightarrow> nat \<Rightarrow> string \<Rightarrow> db \<Rightarrow> db \<times> resolution list" where
  "resolve_room_night_lock_duplicates en lookup_up apply_it limit actor d =
     resolve_groups en apply_it actor (list_room_night_lock_duplicate_groups lookup_up limit d) d"

text \<open>\<open>manual_resolve_room_night_lock_duplicate\<close>.  A missing night is \<open>None\<close>.\<close>

definition manual_resolve_room_night_lock_duplicate ::
  "env \<Rightarrow> string \<Rightarrow> string \<Rightarrow> day option \<Rightarrow> string \<Rightarrow> string list \<Rightarrow> string \<Rightarrow> db \<Rightarrow> db \<times> resolution" where
  "manual_resolve_room_night_lock_duplicate en t r night keep retire actor d =
     (case night of
        None \<Rightarrow> (d, Skipped ''tenant_id/room_id/night_date/keep_booking_id required'')
      | Some n \<Rightarrow>
          if t = [] \<or> r = [] \<or> keep = [] then (d, Skipped ''tenant_id/room_id/night_date/keep_booking_id required'')
          else
            (let retire_ids = filter (\<lambda>b. b \<noteq> []) retire in
             if retire_ids = [] then (d, Skipped ''retire_booking_ids empty'')
             else if keep \<in> set retire_ids then (d, Skipped ''keep_booking_id cannot also be retired'')
             else
               (let existing = map lk_booking (to_list 100 (find_many (on_triple t r n) (locks d))) in
                if keep \<notin> set existing then (d, Skipped ''keep_booking_id has no lock on this triple'')
                else if \<not> set retire_ids \<subseteq> set existing then (d, Skipped ''retire_booking_ids not present on triple'')
                else
                  (let deleted = count_documents (retire_filter t r n retire_ids) (locks d);
                       d1 = d\<lparr>locks := delete_many (retire_filter t r n retire_ids) (locks d)\<rparr>;
                       remaining = count_documents (on_triple t r n) (locks d1)
                   in if remaining \<noteq> 1 then (d1, PostCheck remaining)
                      else
                        (booking_event en t ''lock_duplicate_resolved'' ''manual'' keep None
                           [(''night_date'', JDay n), (''keep_booking_id'', JStr keep),
                            (''retired_booking_ids'', JStrs retire_ids), (''deleted_count'', JInt (int deleted)),
                            (''actor_id'', JStr actor)]
                           (repair_audit t actor ''MANUAL_RESOLVE_RNL_DUPLICATE'' (t @ '':'' @ r)
                              [(''night'', JDay n), (''keep_booking_id'', JStr keep),
                               (''retire_booking_ids'', JStrs retire_ids), (''owners_before'', JStrs existing),
                               (''deleted_count'', JInt (int deleted))] d1),
                         Resolved deleted)))))"

section \<open>Repair spares active owners\<close>

definition dead_owner :: "(string \<Rightarrow> bool) \<Rightarrow> string \<Rightarrow> string \<Rightarrow> db \<Rightarrow> bool" where
  "dead_owner up t i d \<longleftrightarrow> fst (classify_lock_owner up t i d) \<in> {TerminalOwner, MissingOwner}"

lemma set_newest_first [simp]: "set (newest_first os) = set os"
  by (simp add: newest_first_def)

lemma newest_first_empty [simp]: "newest_first os = [] \<longleftrightarrow> os = []"
  by (metis set_empty set_newest_first)

lemma annotate_simps [simp]:
  "ow_booking (annotate_owner up t d l) = lk_booking l"
  "ow_kind (annotate_owner up t d l) = fst (classify_lock_owner up t (lk_booking l) d)"
  by (simp_all add: annotate_owner_def split: prod.splits)

lemma recommend_retire:
  assumes "recommend os = (rec, reason, keep, retire)" "i \<in> set retire"
  shows "\<exists>o' \<in> set os. ow_booking o' = i \<and> is_inactive o'"
proof -
  have "set (tl ys) \<subseteq> set ys" for ys :: "lock_owner list" by (cases ys) auto
  then have sub: "set (tl (newest_first xs)) \<subseteq> set xs" for xs by (metis set_newest_first)
  have "retire = [] \<or> retire = map ow_booking (filter is_inactive os) \<or>
      retire = map ow_booking (tl (newest_first (filter is_inactive os)))"
    using assms(1) by (simp add: recommend_def Let_def split: if_splits)
  then have "i \<in> ow_booking ` set (filter is_inactive os)"
    using assms(2) image_mono[OF sub[of "filter is_inactive os"], of ow_booking] by (elim disjE) auto
  then show ?thesis by auto
qed

lemma group_facts:
  assumes "g \<in> set (list_room_night_lock_duplicate_groups up limit d)"
  shows "dg_owners g = map (annotate_owner up (dg_tenant g) d)
       (to_list 100 (find_many (on_triple (dg_tenant g) (dg_room g) (dg_night g)) (locks d)))"
    and "recommend (dg_owners g) = (dg_recommendation g, dg_reason g, dg_keep g, dg_retire g)"
  using assms by (auto simp: list_room_night_lock_duplicate_groups_def Let_def split: prod.splits)

lemma group_retires_dead:
  assumes "g \<in> set (list_room_night_lock_duplicate_groups up limit d)" "i \<in> set (dg_retire g)"
  shows "dead_owner up (dg_tenant g) i d"
proof -
  from recommend_retire[OF group_facts(2)[OF assms(1)] assms(2)] obtain o' where
    o': "o' \<in> set (dg_owners g)" "ow_booking o' = i" "is_inactive o'" by blast
  then show ?thesis
    unfolding group_facts(1)[OF assms(1)] by (auto simp: is_inactive_def dead_owner_def)
qed

lemma resolve_group_locks:
  assumes "resolve_group en ap actor g d = (d', r)"
  shows "bookings d' = bookings d \<and>
    (locks d' = locks d \<or> ap \<and> locks d' = delete_many (retire_filter (dg_tenant g) (dg_room g) (dg_night g) (dg_retire g)) (locks d))"
  using assms by (auto simp: resolve_group_def Let_def repair_audit_def split: if_splits)

lemma resolve_groups_locks:
  assumes "resolve_groups en ap actor gs d = (d', rs)"
  shows "bookings d' = bookings d \<and> set (locks d') \<subseteq> set (locks d) \<and>
    (\<forall>l \<in> set (locks d). l \<notin> set (locks d') \<longrightarrow> ap \<and>
       (\<exists>g \<in> set gs. retire_filter (dg_tenant g) (dg_room g) (dg_night g) (dg_retire g) l))"
  using assms
proof (induction gs arbitrary: d rs)
  case (Cons g gs)
  obtain d1 r where s: "resolve_group en ap actor g d = (d1, r)" by (metis prod.exhaust)
  then obtain rs' where run: "resolve_groups en ap actor gs d1 = (d', rs')"
    using Cons.prems by (auto split: prod.splits)
  from Cons.IH[OF run] resolve_group_locks[OF s] show ?case by (auto simp: store_simps)
qed simp

text \<open>
  C39.  Automatic repair deletes only dead locks: whatever duplicates exist, a lock that
  disappears was owned by a booking that is missing, cancelled, no-show or checked out;
  locks of active bookings, of inventory blocks and of owners that could not be looked up
  all stay, no booking is touched, and without \<open>apply\<close> nothing is deleted.
\<close>

theorem repair_spares_active_owners:
  assumes "resolve_room_night_lock_duplicates en lookup_up apply_it limit actor d = (d', rs)"
  shows "bookings d' = bookings d \<and> set (locks d') \<subseteq> set (locks d) \<and>
    (\<forall>l \<in> set (locks d). l \<notin> set (locks d') \<longrightarrow>
       apply_it \<and> fst (classify_lock_owner lookup_up (lk_tenant l) (lk_booking l) d) \<in> {TerminalOwner, MissingOwner})"
proof -
  have dead: "dead_owner lookup_up (lk_tenant l) (lk_booking l) d"
    if "g \<in> set (list_room_night_lock_duplicate_groups lookup_up limit d)"
      "retire_filter (dg_tenant g) (dg_room g) (dg_night g) (dg_retire g) l" for g l
    using group_retires_dead[OF that(1)] that(2) by (auto simp: retire_filter_def on_triple_def)
  from assms have "resolve_groups en apply_it actor (list_room_night_lock_duplicate_groups lookup_up limit d) d = (d', rs)"
    by (simp add: resolve_room_night_lock_duplicates_def)
  from resolve_groups_locks[OF this] dead show ?thesis unfolding dead_owner_def by blast
qed

section \<open>What a resolved group is left with\<close>

lemma recommend_keep:
  assumes "recommend os = (rec, reason, keep, retire)" "rec \<noteq> ManualRequired"
  obtains o' where "o' \<in> set os" "keep = Some (ow_booking o')"
    "is_keeper o' \<or> (\<forall>o'' \<in> set os. is_inactive o'') \<and> set os = {o'} \<union> set (tl (newest_first (filter is_inactive os)))
        \<and> retire = map ow_booking (tl (newest_first (filter is_inactive os)))"
proof -
  consider "filter is_keeper os \<noteq> []" "keep = Some (ow_booking (hd (filter is_keeper os)))"
    | "filter is_keeper os = []" "filter is_inactive os \<noteq> []" "filter (\<lambda>o'. ow_kind o' = UnknownOwner) os = []"
      "keep = Some (ow_booking (hd (newest_first (filter is_inactive os))))"
      "retire = map ow_booking (tl (newest_first (filter is_inactive os)))"
    using assms by (cases "filter is_keeper os = []") (simp_all add: recommend_def Let_def split: if_splits)
  then show thesis
  proof cases
    case 1
    then have "hd (filter is_keeper os) \<in> set (filter is_keeper os)" by (intro hd_in_set)
    with 1 that show thesis by auto
  next
    case 2
    let ?s = "newest_first (filter is_inactive os)"
    have "ow_kind o' \<noteq> UnknownOwner \<and> \<not> is_keeper o'" if "o' \<in> set os" for o'
      using 2(1,3) that by (auto simp: filter_empty_conv)
    then have all: "\<forall>o' \<in> set os. is_inactive o'"
      unfolding is_keeper_def is_inactive_def by (metis insertCI owner_kind.exhaust)
    have ne: "?s \<noteq> []" using 2(2) by simp
    have "set ?s = set os" using all by auto
    moreover have "set ?s = {hd ?s} \<union> set (tl ?s)" using ne by (metis hd_Cons_tl insert_is_Un list.set(2))
    moreover have "hd ?s \<in> set ?s" using ne by (rule hd_in_set)
    ultimately show thesis using that[of "hd ?s"] 2 all by auto
  qed
qed

text \<open>
  A group reported as resolved is really resolved, and to the right booking: exactly one
  lock is left on the room night and its owner is the recommended keeper (for up to 100
  duplicates, the rows the tool reads).
\<close>

theorem resolved_group_keeps_keeper:
  assumes "g \<in> set (list_room_night_lock_duplicate_groups lookup_up limit d)"
    and "resolve_group en True actor g d = (d', Resolved k)"
    and "count_documents (on_triple (dg_tenant g) (dg_room g) (dg_night g)) (locks d) \<le> 100"
  shows "\<exists>l. find_many (on_triple (dg_tenant g) (dg_room g) (dg_night g)) (locks d') = [l]
    \<and> dg_keep g = Some (lk_booking l)"
proof -
  let ?p = "on_triple (dg_tenant g) (dg_room g) (dg_night g)"
  let ?q = "retire_filter (dg_tenant g) (dg_room g) (dg_night g) (dg_retire g)"
  have ls: "locks d' = delete_many ?q (locks d)" and one: "count_documents ?p (locks d') = 1"
    and rec: "dg_recommendation g \<noteq> ManualRequired"
    using assms(2) by (auto simp: resolve_group_def Let_def repair_audit_def split: if_splits)
  have owners: "dg_owners g = map (annotate_owner lookup_up (dg_tenant g) d) (find_many ?p (locks d))"
    using group_facts(1)[OF assms(1)] assms(3)
    by (simp add: to_list_def find_many_def count_documents_def)
  obtain o' where o': "o' \<in> set (dg_owners g)" "dg_keep g = Some (ow_booking o')"
    and alt: "is_keeper o' \<or> (\<forall>o'' \<in> set (dg_owners g). is_inactive o'')
        \<and> set (dg_owners g) = {o'} \<union> set (tl (newest_first (filter is_inactive (dg_owners g))))
        \<and> dg_retire g = map ow_booking (tl (newest_first (filter is_inactive (dg_owners g))))"
    using recommend_keep[OF group_facts(2)[OF assms(1)] rec] by blast
  obtain l where l: "l \<in> set (locks d)" "?p l" "o' = annotate_owner lookup_up (dg_tenant g) d l"
    using o'(1) unfolding owners by (auto simp: store_simps)
  obtain x where x: "find_many ?p (locks d') = [x]"
    using one by (auto simp: count_documents_def find_many_def length_Suc_conv)
  then have "x \<in> set (find_many ?p (locks d'))" by simp
  then have xin: "x \<in> set (locks d)" "?p x" "lk_booking x \<notin> set (dg_retire g)"
    by (auto simp: ls store_simps retire_filter_def)
  have "lk_booking l \<notin> set (dg_retire g)"
    using alt
  proof
    assume "is_keeper o'"
    then show ?thesis using group_retires_dead[OF assms(1), of "lk_booking l"] l(3)
      by (auto simp: is_keeper_def dead_owner_def)
  next
    assume a: "(\<forall>o'' \<in> set (dg_owners g). is_inactive o'')
        \<and> set (dg_owners g) = {o'} \<union> set (tl (newest_first (filter is_inactive (dg_owners g))))
        \<and> dg_retire g = map ow_booking (tl (newest_first (filter is_inactive (dg_owners g))))"
    have "lk_booking x = lk_booking l"
    proof (rule ccontr)
      assume ne: "lk_booking x \<noteq> lk_booking l"
      have "annotate_owner lookup_up (dg_tenant g) d x \<in> set (dg_owners g)"
        using xin unfolding owners by (auto simp: store_simps)
      with conjunct1[OF conjunct2[OF a]] have "annotate_owner lookup_up (dg_tenant g) d x
          \<in> {o'} \<union> set (tl (newest_first (filter is_inactive (dg_owners g))))" by (rule equalityD1[THEN subsetD])
      moreover have "annotate_owner lookup_up (dg_tenant g) d x \<noteq> o'"
        using ne l(3) by (metis annotate_simps(1))
      ultimately have "annotate_owner lookup_up (dg_tenant g) d x
          \<in> set (tl (newest_first (filter is_inactive (dg_owners g))))" by blast
      then have "ow_booking (annotate_owner lookup_up (dg_tenant g) d x) \<in> set (dg_retire g)"
        unfolding conjunct2[OF conjunct2[OF a]] set_map by (rule imageI)
      then have "lk_booking x \<in> set (dg_retire g)" by simp
      with xin show False by simp
    qed
    with xin show ?thesis by simp
  qed
  with l have "l \<in> set (find_many ?p (locks d'))"
    by (simp add: ls store_simps retire_filter_def)
  with x have "x = l" by simp
  with x o'(2) l(3) show ?thesis by auto
qed

text \<open>Night 7 of room 101 is locked for a live booking and for one that does not exist.\<close>

definition dup_db :: db where
  "dup_db = small_db\<lparr>locks := [night_lock ''gone'' 7, night_lock ''bk1'' 7]\<rparr>"

theorem repair_spares_active_owners_witness:
  "\<exists>d'. resolve_room_night_lock_duplicates quiet_env (\<lambda>_. True) True 100 ''ops'' dup_db = (d', [Resolved 1])
     \<and> night_lock ''bk1'' 7 \<in> set (locks d')"
proof -
  have "snd (resolve_room_night_lock_duplicates quiet_env (\<lambda>_. True) True 100 ''ops'' dup_db) = [Resolved 1]"
    by code_simp
  from code_pair[OF this] obtain d' where r: "resolve_room_night_lock_duplicates quiet_env (\<lambda>_. True) True 100 ''ops'' dup_db = (d', [Resolved 1])" ..
  have "night_lock ''bk1'' 7 \<in> set (locks dup_db)" by (simp add: dup_db_def)
  moreover have "fst (classify_lock_owner (\<lambda>_. True) (lk_tenant (night_lock ''bk1'' 7))
      (lk_booking (night_lock ''bk1'' 7)) dup_db) = ActiveOwner" by code_simp
  ultimately show ?thesis using repair_spares_active_owners[OF r] r by force
qed

theorem resolved_group_keeps_keeper_witness:
  "\<exists>d' l. resolve_group quiet_env True ''ops''
       (hd (list_room_night_lock_duplicate_groups (\<lambda>_. True) 100 dup_db)) dup_db = (d', Resolved 1)
     \<and> find_many (on_triple ''t1'' ''101'' 7) (locks d') = [l] \<and> lk_booking l = ''bk1''"
proof -
  define g where "g = hd (list_room_night_lock_duplicate_groups (\<lambda>_. True) 100 dup_db)"
  have "list_room_night_lock_duplicate_groups (\<lambda>_. True) 100 dup_db \<noteq> []" by code_simp
  then have g: "g \<in> set (list_room_night_lock_duplicate_groups (\<lambda>_. True) 100 dup_db)"
    unfolding g_def by (rule hd_in_set)
  have "snd (resolve_group quiet_env True ''ops'' g dup_db) = Resolved 1" unfolding g_def by code_simp
  from code_pair[OF this] obtain d' where r: "resolve_group quiet_env True ''ops'' g dup_db = (d', Resolved 1)" ..
  have k: "dg_tenant g = ''t1'' \<and> dg_room g = ''101'' \<and> dg_night g = 7 \<and> dg_keep g = Some ''bk1''"
    unfolding g_def by code_simp
  have c: "count_documents (on_triple (dg_tenant g) (dg_room g) (dg_night g)) (locks dup_db) \<le> 100"
    unfolding g_def by code_simp
  from resolved_group_keeps_keeper[OF g r c] r k show ?thesis unfolding g_def by auto
qed

text \<open>
  Duplicates of one dead owner are all deleted: when every lock of a duplicated room
  night belongs to the same inactive booking, the booking ids to retire include the keeper's
  own, so applying the safe resolution removes every lock, the one to be kept for the audit
  trail too; the post-check notices (no row is left) but nothing is rolled back.
\<close>

theorem same_owner_duplicates_all_deleted:
  assumes "g \<in> set (list_room_night_lock_duplicate_groups lookup_up limit d)"
    and "\<forall>l \<in> set (locks d). on_triple (dg_tenant g) (dg_room g) (dg_night g) l \<longrightarrow> lk_booking l = i"
    and "fst (classify_lock_owner lookup_up (dg_tenant g) i d) \<in> {TerminalOwner, MissingOwner}"
    and "2 \<le> count_documents (on_triple (dg_tenant g) (dg_room g) (dg_night g)) (locks d)"
  shows "dg_recommendation g = AutoSafeAllInactive \<and> dg_keep g = Some i \<and>
    (\<exists>d'. resolve_group en True actor g d = (d', PostCheck 0) \<and>
       find_many (on_triple (dg_tenant g) (dg_room g) (dg_night g)) (locks d') = [])"
proof -
  let ?p = "on_triple (dg_tenant g) (dg_room g) (dg_night g)"
  let ?os = "dg_owners g"
  note os = group_facts(1)[OF assms(1)]
  have each: "\<forall>o' \<in> set ?os. ow_booking o' = i \<and> is_inactive o'"
    unfolding os using assms(2,3)
    by (auto simp: to_list_def is_inactive_def store_simps dest!: in_set_takeD)
  have len: "2 \<le> length ?os"
    unfolding os using assms(4) by (simp add: to_list_def find_many_def count_documents_def)
  have inact: "filter is_inactive ?os = ?os" and none: "filter is_keeper ?os = []"
    "filter (\<lambda>o'. ow_kind o' = UnknownOwner) ?os = []"
    using each by (auto simp: filter_empty_conv is_inactive_def is_keeper_def)
  have "length (newest_first ?os) = length ?os" by (simp add: newest_first_def)
  then obtain a b rest where s: "newest_first ?os = a # b # rest"
    using len by (metis One_nat_def Suc_1 Suc_le_length_iff)
  have sb: "\<forall>o' \<in> set (a # b # rest). ow_booking o' = i" using each unfolding s[symmetric] by simp
  have ne: "?os \<noteq> []" using len by auto
  have "recommend ?os = (AutoSafeAllInactive, ''all owners terminal/missing; keep most recent for audit'',
      Some i, map ow_booking (b # rest))"
    using ne sb by (simp add: recommend_def Let_def inact none s)
  then have rec: "dg_recommendation g = AutoSafeAllInactive" "dg_keep g = Some i" "dg_retire g = map ow_booking (b # rest)"
    unfolding group_facts(2)[OF assms(1)] by simp_all
  have ret: "set (dg_retire g) = {i}" using sb unfolding rec(3) by auto
  then have "\<not> (\<exists>l \<in> set (locks d). ?p l \<and> \<not> retire_filter (dg_tenant g) (dg_room g) (dg_night g) (dg_retire g) l)"
    using assms(2) by (auto simp: retire_filter_def)
  then have gone: "filter ?p (delete_many (retire_filter (dg_tenant g) (dg_room g) (dg_night g) (dg_retire g)) (locks d)) = []"
    by (auto simp: filter_empty_conv store_simps)
  then show ?thesis
    using rec ret by (auto simp: resolve_group_def Let_def count_documents_def find_many_def)
qed

theorem same_owner_duplicates_all_deleted_witness:
  "let d = small_db\<lparr>locks := [night_lock ''gone'' 7, (night_lock ''gone'' 7)\<lparr>lk_created := Stamp 5\<rparr>]\<rparr>;
       g = hd (list_room_night_lock_duplicate_groups (\<lambda>_. True) 100 d)
   in dg_keep g = Some ''gone'' \<and> (\<exists>d'. resolve_group quiet_env True ''ops'' g d = (d', PostCheck 0))"
proof -
  define d where "d = small_db\<lparr>locks := [night_lock ''gone'' 7, (night_lock ''gone'' 7)\<lparr>lk_created := Stamp 5\<rparr>]\<rparr>"
  define g where "g = hd (list_room_night_lock_duplicate_groups (\<lambda>_. True) 100 d)"
  have "list_room_night_lock_duplicate_groups (\<lambda>_. True) 100 d \<noteq> []" unfolding d_def by code_simp
  then have g: "g \<in> set (list_room_night_lock_duplicate_groups (\<lambda>_. True) 100 d)"
    unfolding g_def by (rule hd_in_set)
  have c: "fst (classify_lock_owner (\<lambda>_. True) (dg_tenant g) ''gone'' d) \<in> {TerminalOwner, MissingOwner}"
    unfolding g_def d_def by code_simp
  have n: "2 \<le> count_documents (on_triple (dg_tenant g) (dg_room g) (dg_night g)) (locks d)"
    unfolding g_def d_def by code_simp
  have "\<forall>l \<in> set (locks d). on_triple (dg_tenant g) (dg_room g) (dg_night g) l \<longrightarrow> lk_booking l = ''gone''"
    by (simp add: d_def night_lock_def)
  from same_owner_duplicates_all_deleted[OF g this c n, of quiet_env "''ops''"]
  show ?thesis unfolding g_def d_def Let_def by blast
qed

lemma manual_cases:
  assumes "manual_resolve_room_night_lock_duplicate en t r night keep retire actor d = (d', res)"
  shows "(d' = d \<and> (\<forall>k. res \<noteq> Resolved k)) \<or>
    (\<exists>n. night = Some n \<and> keep \<notin> set (filter (\<lambda>b. b \<noteq> []) retire) \<and>
       keep \<in> set (map lk_booking (to_list 100 (find_many (on_triple t r n) (locks d)))) \<and>
       locks d' = delete_many (retire_filter t r n (filter (\<lambda>b. b \<noteq> []) retire)) (locks d) \<and>
       bookings d' = bookings d \<and>
       (\<forall>k. res = Resolved k \<longrightarrow> count_documents (on_triple t r n) (locks d') = 1))"
proof (cases night)
  case None
  with assms show ?thesis by (auto simp: manual_resolve_room_night_lock_duplicate_def)
next
  case (Some n)
  let ?ids = "filter (\<lambda>b. b \<noteq> []) retire"
  let ?ex = "map lk_booking (to_list 100 (find_many (on_triple t r n) (locks d)))"
  show ?thesis
  proof (cases "t = [] \<or> r = [] \<or> keep = [] \<or> ?ids = [] \<or> keep \<in> set ?ids \<or> keep \<notin> set ?ex \<or> \<not> set ?ids \<subseteq> set ?ex")
    case True
    have "\<exists>m. manual_resolve_room_night_lock_duplicate en t r night keep retire actor d = (d, Skipped m)"
      unfolding manual_resolve_room_night_lock_duplicate_def Let_def option.case Some using True
      by (simp only: if_True if_False split: if_split) blast
    with assms show ?thesis by auto
  next
    case False
    let ?d1 = "d\<lparr>locks := delete_many (retire_filter t r n ?ids) (locks d)\<rparr>"
    have "locks d' = locks ?d1 \<and> bookings d' = bookings d \<and>
        (\<forall>k. res = Resolved k \<longrightarrow> count_documents (on_triple t r n) (locks ?d1) = 1)"
      using assms False
      unfolding manual_resolve_room_night_lock_duplicate_def Let_def option.case Some
      by (simp only: de_Morgan_disj not_not if_False if_True simp_thms)
         (auto simp: repair_audit_def split: if_splits)
    with Some False show ?thesis by auto
  qed
qed

text \<open>
  Manual repair deletes only what the operator named: a lock that disappears is on the
  given room night and belongs to one of the bookings to retire; the keeper's lock always
  stays, and a success leaves it as the only lock of the night.
\<close>

theorem manual_repair_scope:
  assumes "manual_resolve_room_night_lock_duplicate en t r night keep retire actor d = (d', res)"
  shows "bookings d' = bookings d \<and> set (locks d') \<subseteq> set (locks d) \<and>
    (\<forall>l \<in> set (locks d). l \<notin> set (locks d') \<longrightarrow>
       night = Some (lk_night l) \<and> lk_tenant l = t \<and> lk_room l = r \<and> lk_booking l \<in> set retire \<and> lk_booking l \<noteq> keep) \<and>
    (\<forall>k. res = Resolved k \<longrightarrow> (\<exists>n l. night = Some n \<and> find_many (on_triple t r n) (locks d') = [l] \<and> lk_booking l = keep))"
proof -
  let ?ids = "filter (\<lambda>b. b \<noteq> []) retire"
  from manual_cases[OF assms] consider (refused) "d' = d" "\<forall>k. res \<noteq> Resolved k"
    | (deleted) n where "night = Some n" "keep \<notin> set ?ids"
        "keep \<in> set (map lk_booking (to_list 100 (find_many (on_triple t r n) (locks d))))"
        "locks d' = delete_many (retire_filter t r n ?ids) (locks d)" "bookings d' = bookings d"
        "\<forall>k. res = Resolved k \<longrightarrow> count_documents (on_triple t r n) (locks d') = 1"
    by blast
  then show ?thesis
  proof cases
    case refused
    then show ?thesis by simp
  next
    case (deleted n)
    note n = deleted(1) and keep = deleted(2,3) and ls = deleted(4,5) and one = deleted(6)
  from keep(2) obtain l where l: "l \<in> set (locks d)" "on_triple t r n l" "lk_booking l = keep"
    by (auto simp: to_list_def store_simps dest!: in_set_takeD)
  with keep(1) have lin: "l \<in> set (find_many (on_triple t r n) (locks d'))"
    by (auto simp: ls store_simps retire_filter_def)
  have "\<exists>n l. night = Some n \<and> find_many (on_triple t r n) (locks d') = [l] \<and> lk_booking l = keep" if k: "res = Resolved k" for k
  proof -
    obtain x where "find_many (on_triple t r n) (locks d') = [x]"
      using one k by (auto simp: count_documents_def find_many_def length_Suc_conv)
    with lin l(3) n show ?thesis by auto
  qed
  then show ?thesis
    using n keep(1) ls by (auto simp: store_simps retire_filter_def on_triple_def)
  qed
qed

theorem manual_repair_scope_witness:
  "\<exists>d'. manual_resolve_room_night_lock_duplicate quiet_env ''t1'' ''101'' (Some 7) ''bk1'' [''gone''] ''ops'' dup_db
     = (d', Resolved 1) \<and> night_lock ''bk1'' 7 \<in> set (locks d')"
proof -
  have "snd (manual_resolve_room_night_lock_duplicate quiet_env ''t1'' ''101'' (Some 7) ''bk1'' [''gone''] ''ops'' dup_db)
    = Resolved 1" by code_simp
  from code_pair[OF this] obtain d' where r: "manual_resolve_room_night_lock_duplicate quiet_env ''t1'' ''101'' (Some 7) ''bk1'' [''gone''] ''ops'' dup_db
    = (d', Resolved 1)" ..
  have "night_lock ''bk1'' 7 \<in> set (locks dup_db)" "lk_booking (night_lock ''bk1'' 7) = ''bk1''"
    by (simp_all add: dup_db_def night_lock_def)
  with manual_repair_scope[OF r] r show ?thesis by blast
qed

end
