(* ===== verification/ReservationLifecycle.thy ===== *)
theory ReservationLifecycle
  imports LockRepair
begin

text \<open>
  The reservation lifecycle (modules/pms_core/reservation_state_machine.py): the table of
  valid transitions, the overbooking and duplicate checks, cancellation, no-show, and the
  room status repair after a move.

  The locale \<open>transition_table\<close> is the contract of a status table with terminal states;
  \<open>one_way_table\<close> adds a rank that every change increases, so no status is ever revisited.
\<close>

section \<open>Status tables\<close>

locale transition_table =
  fixes allowed :: "'s \<Rightarrow> 's list" and terminal :: "'s set"
  assumes terminal_stuck: "s \<in> terminal \<Longrightarrow> allowed s = []"
begin

definition moves :: "'s \<Rightarrow> 's \<Rightarrow> bool" where
  "moves s t \<longleftrightarrow> s = t \<or> t \<in> set (allowed s)"

lemma terminal_absorbing: "moves\<^sup>*\<^sup>* s t \<Longrightarrow> s \<in> terminal \<Longrightarrow> t = s"
  by (induction rule: rtranclp_induct) (auto simp: moves_def terminal_stuck)

end

locale one_way_table = transition_table allowed terminal
  for allowed :: "'s \<Rightarrow> 's list" and terminal :: "'s set" +
  fixes rank :: "'s \<Rightarrow> nat"
  assumes rank_up: "t \<in> set (allowed s) \<Longrightarrow> rank s < rank t"
begin

lemma rank_mono: "moves\<^sup>*\<^sup>* s t \<Longrightarrow> s = t \<or> rank s < rank t"
  by (induction rule: rtranclp_induct) (auto simp: moves_def dest: rank_up)

lemma no_return: "moves\<^sup>*\<^sup>* s t \<Longrightarrow> moves\<^sup>*\<^sup>* t s \<Longrightarrow> s = t"
  using rank_mono[of s t] rank_mono[of t s] by auto

end

definition valid_transitions :: "(string \<times> string list) list" where
  "valid_transitions =
     [(''pending'', [''confirmed'', ''guaranteed'', ''cancelled'']),
      (''confirmed'', [''checked_in'', ''cancelled'', ''no_show'', ''guaranteed'']),
      (''guaranteed'', [''checked_in'', ''cancelled'', ''no_show'']),
      (''checked_in'', [''checked_out'']),
      (''checked_out'', []),
      (''cancelled'', []),
      (''no_show'', [])]"

definition non_cancellable_states :: "string list" where
  "non_cancellable_states = [''checked_in'', ''checked_out'', ''cancelled'', ''no_show'']"

definition non_noshowable_states :: "string list" where
  "non_noshowable_states = [''checked_in'', ''checked_out'', ''cancelled'', ''no_show'']"

definition active_booking_states :: "string list" where
  "active_booking_states = [''pending'', ''confirmed'', ''guaranteed'', ''checked_in'']"

text \<open>\<open>VALID_TRANSITIONS.get(status, [])\<close>\<close>

definition allowed_next :: "string \<Rightarrow> string list" where
  "allowed_next s = get_default [] (map_of valid_transitions s)"

datatype transition_reason = NoChange | Ok | NotAllowed

definition validate_transition :: "string \<Rightarrow> string \<Rightarrow> bool \<times> transition_reason" where
  "validate_transition current new =
     (if current = new then (True, NoChange)
      else if new \<notin> set (allowed_next current) then (False, NotAllowed)
      else (True, Ok))"

text \<open>The order of the stages of a stay.\<close>

definition stage_rank :: "string \<Rightarrow> nat" where
  "stage_rank s = get_default 0
     (map_of [(''pending'', 1), (''confirmed'', 2), (''guaranteed'', 3), (''checked_in'', 4),
              (''checked_out'', 5), (''cancelled'', 5), (''no_show'', 5)] s)"

interpretation reservation_states: one_way_table allowed_next
  "{''checked_out'', ''cancelled'', ''no_show''}" stage_rank
proof unfold_locales
  show "allowed_next s = []" if "s \<in> {''checked_out'', ''cancelled'', ''no_show''}" for s
    using that by (auto simp: allowed_next_def valid_transitions_def)
  show "stage_rank s < stage_rank t" if "t \<in> set (allowed_next s)" for s t
    using that
    by (auto simp: allowed_next_def valid_transitions_def stage_rank_def split: if_splits)
qed

section \<open>Overbooking and duplicate checks\<close>

definition check_overbooking ::
  "string \<Rightarrow> string \<Rightarrow> iso \<Rightarrow> iso \<Rightarrow> string \<Rightarrow> db \<Rightarrow> bool \<times> booking list" where
  "check_overbooking tenant room check_in check_out exclude d =
     (let conflicts = to_list 10 (find_many (\<lambda>b. b_tenant b = tenant \<and> b_room b = Some room
                \<and> (\<exists>s \<in> set active_booking_states. b_status b = Some s)
                \<and> (case b_check_in b of None \<Rightarrow> False | Some c \<Rightarrow> iso_less c check_out)
                \<and> (case b_check_out b of None \<Rightarrow> False | Some c \<Rightarrow> iso_less check_in c)
                \<and> (exclude \<noteq> [] \<longrightarrow> b_id b \<noteq> exclude)) (bookings d))
      in (conflicts \<noteq> [], conflicts))"

definition check_duplicate_reservation ::
  "string \<Rightarrow> string option \<Rightarrow> string option \<Rightarrow> iso option \<Rightarrow> iso option \<Rightarrow> db \<Rightarrow> booking option" where
  "check_duplicate_reservation tenant guest room check_in check_out d =
     find_one (\<lambda>b. b_tenant b = tenant \<and> b_guest_id b = guest \<and> b_room b = room
                 \<and> b_check_in b = check_in \<and> b_check_out b = check_out
                 \<and> (\<exists>s \<in> set active_booking_states. b_status b = Some s)) (bookings d)"

section \<open>Cancellation and no-show\<close>

definition jiso :: "iso option \<Rightarrow> jval" where
  "jiso v = (case v of None \<Rightarrow> JNull | Some d \<Rightarrow> JIso d)"

text \<open>\<open>$set\<close> of the status and of the marks of the change, on the one booking with the id.\<close>

definition set_status ::
  "string \<Rightarrow> string \<Rightarrow> string \<Rightarrow> metadata \<Rightarrow> booking list \<Rightarrow> booking list" where
  "set_status tenant i status marks =
     update_one (\<lambda>b. booking_key b = (tenant, i))
       (\<lambda>b. b\<lparr>b_status := Some status, b_marks := fold (\<lambda>(k, v). dict_set k v) marks (b_marks b)\<rparr>)"

definition pms_audit_row :: "string \<Rightarrow> string \<Rightarrow> string \<Rightarrow> string \<Rightarrow> metadata \<Rightarrow> audit" where
  "pms_audit_row tenant i action user changes =
     \<lparr>a_tenant = tenant, a_user = user, a_action = action, a_entity_type = ''reservation'',
      a_entity = i, a_changes = changes\<rparr>"

definition default_max_attempts :: int where "default_max_attempts = 5"

definition enqueue_booking_event :: "env \<Rightarrow> string \<Rightarrow> string \<Rightarrow> string \<Rightarrow> metadata \<Rightarrow> db \<Rightarrow> db" where
  "enqueue_booking_event en tenant event_type i payload d =
     d\<lparr>outbox := fst (enqueue_outbox_event (digest en) (now en) (new_id en d) tenant event_type
         ''booking'' i payload None (Some tenant) (new_id en d) default_max_attempts None (outbox d))\<rparr>"

text \<open>The cancellation notification; the guest name and dates of its text are left out.\<close>

definition cancel_notification :: "env \<Rightarrow> string \<Rightarrow> booking \<Rightarrow> db \<Rightarrow> db" where
  "cancel_notification en tenant b d =
     (let room_number =
            (if \<not> truthy (b_room_number b) \<and> truthy (b_room b) then
               (case find_one (\<lambda>r. r_tenant r = tenant \<and> Some (r_id r) = b_room b) (rooms d) of
                  None \<Rightarrow> '''' | Some r \<Rightarrow> get_default '''' (r_number r))
             else get_default '''' (b_room_number b));
          note = \<lparr>n_tenant = tenant, n_type = ''reservation_cancelled'', n_severity = ''warning'',
                  n_room_label = ''Oda '' @ room_number, n_related = b_id b, n_data = []\<rparr>
      in if notify_up en note then d\<lparr>notifications := notifications d @ [note]\<rparr> else d)"

text \<open>\<open>booking\<close> is the caller's copy of the document.\<close>

definition handle_cancellation ::
  "env \<Rightarrow> string \<Rightarrow> booking \<Rightarrow> string \<Rightarrow> string option \<Rightarrow> db \<Rightarrow> db \<times> bool" where
  "handle_cancellation en tenant booking cancelled_by reason d =
     (let current = get_default '''' (b_status booking); i = b_id booking in
      if current \<in> set non_cancellable_states then (d, False)
      else
        (let why = str_or reason ''No reason provided'';
             marks = [(''cancelled_at'', JTime (now en)), (''cancelled_by'', JStr cancelled_by),
                      (''cancellation_reason'', JStr why), (''updated_at'', JTime (now en))];
             d1 = d\<lparr>bookings := set_status tenant i ''cancelled'' marks (bookings d)\<rparr>;
             d2 = fst (release_booking_nights en tenant i (''cancelled:'' @ str_or reason ''no_reason'')
                         (b_corr booking) d1);
             d3 = cancel_notification en tenant booking d2;
             d4 = d3\<lparr>pms_audit := pms_audit d3 @ [pms_audit_row tenant i ''cancellation'' cancelled_by
                       [(''previous_status'', jopt (b_status booking)), (''new_status'', JStr ''cancelled''),
                        (''reason'', jopt reason), (''timestamp'', JTime (now en))]]\<rparr>;
             d5 = enqueue_booking_event en tenant ''booking.cancelled.v1'' i
                    [(''booking_id'', JStr i), (''guest_id'', jopt (b_guest_id booking)),
                     (''room_id'', jopt (b_room booking)), (''check_in'', jiso (b_check_in booking)),
                     (''check_out'', jiso (b_check_out booking)), (''property_id'', JStr tenant),
                     (''previous_status'', jopt (b_status booking)), (''cancellation_reason'', JStr why),
                     (''cancelled_by'', JStr cancelled_by)] d4
         in (d5, True)))"

definition handle_no_show ::
  "env \<Rightarrow> string \<Rightarrow> booking \<Rightarrow> string \<Rightarrow> db \<Rightarrow> db \<times> bool" where
  "handle_no_show en tenant booking marked_by d =
     (let current = get_default '''' (b_status booking); i = b_id booking in
      if current \<in> set non_noshowable_states then (d, False)
      else if \<not> fst (validate_transition current ''no_show'') then (d, False)
      else
        (let marks = [(''no_show_at'', JTime (now en)), (''no_show_marked_by'', JStr marked_by),
                      (''updated_at'', JTime (now en))];
             d1 = d\<lparr>bookings := set_status tenant i ''no_show'' marks (bookings d)\<rparr>;
             d2 = fst (release_booking_nights en tenant i
                         (''no_show:'' @ (if marked_by = [] then ''system'' else marked_by)) (b_corr booking) d1);
             d3 = d2\<lparr>pms_audit := pms_audit d2 @ [pms_audit_row tenant i ''no_show'' marked_by
                       [(''previous_status'', jopt (b_status booking)), (''new_status'', JStr ''no_show''),
                        (''timestamp'', JTime (now en))]]\<rparr>;
             d4 = enqueue_booking_event en tenant ''booking.no_show.v1'' i
                    [(''booking_id'', JStr i), (''guest_id'', jopt (b_guest_id booking)),
                     (''room_id'', jopt (b_room booking)), (''check_in'', jiso (b_check_in booking)),
                     (''check_out'', jiso (b_check_out booking)), (''property_id'', JStr tenant),
                     (''previous_status'', jopt (b_status booking)), (''new_status'', JStr ''no_show''),
                     (''marked_by'', JStr marked_by), (''no_show_at'', JTime (now en)),
                     (''inventory_released'', JBool True)] d3
         in (d4, True)))"

section \<open>Room status after a move\<close>

definition recalculate_availability_after_modification ::
  "string \<Rightarrow> string option \<Rightarrow> string option \<Rightarrow> string \<Rightarrow> db \<Rightarrow> db" where
  "recalculate_availability_after_modification tenant old_room new_room booking_id d =
     (if truthy old_room \<and> old_room \<noteq> new_room then
        (let active = count_documents (\<lambda>b. b_tenant b = tenant \<and> b_room b = old_room
                        \<and> b_status b = Some ''checked_in'' \<and> b_id b \<noteq> booking_id) (bookings d);
             here = (\<lambda>r. Some (r_id r) = old_room \<and> r_tenant r = tenant)
         in if active = 0 then
              (case find_one here (rooms d) of
                 None \<Rightarrow> d
               | Some r \<Rightarrow>
                   if r_status r = ''occupied'' then
                     d\<lparr>rooms := update_one here (\<lambda>r. r\<lparr>r_status := ''dirty'', r_current := None\<rparr>) (rooms d)\<rparr>
                   else d)
            else d)
      else d)"

text \<open>
  The lifecycle only moves forward: no sequence of status changes that
  \<open>validate_transition\<close> accepts leaves a checked-out, cancelled or no-show reservation, and no
  such sequence ever returns to a status it has left.
\<close>

theorem lifecycle_moves_forward:
  assumes "(\<lambda>s t. fst (validate_transition s t))\<^sup>*\<^sup>* s t"
  shows "(s \<in> {''checked_out'', ''cancelled'', ''no_show''} \<longrightarrow> t = s) \<and>
    ((\<lambda>s t. fst (validate_transition s t))\<^sup>*\<^sup>* t s \<longrightarrow> t = s)"
proof -
  have "(\<lambda>s t. fst (validate_transition s t)) = reservation_states.moves"
    by (auto simp: fun_eq_iff validate_transition_def reservation_states.moves_def)
  then show ?thesis
    using assms reservation_states.terminal_absorbing[of s t] reservation_states.no_return[of s t] by auto
qed

theorem lifecycle_moves_forward_witness:
  "(\<lambda>s t. fst (validate_transition s t))\<^sup>*\<^sup>* ''pending'' ''checked_out'' \<and>
   \<not> (\<lambda>s t. fst (validate_transition s t))\<^sup>*\<^sup>* ''checked_out'' ''pending''"
proof -
  let ?v = "\<lambda>s t. fst (validate_transition s t)"
  have "?v ''pending'' ''confirmed''" "?v ''confirmed'' ''checked_in''" "?v ''checked_in'' ''checked_out''"
    by code_simp+
  then have r: "?v\<^sup>*\<^sup>* ''pending'' ''checked_out''"
    by (meson r_into_rtranclp rtranclp.rtrancl_into_rtrancl)
  from lifecycle_moves_forward[OF r] r show ?thesis by auto
qed

section \<open>Leaving the hotel's books\<close>

lemma dict_fold_key: "booking_key (b\<lparr>b_status := s, b_marks := m\<rparr>) = booking_key b"
  by (simp add: booking_key_def)

lemma set_status_is: "set_status t i st m bs = update_one (\<lambda>b. booking_key b = (t, i))
    (\<lambda>b. b\<lparr>b_status := Some st, b_marks := fold (\<lambda>(k, v). dict_set k v) m (b_marks b)\<rparr>) bs"
  by (simp add: set_status_def)

lemma release_frame:
  "outbox (fst (release_booking_nights en t i r c d)) = outbox d"
  "pms_audit (fst (release_booking_nights en t i r c d)) = pms_audit d"
  by (simp_all add: release_booking_nights_def Let_def)

lemma cancel_notification_frame [simp]:
  "locks (cancel_notification en t b d) = locks d"
  "bookings (cancel_notification en t b d) = bookings d"
  "outbox (cancel_notification en t b d) = outbox d"
  "pms_audit (cancel_notification en t b d) = pms_audit d"
  by (simp_all add: cancel_notification_def Let_def)

lemma enqueue_booking_frame [simp]:
  "locks (enqueue_booking_event en t ty i p d) = locks d"
  "bookings (enqueue_booking_event en t ty i p d) = bookings d"
  "pms_audit (enqueue_booking_event en t ty i p d) = pms_audit d"
  by (simp_all add: enqueue_booking_event_def)

lemma hotel_ok_frame: "locks d' = locks d \<Longrightarrow> bookings d' = bookings d \<Longrightarrow> hotel_ok d' = hotel_ok d"
  by (simp add: hotel_ok_def locks_ok_def holds_its_nights_def locked_for_def)

lemma enqueue_booking_queued:
  "\<exists>e \<in> set (outbox (enqueue_booking_event en t ty i p d)). ob_key e = build_idempotency_key (digest en) t ty i p"
  by (auto simp: enqueue_booking_event_def enqueue_queue intro: bexI[rotated])

lemma status_and_release:
  assumes "hotel_ok d" "terminal_status (Some st)"
    and "locks d1 = locks d" "bookings d1 = set_status t i st m (bookings d)"
  shows "hotel_ok (fst (release_booking_nights en t i r c d1)) \<and>
    set (locks (fst (release_booking_nights en t i r c d1))) = {l \<in> set (locks d). (lk_tenant l, lk_booking l) \<noteq> (t, i)} \<and>
    bookings (fst (release_booking_nights en t i r c d1)) = set_status t i st m (bookings d)"
proof -
  obtain d' n where r: "release_booking_nights en t i r c d1 = (d', n)" by (metis prod.exhaust)
  from release_after_terminal[OF assms(1) _ _ assms(3) assms(4)[unfolded set_status_is] r] assms(2,4)
  show ?thesis by (simp add: r dict_fold_key live_def)
qed

text \<open>
  Cancelling a reservation: refused for a guest in house or a finished stay, with
  nothing changed; otherwise the booking is cancelled, every night it held is free and no
  other lock is touched, one audit row is written, the cancellation event is in the outbox,
  and the invariant of the booking tables holds.
\<close>

theorem cancellation_outcome:
  assumes "hotel_ok d" "handle_cancellation en t b by reason d = (d', ok)"
  shows "if get_default '''' (b_status b) \<in> set [''checked_in'', ''checked_out'', ''cancelled'', ''no_show'']
    then \<not> ok \<and> d' = d
    else ok \<and> hotel_ok d' \<and>
      set (locks d') = {l \<in> set (locks d). (lk_tenant l, lk_booking l) \<noteq> (t, b_id b)} \<and>
      (\<exists>m. bookings d' = set_status t (b_id b) ''cancelled'' m (bookings d)) \<and>
      (\<exists>row. pms_audit d' = pms_audit d @ [row] \<and> a_entity row = b_id b \<and> a_action row = ''cancellation'') \<and>
      (\<exists>e \<in> set (outbox d'). \<exists>p. ob_key e = build_idempotency_key (digest en) t ''booking.cancelled.v1'' (b_id b) p)"
proof (cases "get_default '''' (b_status b) \<in> set non_cancellable_states")
  case True
  with assms show ?thesis by (auto simp: handle_cancellation_def non_cancellable_states_def Let_def)
next
  case False
  let ?m = "[(''cancelled_at'', JTime (now en)), (''cancelled_by'', JStr by),
      (''cancellation_reason'', JStr (str_or reason ''No reason provided'')), (''updated_at'', JTime (now en))]"
  let ?d1 = "d\<lparr>bookings := set_status t (b_id b) ''cancelled'' ?m (bookings d)\<rparr>"
  let ?d2 = "fst (release_booking_nights en t (b_id b) (''cancelled:'' @ str_or reason ''no_reason'') (b_corr b) ?d1)"
  have tm: "terminal_status (Some ''cancelled'')" by code_simp
  note rel = status_and_release[OF assms(1) tm, of ?d1 t "b_id b" ?m]
  have d': "locks d' = locks ?d2" "bookings d' = bookings ?d2" "ok"
    using assms(2) False by (auto simp: handle_cancellation_def Let_def)
  have "\<exists>row. pms_audit d' = pms_audit d @ [row] \<and> a_entity row = b_id b \<and> a_action row = ''cancellation''"
    using assms(2) False by (auto simp: handle_cancellation_def Let_def release_frame pms_audit_row_def)
  moreover have "\<exists>e \<in> set (outbox d'). \<exists>p. ob_key e = build_idempotency_key (digest en) t ''booking.cancelled.v1'' (b_id b) p"
    using assms(2) False enqueue_booking_queued by (fastforce simp: handle_cancellation_def Let_def)
  ultimately show ?thesis
    using rel d' hotel_ok_frame[OF d'(1,2)] False by (auto simp: non_cancellable_states_def)
qed

theorem cancellation_outcome_witness:
  "\<exists>d'. handle_cancellation quiet_env ''t1'' (stay_booking ''bk1'' 7 8) ''fd'' None busy_db = (d', True)
     \<and> hotel_ok d' \<and> night_lock ''bk1'' 7 \<notin> set (locks d')"
proof -
  have "snd (handle_cancellation quiet_env ''t1'' (stay_booking ''bk1'' 7 8) ''fd'' None busy_db) = True" by code_simp
  from code_pair[OF this] obtain d' where
    r: "handle_cancellation quiet_env ''t1'' (stay_booking ''bk1'' 7 8) ''fd'' None busy_db = (d', True)" ..
  have "get_default '''' (b_status (stay_booking ''bk1'' 7 8)) = ''confirmed''" "b_id (stay_booking ''bk1'' 7 8) = ''bk1''"
    by (simp_all add: stay_booking_def)
  with cancellation_outcome[OF busy_hotel_ok r] r show ?thesis by (auto simp: night_lock_def)
qed

text \<open>
  Marking a no-show: accepted only for confirmed and guaranteed reservations, where it
  frees exactly the nights of the booking, keeps the invariant, writes one audit row and
  queues the event; a second call changes nothing.
\<close>

theorem no_show_outcome:
  assumes "hotel_ok d" "handle_no_show en t b by d = (d', ok)"
  shows "if get_default '''' (b_status b) \<in> set [''confirmed'', ''guaranteed'']
    then ok \<and> hotel_ok d' \<and>
      set (locks d') = {l \<in> set (locks d). (lk_tenant l, lk_booking l) \<noteq> (t, b_id b)} \<and>
      (\<exists>m. bookings d' = set_status t (b_id b) ''no_show'' m (bookings d)) \<and>
      (\<exists>row. pms_audit d' = pms_audit d @ [row] \<and> a_entity row = b_id b \<and> a_action row = ''no_show'') \<and>
      (\<exists>e \<in> set (outbox d'). \<exists>p. ob_key e = build_idempotency_key (digest en) t ''booking.no_show.v1'' (b_id b) p)
    else \<not> ok \<and> d' = d"
proof -
  have accepts: "fst (validate_transition s ''no_show'') \<longleftrightarrow> s \<in> set [''confirmed'', ''guaranteed'', ''no_show'']" for s
    by (auto simp: validate_transition_def allowed_next_def valid_transitions_def split: if_splits)
  show ?thesis
  proof (cases "get_default '''' (b_status b) \<in> set [''confirmed'', ''guaranteed'']")
    case False
    with assms show ?thesis
      by (auto simp: handle_no_show_def accepts non_noshowable_states_def Let_def split: if_splits)
  next
    case True
    then have pass: "get_default '''' (b_status b) \<notin> set non_noshowable_states"
      "fst (validate_transition (get_default '''' (b_status b)) ''no_show'')"
      by (auto simp: non_noshowable_states_def accepts)
    let ?m = "[(''no_show_at'', JTime (now en)), (''no_show_marked_by'', JStr by), (''updated_at'', JTime (now en))]"
    let ?d1 = "d\<lparr>bookings := set_status t (b_id b) ''no_show'' ?m (bookings d)\<rparr>"
    let ?d2 = "fst (release_booking_nights en t (b_id b) (''no_show:'' @ (if by = [] then ''system'' else by)) (b_corr b) ?d1)"
    have tm: "terminal_status (Some ''no_show'')" by code_simp
    note rel = status_and_release[OF assms(1) tm, of ?d1 t "b_id b" ?m]
    have d': "locks d' = locks ?d2" "bookings d' = bookings ?d2" "ok"
      using assms(2) pass by (auto simp: handle_no_show_def Let_def)
    have "\<exists>row. pms_audit d' = pms_audit d @ [row] \<and> a_entity row = b_id b \<and> a_action row = ''no_show''"
      using assms(2) pass by (auto simp: handle_no_show_def Let_def release_frame pms_audit_row_def)
    moreover have "\<exists>e \<in> set (outbox d'). \<exists>p. ob_key e = build_idempotency_key (digest en) t ''booking.no_show.v1'' (b_id b) p"
      using assms(2) pass enqueue_booking_queued by (fastforce simp: handle_no_show_def Let_def)
    ultimately show ?thesis using rel d' hotel_ok_frame[OF d'(1,2)] True by auto
  qed
qed

theorem no_show_outcome_witness:
  "\<exists>d'. handle_no_show quiet_env ''t1'' (stay_booking ''bk1'' 7 8) ''fd'' busy_db = (d', True) \<and> hotel_ok d'"
proof -
  have "snd (handle_no_show quiet_env ''t1'' (stay_booking ''bk1'' 7 8) ''fd'' busy_db) = True" by code_simp
  from code_pair[OF this] obtain d' where
    r: "handle_no_show quiet_env ''t1'' (stay_booking ''bk1'' 7 8) ''fd'' busy_db = (d', True)" ..
  from no_show_outcome[OF busy_hotel_ok r] r show ?thesis by (auto split: if_splits)
qed

text \<open>
  Cancellation trusts the caller's copy of the booking: the state guard reads the copy
  and the update is not conditioned on the stored status, so with a copy read before the
  guest checked in, a booking that is checked in is cancelled and its nights released.
\<close>

theorem stale_copy_cancels_checked_in:
  assumes "hotel_ok d" "stored \<in> set (bookings d)" "b_status stored = Some ''checked_in''"
    and "booking_key stored = (t, b_id copy)" "b_status copy = Some ''confirmed''"
    and "handle_cancellation en t copy by reason d = (d', ok)"
  shows "ok \<and> (\<exists>b \<in> set (bookings d'). booking_key b = (t, b_id copy) \<and> b_status b = Some ''cancelled'') \<and>
    (\<forall>l \<in> set (locks d'). (lk_tenant l, lk_booking l) \<noteq> (t, b_id copy))"
proof -
  let ?m = "[(''cancelled_at'', JTime (now en)), (''cancelled_by'', JStr by),
      (''cancellation_reason'', JStr (str_or reason ''No reason provided'')), (''updated_at'', JTime (now en))]"
  let ?d1 = "d\<lparr>bookings := set_status t (b_id copy) ''cancelled'' ?m (bookings d)\<rparr>"
  have tm: "terminal_status (Some ''cancelled'')" by code_simp
  have d': "locks d' = locks (fst (release_booking_nights en t (b_id copy) (''cancelled:'' @ str_or reason ''no_reason'') (b_corr copy) ?d1))"
    "bookings d' = set_status t (b_id copy) ''cancelled'' ?m (bookings d)" "ok"
    using assms(5,6) by (auto simp: handle_cancellation_def non_cancellable_states_def Let_def release_result)
  have "distinct (map booking_key (bookings d))" using assms(1) by (simp add: hotel_ok_def)
  then have "bookings d' = update_many (\<lambda>b. booking_key b = (t, b_id copy))
      (\<lambda>b. b\<lparr>b_status := Some ''cancelled'', b_marks := fold (\<lambda>(k, v). dict_set k v) ?m (b_marks b)\<rparr>) (bookings d)"
    unfolding d'(2) set_status_is by (rule update_one_is_many)
  with update_many_hit[OF assms(2), of "\<lambda>b. booking_key b = (t, b_id copy)"] assms(4)
  have "stored\<lparr>b_status := Some ''cancelled'', b_marks := fold (\<lambda>(k, v). dict_set k v) ?m (b_marks stored)\<rparr>
      \<in> set (bookings d')" by simp
  then have "\<exists>b \<in> set (bookings d'). booking_key b = (t, b_id copy) \<and> b_status b = Some ''cancelled''"
    by (rule bexI[rotated]) (simp add: dict_fold_key assms(4))
  then show ?thesis
    using status_and_release[OF assms(1) tm, of ?d1 t "b_id copy" ?m] d' by auto
qed

theorem stale_copy_cancels_checked_in_witness:
  "\<exists>d'. handle_cancellation quiet_env ''t1'' (stay_booking ''bk1'' 7 8) ''fd'' None
       (busy_db\<lparr>bookings := [(stay_booking ''bk1'' 7 8)\<lparr>b_status := Some ''checked_in''\<rparr>]\<rparr>) = (d', True)
     \<and> list_ex (\<lambda>b. b_status b = Some ''cancelled'') (bookings d')"
proof -
  let ?s = "(stay_booking ''bk1'' 7 8)\<lparr>b_status := Some ''checked_in''\<rparr>"
  let ?d = "busy_db\<lparr>bookings := [?s]\<rparr>"
  have ok: "hotel_ok ?d"
    by (auto simp: busy_db_def hotel_ok_def small_hotel locks_ok_def lock_key_def
      holds_its_nights_def nights_of_def stay_of_def locked_for_def)
  obtain d' q where r: "handle_cancellation quiet_env ''t1'' (stay_booking ''bk1'' 7 8) ''fd'' None ?d = (d', q)"
    by fastforce
  from stale_copy_cancels_checked_in[OF ok, of ?s "''t1''" "stay_booking ''bk1'' 7 8", OF _ _ _ _ r] r
  show ?thesis by (auto simp: stay_booking_def booking_key_def list_ex_iff)
qed

section \<open>The overbooking check against the nights\<close>

lemma check_overbooking_hit:
  assumes "b \<in> set (bookings d)" "b_tenant b = t" "b_room b = Some room" "b_status b = Some s"
    and "s \<in> set active_booking_states" "b_id b \<noteq> me"
    and "b_check_in b = Some x" "b_check_out b = Some y" "iso_less x co" "iso_less ci y"
  shows "fst (check_overbooking t room ci co me d)"
proof -
  have "to_list 10 xs \<noteq> []" if "b \<in> set xs" for xs :: "booking list"
    using that by (cases xs) (auto simp: to_list_def)
  moreover have "b \<in> set (find_many (\<lambda>b. b_tenant b = t \<and> b_room b = Some room
                \<and> (\<exists>s \<in> set active_booking_states. b_status b = Some s)
                \<and> (case b_check_in b of None \<Rightarrow> False | Some c \<Rightarrow> iso_less c co)
                \<and> (case b_check_out b of None \<Rightarrow> False | Some c \<Rightarrow> iso_less ci c)
                \<and> (me \<noteq> [] \<longrightarrow> b_id b \<noteq> me)) (bookings d))"
    using assms by (auto simp: store_simps)
  ultimately show ?thesis unfolding check_overbooking_def Let_def by simp
qed

text \<open>
  The overbooking check of the lifecycle service errs on one side only: a pending,
  confirmed, guaranteed or checked-in booking of the room that shares a night with the
  request is always reported; but because it compares raw timestamps it also reports a
  booking that departs later on the very day the new guest arrives, where no night is shared
  and the room-night locks allow the sale.
\<close>

theorem check_overbooking_vs_nights:
  assumes "b \<in> set (bookings d)" "b_tenant b = t" "b_room b = Some room" "b_status b = Some s"
    and "s \<in> set [''pending'', ''confirmed'', ''guaranteed'', ''checked_in'']" "b_id b \<noteq> me"
    and "b_check_in b = Some x" "b_check_out b = Some y" "night_dates ci co = Some nights"
  shows "(set nights \<inter> nights_of b \<noteq> {} \<longrightarrow> fst (check_overbooking t room ci co me d)) \<and>
    (\<forall>day p q. iso_less x co \<and> ci = Iso day p \<and> y = Iso day q \<and> p < q \<longrightarrow>
       fst (check_overbooking t room ci co me d) \<and> set nights \<inter> nights_of b = {})"
proof (intro conjI impI allI)
  note hit = check_overbooking_hit[OF assms(1-4) _ assms(6-8)]
  have s: "s \<in> set active_booking_states" using assms(5) by (simp add: active_booking_states_def)
  from assms(9) obtain a z where az: "iso_date ci = Some a" "iso_date co = Some z" "nights = nights_from a z"
    by (auto simp: night_dates_Some)
  have nb: "\<exists>e f. iso_date x = Some e \<and> iso_date y = Some f \<and> e \<le> n \<and> n < f" if "n \<in> nights_of b" for n
    using that assms(7,8) by (auto simp: nights_of_def stay_of_def night_dates_def split: option.splits)
  show "fst (check_overbooking t room ci co me d)" if share: "set nights \<inter> nights_of b \<noteq> {}"
  proof -
    from share obtain n where n: "n \<in> set nights" "n \<in> nights_of b" by blast
    from nb[OF n(2)] obtain e f where "iso_date x = Some e" "iso_date y = Some f" "e \<le> n" "n < f" by blast
    with n(1) az show ?thesis by (intro hit[OF s]) (auto intro: iso_less_dates)
  qed
  fix day p q
  assume h: "iso_less x co \<and> ci = Iso day p \<and> y = Iso day q \<and> p < q"
  then show "fst (check_overbooking t room ci co me d)"
    by (intro hit[OF s]) (auto simp: iso_less_def)
  show "set nights \<inter> nights_of b = {}"
    using h az nb by fastforce
qed

theorem check_overbooking_vs_nights_witness:
  "fst (check_overbooking ''t1'' ''101'' (Iso 8 0) (Iso 9 0) ''bk2'' busy_db) \<and>
   find_overlapping_active_booking ''t1'' ''101'' (Iso 8 0) (Iso 9 0) ''bk2'' busy_db = None"
proof -
  have m: "stay_booking ''bk1'' 7 8 \<in> set (bookings busy_db)" by (simp add: busy_db_def small_db_def)
  have n: "night_dates (Iso 8 0) (Iso 9 0) = Some [8]" by code_simp
  have f: "find_overlapping_active_booking ''t1'' ''101'' (Iso 8 0) (Iso 9 0) ''bk2'' busy_db = None" by code_simp
  have "fst (check_overbooking ''t1'' ''101'' (Iso 8 0) (Iso 9 0) ''bk2'' busy_db)"
    using check_overbooking_vs_nights[OF m, of "''t1''" "''101''" "''confirmed''" "''bk2''" "Iso 7 14" "Iso 8 11" "Iso 8 0" "Iso 9 0" "[8]"] n
    by (simp add: stay_booking_def iso_less_def)
  with f show ?thesis by simp
qed

section \<open>Room status after a move\<close>

text \<open>
  After a room change the old room is handed to housekeeping only when it is empty: its
  status changes exactly when it was occupied and no other booking is checked in there, then
  to dirty with no current booking; every other room is left alone.
\<close>

theorem room_freed_only_when_empty:
  assumes "distinct (map (\<lambda>r. (r_tenant r, r_id r)) (rooms d))" "r \<in> set (rooms d)" "old \<noteq> []"
  shows "(if r_tenant r = t \<and> r_id r = old \<and> Some old \<noteq> new \<and> r_status r = ''occupied'' \<and>
            (\<forall>b \<in> set (bookings d). b_tenant b = t \<and> b_room b = Some old \<and> b_status b = Some ''checked_in'' \<longrightarrow> b_id b = i)
          then r\<lparr>r_status := ''dirty'', r_current := None\<rparr> else r)
    \<in> set (rooms (recalculate_availability_after_modification t (Some old) new i d))"
proof -
  let ?here = "\<lambda>r. Some (r_id r) = Some old \<and> r_tenant r = t"
  let ?f = "\<lambda>r. r\<lparr>r_status := ''dirty'', r_current := None\<rparr>"
  let ?act = "\<lambda>b. b_tenant b = t \<and> b_room b = Some old \<and> b_status b = Some ''checked_in'' \<and> b_id b \<noteq> i"
  have um: "update_one ?here ?f (rooms d) = update_many ?here ?f (rooms d)"
    by (rule update_one_unique[OF assms(1), of _ "(t, old)"]) auto
  have act: "count_documents ?act (bookings d) = 0 \<longleftrightarrow>
      (\<forall>b \<in> set (bookings d). b_tenant b = t \<and> b_room b = Some old \<and> b_status b = Some ''checked_in'' \<longrightarrow> b_id b = i)"
    by (auto simp: count_documents_def filter_empty_conv)
  have found: "find_one ?here (rooms d) = Some r'" if h: "r' \<in> set (rooms d)" "?here r'" for r'
  proof -
    obtain q where q: "find_one ?here (rooms d) = Some q"
      using h find_one_None[of ?here "rooms d"] by (cases "find_one ?here (rooms d)") auto
    from find_one_Some[OF q] h distinct_map_key_eq[OF assms(1), of q r'] have "q = r'" by auto
    with q show ?thesis by simp
  qed
  show ?thesis
  proof (cases "count_documents ?act (bookings d) = 0 \<and> Some old \<noteq> new")
    case False
    then show ?thesis
      using assms(2,3) act by (auto simp: recalculate_availability_after_modification_def Let_def)
  next
    case True
    show ?thesis
    proof (cases "?here r")
      case h: True
      then show ?thesis
        using True act assms(2,3) found[OF assms(2) h] update_many_hit[OF assms(2), of ?here ?f]
        by (auto simp: recalculate_availability_after_modification_def um[simplified] Let_def)
    next
      case h: False
      then have "r \<in> set (update_many ?here ?f (rooms d))"
        using assms(2) by (force simp: update_many_def)
      with h True assms(2,3) show ?thesis
        by (auto simp: recalculate_availability_after_modification_def um[simplified] Let_def split: option.splits)
    qed
  qed
qed

theorem room_freed_only_when_empty_witness:
  "let r = \<lparr>r_tenant = ''t1'', r_id = ''101'', r_number = None, r_status = ''occupied'', r_type = None,
            r_active = None, r_virtual = None, r_current = Some ''bk1''\<rparr>
   in r\<lparr>r_status := ''dirty'', r_current := None\<rparr>
        \<in> set (rooms (recalculate_availability_after_modification ''t1'' (Some ''101'') (Some ''102'') ''bk1''
                 (busy_db\<lparr>rooms := [r]\<rparr>)))"
proof -
  define r where "r = \<lparr>r_tenant = ''t1'', r_id = ''101'', r_number = None, r_status = ''occupied'', r_type = None,
            r_active = None, r_virtual = None, r_current = Some ''bk1''\<rparr>"
  have "distinct (map (\<lambda>r. (r_tenant r, r_id r)) (rooms (busy_db\<lparr>rooms := [r]\<rparr>)))" "r \<in> set (rooms (busy_db\<lparr>rooms := [r]\<rparr>))"
    by simp_all
  from room_freed_only_when_empty[OF this, of "''101''" "''t1''" "Some ''102''" "''bk1''"]
  show ?thesis by (simp add: r_def[symmetric] Let_def) (simp add: r_def busy_db_def small_hotel)
qed

end
