(* ===== verification/RoomTypeInventory.thy ===== *)
theory RoomTypeInventory
  imports ReservationLifecycle
begin

text \<open>
  The room-type inventory (core/room_type_inventory_service.py): the locks of a night
  aggregated into sellable counts per room type, the reconciliation of the materialized
  view, and its readers.

  A Mongo \<open>$group\<close> is \<open>group_count\<close>: one row per key, in the order of first appearance.
  The key of a lock without a \<open>lock_type\<close> lacks that field, and reading it raises
  \<open>KeyError\<close>: the result \<open>None\<close> here.
\<close>

definition first_keys :: "('a \<Rightarrow> 'k) \<Rightarrow> 'a list \<Rightarrow> 'k list" where
  "first_keys k xs = rev (remdups (rev (map k xs)))"

definition group_count :: "('a \<Rightarrow> 'k) \<Rightarrow> 'a list \<Rightarrow> ('k \<times> nat) list" where
  "group_count k xs = map (\<lambda>y. (y, length (filter (\<lambda>x. k x = y) xs))) (first_keys k xs)"

record inventory_row =
  iv_tenant :: string
  iv_type :: string
  iv_date :: day
  iv_total :: nat
  iv_booking :: nat
  iv_hold :: nat
  iv_ooo :: nat
  iv_oos :: nat
  iv_sellable :: int
  iv_computed :: instant

section \<open>Computing one night\<close>

definition sellable_room :: "string \<Rightarrow> room \<Rightarrow> bool" where
  "sellable_room tenant r \<longleftrightarrow> r_tenant r = tenant \<and> r_active r \<noteq> Some False \<and> r_virtual r \<noteq> Some True"

text \<open>The room pipeline: room ids per type.\<close>

definition room_type_groups :: "string \<Rightarrow> db \<Rightarrow> (string option \<times> string list) list" where
  "room_type_groups tenant d =
     (let rs = filter (sellable_room tenant) (rooms d)
      in to_list 200 (map (\<lambda>rt. (rt, map r_id (filter (\<lambda>r. r_type r = rt) rs))) (first_keys r_type rs)))"

text \<open>The dictionaries \<open>type_totals\<close> and \<open>room_id_to_type\<close>; groups without a type are skipped.\<close>

definition type_totals :: "(string option \<times> string list) list \<Rightarrow> (string \<times> nat) list" where
  "type_totals groups =
     map (\<lambda>(rt, ids). (get_default '''' rt, length ids)) (filter (\<lambda>g. truthy (fst g)) groups)"

definition room_id_to_type :: "(string option \<times> string list) list \<Rightarrow> string \<Rightarrow> string option" where
  "room_id_to_type groups =
     map_of (rev (concat (map (\<lambda>(rt, ids). map (\<lambda>i. (i, get_default '''' rt)) ids)
                               (filter (\<lambda>g. truthy (fst g)) groups))))"

definition lock_groups :: "string \<Rightarrow> day \<Rightarrow> db \<Rightarrow> ((string \<times> string option) \<times> nat) list" where
  "lock_groups tenant date d =
     to_list 5000 (group_count (\<lambda>l. (lk_room l, lk_type l))
        (find_many (\<lambda>l. lk_tenant l = tenant \<and> lk_night l = date) (locks d)))"

definition locked_of_type ::
  "(string \<Rightarrow> string option) \<Rightarrow> ((string \<times> string option) \<times> nat) list \<Rightarrow> string \<Rightarrow> string \<Rightarrow> nat" where
  "locked_of_type type_of lgs rt lock_type =
     sum_list (map snd (filter (\<lambda>((room, ty), n). type_of room = Some rt \<and> ty = Some lock_type) lgs))"

definition compute_room_type_inventory ::
  "env \<Rightarrow> string \<Rightarrow> day \<Rightarrow> (string option \<times> string list) list option \<Rightarrow> db \<Rightarrow> inventory_row list option" where
  "compute_room_type_inventory en tenant date groups d =
     (let groups = (case groups of None \<Rightarrow> room_type_groups tenant d | Some g \<Rightarrow> g);
          type_of = room_id_to_type groups;
          totals = type_totals groups
      in if totals = [] then Some []
         else
           (let lgs = lock_groups tenant date d in
            if list_ex (\<lambda>((room, ty), n). ty = None) lgs then None
            else Some (map (\<lambda>(rt, total).
                   (let booking = locked_of_type type_of lgs rt ''booking'';
                        hold = locked_of_type type_of lgs rt ''hold'';
                        ooo = locked_of_type type_of lgs rt ''ooo'';
                        oos = locked_of_type type_of lgs rt ''oos'' + locked_of_type type_of lgs rt ''maintenance''
                    in \<lparr>iv_tenant = tenant, iv_type = rt, iv_date = date, iv_total = total,
                        iv_booking = booking, iv_hold = hold, iv_ooo = ooo, iv_oos = oos,
                        iv_sellable = max 0 (int total - int booking - int hold - int ooo - int oos),
                        iv_computed = now en\<rparr>))
                 totals)))"

section \<open>The materialized view\<close>

definition row_key :: "inventory_row \<Rightarrow> string \<times> string \<times> day" where
  "row_key r = (iv_tenant r, iv_type r, iv_date r)"

text \<open>\<open>update_one(..., upsert=True)\<close> with \<open>$set\<close> of the whole row.\<close>

definition upsert :: "inventory_row \<Rightarrow> inventory_row list \<Rightarrow> inventory_row list" where
  "upsert row view =
     (if list_ex (\<lambda>r. row_key r = row_key row) view
      then update_one (\<lambda>r. row_key r = row_key row) (\<lambda>_. row) view
      else view @ [row])"






text \<open>\<open>get_room_type_inventory\<close>: the stored rows, or computed and stored on a miss.\<close>

definition get_room_type_inventory ::
  "env \<Rightarrow> string \<Rightarrow> day \<Rightarrow> string option \<Rightarrow> db \<Rightarrow> inventory_row list \<Rightarrow>
   (inventory_row list \<times> inventory_row list) option" where
  "get_room_type_inventory en tenant date room_type d view =
     (let wanted = (\<lambda>r. truthy room_type \<longrightarrow> Some (iv_type r) = room_type);
          stored = to_list 200 (find_many (\<lambda>r. iv_tenant r = tenant \<and> iv_date r = date \<and> wanted r) view)
      in if stored \<noteq> [] then Some (view, filter wanted stored)
         else (case compute_room_type_inventory en tenant date None d of
                 None \<Rightarrow> None
               | Some rows \<Rightarrow> Some (fold upsert rows view, filter wanted rows)))"

record type_summary =
  ts_type :: string
  ts_physical :: nat
  ts_min :: int
  ts_max :: int
  ts_dates :: nat
  ts_locked :: nat

definition row_locked :: "inventory_row \<Rightarrow> nat" where
  "row_locked r = iv_booking r + iv_hold r + iv_ooo r + iv_oos r"

text \<open>The loop of \<open>get_inventory_summary\<close>; the rounded occupancy percentage is left out.\<close>

fun summarize :: "inventory_row list \<Rightarrow> type_summary list \<Rightarrow> type_summary list" where
  "summarize [] acc = acc"
| "summarize (r # rs) acc =
     (let fresh = \<lparr>ts_type = iv_type r, ts_physical = iv_total r, ts_min = iv_sellable r,
                   ts_max = iv_sellable r, ts_dates = 0, ts_locked = 0\<rparr>;
          acc1 = (if list_ex (\<lambda>s. ts_type s = iv_type r) acc then acc else acc @ [fresh])
      in summarize rs (update_one (\<lambda>s. ts_type s = iv_type r)
           (\<lambda>s. s\<lparr>ts_min := min (ts_min s) (iv_sellable r), ts_max := max (ts_max s) (iv_sellable r),
                 ts_locked := ts_locked s + row_locked r, ts_dates := ts_dates s + 1\<rparr>) acc1))"

definition get_inventory_summary ::
  "string \<Rightarrow> iso \<Rightarrow> iso \<Rightarrow> inventory_row list \<Rightarrow> (type_summary list \<times> int \<times> nat) option" where
  "get_inventory_summary tenant start_date end_date view =
     (case (iso_date start_date, iso_date end_date) of
        (Some start, Some stop) \<Rightarrow>
          (let items = to_list 5000 (find_many (\<lambda>r. iv_tenant r = tenant \<and> start \<le> iv_date r \<and> iv_date r \<le> stop) view)
           in Some (summarize items [], sum_list (map iv_sellable items), sum_list (map iv_total items)))
      | _ \<Rightarrow> None)"

section \<open>Transient failures\<close>

text \<open>
  The counters of consecutive failures per tenant (and for the outer loop), as a dictionary:
  recording, resetting and pruning, and the escalation from warning to error.
\<close>

definition transient_escalation_threshold :: nat where "transient_escalation_threshold = 5"

definition outer_loop_key :: string where "outer_loop_key = ''__loop__''"

definition record_transient_failure :: "string \<Rightarrow> (string \<times> nat) list \<Rightarrow> (string \<times> nat) list \<times> nat" where
  "record_transient_failure key c =
     (let n = get_default 0 (map_of c key) + 1 in (AList.update key n c, n))"

definition reset_transient_failure :: "string \<Rightarrow> (string \<times> nat) list \<Rightarrow> (string \<times> nat) list" where
  "reset_transient_failure key c = AList.delete key c"

definition prune_stale_transient_keys :: "string list \<Rightarrow> (string \<times> nat) list \<Rightarrow> (string \<times> nat) list" where
  "prune_stale_transient_keys active c = filter (\<lambda>(k, n). k \<in> set active \<or> k = outer_loop_key) c"

section \<open>Counting groups\<close>

lemma distinct_first_keys [simp]: "distinct (first_keys k xs)"
  by (simp add: first_keys_def)

lemma set_first_keys [simp]: "set (first_keys k xs) = k ` set xs"
  by (simp add: first_keys_def)

lemma sum_counts:
  "finite Y \<Longrightarrow> (\<Sum>y \<in> Y. length (filter (\<lambda>x. k x = y) xs)) = length (filter (\<lambda>x. k x \<in> Y) xs)"
proof (induction xs)
  case (Cons x xs)
  have "(\<Sum>y \<in> Y. length (filter (\<lambda>z. k z = y) (x # xs)))
      = (\<Sum>y \<in> Y. (if k x = y then 1 else 0)) + (\<Sum>y \<in> Y. length (filter (\<lambda>z. k z = y) xs))"
    by (simp add: sum.distrib[symmetric]) (rule sum.cong, auto)
  also have "(\<Sum>y \<in> Y. (if k x = y then 1 else 0)) = (if k x \<in> Y then 1 else (0::nat))"
    using Cons.prems by (simp add: sum.delta)
  finally show ?case using Cons by simp
qed simp

text \<open>The total of the groups whose key satisfies \<open>P\<close> is the number of documents that do.\<close>

lemma group_count_total:
  "sum_list (map snd (filter (\<lambda>g. P (fst g)) (group_count k xs))) = length (filter (\<lambda>x. P (k x)) xs)"
proof -
  have "map snd (filter (\<lambda>g. P (fst g)) (group_count k xs))
      = map (\<lambda>y. length (filter (\<lambda>x. k x = y) xs)) (filter P (first_keys k xs))"
    by (simp add: group_count_def filter_map comp_def)
  moreover have "sum_list \<dots> = (\<Sum>y \<in> {y \<in> k ` set xs. P y}. length (filter (\<lambda>x. k x = y) xs))"
    by (subst sum_list_distinct_conv_sum_set) auto
  ultimately show ?thesis
    by (simp add: sum_counts) (rule arg_cong[where f = length], rule filter_cong, auto)
qed

section \<open>INV-7: what sellable counts\<close>

lemma room_type_of:
  assumes "distinct (map (\<lambda>r. (r_tenant r, r_id r)) (rooms d))"
    and "length (first_keys r_type (filter (sellable_room t) (rooms d))) \<le> 200" "rt \<noteq> []"
  shows "room_id_to_type (room_type_groups t d) i = Some rt \<longleftrightarrow>
    (\<exists>r \<in> set (rooms d). sellable_room t r \<and> r_id r = i \<and> r_type r = Some rt)"
proof -
  let ?rs = "filter (sellable_room t) (rooms d)"
  let ?gs = "filter (\<lambda>g. truthy (fst g)) (room_type_groups t d)"
  let ?ps = "concat (map (\<lambda>(rt, ids). map (\<lambda>i. (i, get_default '''' rt)) ids) ?gs)"
  have groups: "room_type_groups t d = map (\<lambda>rt. (rt, map r_id (filter (\<lambda>r. r_type r = rt) ?rs))) (first_keys r_type ?rs)"
    using assms(2) by (simp add: room_type_groups_def to_list_def Let_def)
  have mem: "(i, s) \<in> set ?ps \<longleftrightarrow> (\<exists>r \<in> set ?rs. r_id r = i \<and> truthy (r_type r) \<and> s = get_default '''' (r_type r))" for i s
    unfolding groups by (fastforce simp: image_iff)
  have uniq: "r = r'" if "r \<in> set ?rs" "r' \<in> set ?rs" "r_id r = r_id r'" for r r'
    using that distinct_map_key_eq[OF assms(1), of r r'] by (auto simp: sellable_room_def)
  have "map_of (rev ?ps) i = Some rt \<longleftrightarrow> (i, rt) \<in> set ?ps"
  proof
    assume "map_of (rev ?ps) i = Some rt"
    then show "(i, rt) \<in> set ?ps" by (metis map_of_SomeD set_rev)
  next
    assume h: "(i, rt) \<in> set ?ps"
    then obtain s where s: "map_of (rev ?ps) i = Some s"
      by (cases "map_of (rev ?ps) i") (auto simp: map_of_eq_None_iff image_iff simp del: set_concat)
    then have "(i, s) \<in> set ?ps" by (metis map_of_SomeD set_rev)
    with h have "s = rt" unfolding mem using uniq by blast
    with s show "map_of (rev ?ps) i = Some rt" by simp
  qed
  moreover have "(i, rt) \<in> set ?ps \<longleftrightarrow> (\<exists>r \<in> set (rooms d). sellable_room t r \<and> r_id r = i \<and> r_type r = Some rt)"
    unfolding mem using assms(3) by (auto split: option.splits simp: get_default_def truthy_def) 
  ultimately show ?thesis by (simp add: room_id_to_type_def)
qed

lemma locked_of_type_count:
  assumes "length (lock_groups t n d) < 5000"
  shows "locked_of_type f (lock_groups t n d) rt ty =
    length (filter (\<lambda>l. f (lk_room l) = Some rt \<and> lk_type l = Some ty)
      (find_many (\<lambda>l. lk_tenant l = t \<and> lk_night l = n) (locks d)))"
proof -
  let ?ls = "find_many (\<lambda>l. lk_tenant l = t \<and> lk_night l = n) (locks d)"
  have all: "lock_groups t n d = group_count (\<lambda>l. (lk_room l, lk_type l)) ?ls"
    using assms by (auto simp: lock_groups_def to_list_def)
  show ?thesis
    unfolding locked_of_type_def all
    using group_count_total[of "\<lambda>(room, ty'). f room = Some rt \<and> ty' = Some ty" "\<lambda>l. (lk_room l, lk_type l)" ?ls]
    by (simp add: case_prod_beta' split_beta')
qed

definition known_lock_types :: "string list" where
  "known_lock_types = [''booking'', ''hold'', ''ooo'', ''oos'', ''maintenance'']"

definition known_type :: "lock \<Rightarrow> bool" where
  "known_type l \<longleftrightarrow> (\<exists>ty \<in> set known_lock_types. lk_type l = Some ty)"

lemma known_types_total:
  shows "length (filter (\<lambda>l. p l \<and> lk_type l = Some ''booking'') ls) + length (filter (\<lambda>l. p l \<and> lk_type l = Some ''hold'') ls)
    + length (filter (\<lambda>l. p l \<and> lk_type l = Some ''ooo'') ls) + (length (filter (\<lambda>l. p l \<and> lk_type l = Some ''oos'') ls)
    + length (filter (\<lambda>l. p l \<and> lk_type l = Some ''maintenance'') ls)) = length (filter (\<lambda>l. p l \<and> known_type l) ls)"
  by (induction ls) (auto simp: known_lock_types_def known_type_def)

text \<open>One lock per room night: the locked rooms and the locks of the night are equally many.\<close>

lemma locks_count_rooms:
  assumes "locks_ok d" "distinct (map (\<lambda>r. (r_tenant r, r_id r)) (rooms d))"
    and P: "\<And>i. P i \<longleftrightarrow> (\<exists>r \<in> set (rooms d). sellable_room t r \<and> r_id r = i \<and> q r)"
  shows "length (filter (\<lambda>l. P (lk_room l)) (find_many (\<lambda>l. lk_tenant l = t \<and> lk_night l = n) (locks d)))
    = length (filter (\<lambda>r. sellable_room t r \<and> q r \<and> (\<exists>l \<in> set (locks d). lock_key l = (t, r_id r, n))) (rooms d))"
proof -
  let ?ls = "filter (\<lambda>l. P (lk_room l)) (find_many (\<lambda>l. lk_tenant l = t \<and> lk_night l = n) (locks d))"
  let ?rs = "filter (\<lambda>r. sellable_room t r \<and> q r \<and> (\<exists>l \<in> set (locks d). lock_key l = (t, r_id r, n))) (rooms d)"
  have "distinct ?ls" "inj_on lk_room (set ?ls)"
    using assms(1) distinct_map_key_eq[of lock_key "locks d"]
    by (auto simp: locks_ok_def find_many_def distinct_map inj_on_def lock_key_def)
  then have "length ?ls = card (lk_room ` set ?ls)" by (rule length_card_image)
  moreover have "distinct ?rs" "inj_on r_id (set ?rs)"
    using assms(2) distinct_map_key_eq[OF assms(2)]
    by (auto simp: distinct_map inj_on_def sellable_room_def)
  then have "length ?rs = card (r_id ` set ?rs)" by (rule length_card_image)
  moreover have "lk_room ` set ?ls = r_id ` set ?rs"
  proof
    show "lk_room ` set ?ls \<subseteq> r_id ` set ?rs"
    proof
      fix i assume "i \<in> lk_room ` set ?ls"
      then obtain l where l: "l \<in> set (locks d)" "lk_tenant l = t" "lk_night l = n" "P (lk_room l)" "i = lk_room l"
        by (auto simp: store_simps)
      then obtain r where "r \<in> set (rooms d)" "sellable_room t r" "r_id r = i" "q r" using P by auto
      with l show "i \<in> r_id ` set ?rs"
        by (intro image_eqI[of _ _ r]) (auto simp: lock_key_def intro!: bexI[of _ l])
    qed
    show "r_id ` set ?rs \<subseteq> lk_room ` set ?ls"
      using P by (fastforce simp: store_simps lock_key_def image_iff)
  qed
  ultimately show ?thesis by simp
qed

lemma sellable_counts_known:
  assumes "locks_ok d" "distinct (map (\<lambda>r. (r_tenant r, r_id r)) (rooms d))"
    and "length (first_keys r_type (filter (sellable_room t) (rooms d))) \<le> 200"
    and "length (lock_groups t n d) < 5000"
    and "compute_room_type_inventory en t n None d = Some rows" "row \<in> set rows"
  shows "iv_sellable row = int (length (filter (\<lambda>r. sellable_room t r \<and> r_type r = Some (iv_type row) \<and>
      \<not> (\<exists>l \<in> set (locks d). known_type l \<and> lock_key l = (t, r_id r, n))) (rooms d)))"
proof -
  let ?f = "room_id_to_type (room_type_groups t d)"
  let ?lk = "\<lambda>ty. locked_of_type ?f (lock_groups t n d) (iv_type row) ty"
  let ?ls = "find_many (\<lambda>l. lk_tenant l = t \<and> lk_night l = n) (locks d)"
  let ?rs = "filter (sellable_room t) (rooms d)"
  let ?locked = "\<lambda>r. \<exists>l \<in> set (locks d). known_type l \<and> lock_key l = (t, r_id r, n)"
  have rt: "(iv_type row, iv_total row) \<in> set (type_totals (room_type_groups t d))"
    and sell: "iv_sellable row = max 0 (int (iv_total row) - int (?lk ''booking'') - int (?lk ''hold'')
        - int (?lk ''ooo'') - int (?lk ''oos'' + ?lk ''maintenance''))"
    using assms(5,6) by (auto simp: compute_room_type_inventory_def Let_def split: if_splits)
  have groups: "room_type_groups t d = map (\<lambda>rt. (rt, map r_id (filter (\<lambda>r. r_type r = rt) ?rs))) (first_keys r_type ?rs)"
    using assms(3) by (simp add: room_type_groups_def to_list_def Let_def)
  have ne: "iv_type row \<noteq> []" and tot: "iv_total row = length (filter (\<lambda>r. sellable_room t r \<and> r_type r = Some (iv_type row)) (rooms d))"
    using rt unfolding type_totals_def groups by (auto simp: truthy_def conj_commute split: option.splits)
  let ?d = "d\<lparr>locks := filter known_type (locks d)\<rparr>"
  have ok: "locks_ok ?d" using assms(1) by (simp add: locks_ok_def distinct_map_filter_key)
  have sub: "filter (\<lambda>l. ?f (lk_room l) = Some (iv_type row) \<and> known_type l) ?ls
      = filter (\<lambda>l. ?f (lk_room l) = Some (iv_type row)) (find_many (\<lambda>l. lk_tenant l = t \<and> lk_night l = n) (locks ?d))"
    by (simp add: find_many_def conj_commute conj_left_commute)
  have "?lk ''booking'' + ?lk ''hold'' + ?lk ''ooo'' + (?lk ''oos'' + ?lk ''maintenance'')
      = length (filter (\<lambda>l. ?f (lk_room l) = Some (iv_type row) \<and> known_type l) ?ls)"
    unfolding locked_of_type_count[OF assms(4)] by (rule known_types_total)
  also have "\<dots> = length (filter (\<lambda>r. sellable_room t r \<and> r_type r = Some (iv_type row)
      \<and> (\<exists>l \<in> set (locks ?d). lock_key l = (t, r_id r, n))) (rooms ?d))"
    unfolding sub using room_type_of[OF assms(2,3) ne]
    by (intro locks_count_rooms[OF ok]) (simp_all add: assms(2))
  also have "\<dots> = length (filter (\<lambda>r. sellable_room t r \<and> r_type r = Some (iv_type row) \<and> ?locked r) (rooms d))"
    by (rule arg_cong[where f = length], rule filter_cong) auto
  finally have lk: "?lk ''booking'' + ?lk ''hold'' + ?lk ''ooo'' + (?lk ''oos'' + ?lk ''maintenance'')
      = length (filter (\<lambda>r. sellable_room t r \<and> r_type r = Some (iv_type row) \<and> ?locked r) (rooms d))" .
  have "iv_total row = length (filter (\<lambda>r. sellable_room t r \<and> r_type r = Some (iv_type row) \<and> ?locked r) (rooms d))
      + length (filter (\<lambda>r. sellable_room t r \<and> r_type r = Some (iv_type row) \<and> \<not> ?locked r) (rooms d))"
    using length_filter_split[of "\<lambda>r. sellable_room t r \<and> r_type r = Some (iv_type row)" "rooms d" ?locked]
    by (simp add: tot conj_assoc)
  with sell lk show ?thesis by linarith
qed

text \<open>
  C37.  Sellable means free (INV-7): as long as every lock of the night has one of the five
  known types, the sellable count of a room type is the number of its active physical rooms
  that carry no lock that night, and it is never negative.
\<close>

theorem sellable_counts_free_rooms:
  assumes "locks_ok d" "distinct (map (\<lambda>r. (r_tenant r, r_id r)) (rooms d))"
    and "length (first_keys r_type (filter (sellable_room t) (rooms d))) \<le> 200"
    and "length (lock_groups t n d) < 5000"
    and "\<forall>l \<in> set (locks d). lk_tenant l = t \<and> lk_night l = n \<longrightarrow>
           (\<exists>ty \<in> set [''booking'', ''hold'', ''ooo'', ''oos'', ''maintenance'']. lk_type l = Some ty)"
    and "compute_room_type_inventory en t n None d = Some rows" "row \<in> set rows"
  shows "iv_sellable row = int (length (filter (\<lambda>r. sellable_room t r \<and> r_type r = Some (iv_type row) \<and>
      \<not> (\<exists>l \<in> set (locks d). lock_key l = (t, r_id r, n))) (rooms d)))"
proof -
  have known: "known_type l" if "l \<in> set (locks d)" "lock_key l = (t, i, n)" for l i
    using that assms(5) by (auto simp: known_type_def known_lock_types_def lock_key_def)
  have "filter (\<lambda>r. sellable_room t r \<and> r_type r = Some (iv_type row) \<and>
        \<not> (\<exists>l \<in> set (locks d). known_type l \<and> lock_key l = (t, r_id r, n))) (rooms d)
      = filter (\<lambda>r. sellable_room t r \<and> r_type r = Some (iv_type row) \<and>
        \<not> (\<exists>l \<in> set (locks d). lock_key l = (t, r_id r, n))) (rooms d)"
    using known by (intro filter_cong) blast+
  with sellable_counts_known[OF assms(1-4,6,7)] show ?thesis by simp
qed

text \<open>
  A block of unknown type is invisible to the inventory: after \<open>apply_room_block\<close> with a
  type other than the five counted ones, the blocked night can no longer be sold, but the
  sellable count of its room type still includes the room, so it is larger than the number
  of free rooms (INV-7 fails).
\<close>

theorem unknown_block_type_still_counted:
  assumes "locks_ok d" "distinct (map (\<lambda>r. (r_tenant r, r_id r)) (rooms d))"
    and "apply_room_block en t room ty s e reason actor d = (d', Inr (Some res))" "n \<in> set (br_blocked res)"
    and "ty \<notin> set [''booking'', ''hold'', ''ooo'', ''oos'', ''maintenance'']"
    and "r \<in> set (rooms d')" "sellable_room t r" "r_id r = room" "r_type r = Some (iv_type row)" "rooms d' = rooms d"
    and "length (first_keys r_type (filter (sellable_room t) (rooms d'))) \<le> 200"
    and "length (lock_groups t n d') < 5000"
    and "compute_room_type_inventory en2 t n None d' = Some rows" "row \<in> set rows"
  shows "iv_sellable row > int (length (filter (\<lambda>r. sellable_room t r \<and> r_type r = Some (iv_type row) \<and>
      \<not> (\<exists>l \<in> set (locks d'). lock_key l = (t, r_id r, n))) (rooms d')))"
proof -
  let ?A = "\<lambda>r. sellable_room t r \<and> r_type r = Some (iv_type row)"
  let ?K = "\<lambda>r. \<exists>l \<in> set (locks d'). known_type l \<and> lock_key l = (t, r_id r, n)"
  let ?L = "\<lambda>r. \<exists>l \<in> set (locks d'). lock_key l = (t, r_id r, n)"
  from apply_block_typed[OF assms(1,3,4)] obtain l where
    l: "l \<in> set (locks d')" "lock_key l = (t, room, n)" "lk_type l = Some ty" and ok: "locks_ok d'" by blast
  have "\<not> known_type l" using l(3) assms(5) by (auto simp: known_type_def known_lock_types_def)
  then have "\<not> ?K r" using l ok assms(8) by (auto simp: locks_ok_def dest: distinct_map_key_eq)
  moreover have "?L r" using l assms(8) by auto
  ultimately have "r \<in> set (filter (\<lambda>r. (?A r \<and> \<not> ?K r) \<and> ?L r) (rooms d'))" using assms(6,7,9) by simp
  then have pos: "0 < length (filter (\<lambda>r. (?A r \<and> \<not> ?K r) \<and> ?L r) (rooms d'))" by (rule length_pos_if_in_set)
  have "filter (\<lambda>r. (?A r \<and> \<not> ?K r) \<and> \<not> ?L r) (rooms d') = filter (\<lambda>r. ?A r \<and> \<not> ?L r) (rooms d')"
    by (intro filter_cong) auto
  then have "length (filter (\<lambda>r. ?A r \<and> \<not> ?K r) (rooms d')) > length (filter (\<lambda>r. ?A r \<and> \<not> ?L r) (rooms d'))"
    using pos length_filter_split[of "\<lambda>r. ?A r \<and> \<not> ?K r" "rooms d'" ?L] by simp
  moreover have "iv_sellable row = int (length (filter (\<lambda>r. ?A r \<and> \<not> ?K r) (rooms d')))"
    using sellable_counts_known[OF ok _ assms(11-14)] assms(2,10) by simp
  ultimately show ?thesis by simp
qed

text \<open>Two rooms of one type; the locks are those of \<open>busy_db\<close>, all on room 101.\<close>

definition double_room :: "string \<Rightarrow> room" where
  "double_room i = \<lparr>r_tenant = ''t1'', r_id = i, r_number = Some i, r_status = ''available'',
     r_type = Some ''DBL'', r_active = None, r_virtual = None, r_current = None\<rparr>"

definition two_rooms_db :: db where
  "two_rooms_db = busy_db\<lparr>rooms := [double_room ''101'', double_room ''102'']\<rparr>"

lemma two_rooms_ok:
  "locks_ok two_rooms_db" "distinct (map (\<lambda>r. (r_tenant r, r_id r)) (rooms two_rooms_db))"
  using busy_locks_ok by (simp_all add: two_rooms_db_def locks_ok_def double_room_def)

theorem sellable_counts_free_rooms_witness:
  "\<exists>rows row. compute_room_type_inventory quiet_env ''t1'' 7 None two_rooms_db = Some rows \<and> row \<in> set rows
     \<and> iv_sellable row = 1"
proof -
  have "compute_room_type_inventory quiet_env ''t1'' 7 None two_rooms_db \<noteq> None" by code_simp
  then obtain rows where r: "compute_room_type_inventory quiet_env ''t1'' 7 None two_rooms_db = Some rows" by blast
  have "map iv_type (the (compute_room_type_inventory quiet_env ''t1'' 7 None two_rooms_db)) = [''DBL'']" by code_simp
  then obtain row where row: "row \<in> set rows" "iv_type row = ''DBL''" using r by auto
  have c: "length (first_keys r_type (filter (sellable_room ''t1'') (rooms two_rooms_db))) \<le> 200"
    "length (lock_groups ''t1'' 7 two_rooms_db) < 5000" by code_simp+
  have f: "filter (\<lambda>r. sellable_room ''t1'' r \<and> r_type r = Some (iv_type row) \<and>
      \<not> (\<exists>l \<in> set (locks two_rooms_db). lock_key l = (''t1'', r_id r, 7))) (rooms two_rooms_db) = [double_room ''102'']"
    unfolding row(2) by (simp add: two_rooms_db_def double_room_def busy_db_def small_hotel lock_key_def sellable_room_def)
  have "\<forall>l \<in> set (locks two_rooms_db). lk_tenant l = ''t1'' \<and> lk_night l = 7 \<longrightarrow>
           (\<exists>ty \<in> set [''booking'', ''hold'', ''ooo'', ''oos'', ''maintenance'']. lk_type l = Some ty)"
    by (simp add: two_rooms_db_def busy_db_def small_hotel)
  from sellable_counts_free_rooms[OF two_rooms_ok c this r row(1)] r row(1) f show ?thesis by auto
qed

theorem unknown_block_type_still_counted_witness:
  "\<exists>d' rows row. fst (apply_room_block quiet_env ''t1'' ''102'' ''renovation'' (Iso 7 (-1)) (Iso 8 (-1)) '''' ''fd'' two_rooms_db) = d'
     \<and> compute_room_type_inventory quiet_env ''t1'' 7 None d' = Some rows \<and> row \<in> set rows \<and> iv_sellable row > 0"
proof -
  define run where "run = apply_room_block quiet_env ''t1'' ''102'' ''renovation'' (Iso 7 (-1)) (Iso 8 (-1)) '''' ''fd'' two_rooms_db"
  have "case snd run of Inr (Some res) \<Rightarrow> br_blocked res = [7] | _ \<Rightarrow> False" unfolding run_def by code_simp
  then obtain res where res: "snd run = Inr (Some res)" "br_blocked res = [7]"
    by (auto split: sum.splits option.splits)
  have rm: "rooms (fst run) = [double_room ''101'', double_room ''102'']" unfolding run_def by code_simp
  have "compute_room_type_inventory quiet_env ''t1'' 7 None (fst run) \<noteq> None" unfolding run_def by code_simp
  then obtain rows where r: "compute_room_type_inventory quiet_env ''t1'' 7 None (fst run) = Some rows" by blast
  have "map iv_type (the (compute_room_type_inventory quiet_env ''t1'' 7 None (fst run))) = [''DBL'']"
    unfolding run_def by code_simp
  then obtain row where row: "row \<in> set rows" "iv_type row = ''DBL''" using r by auto
  have c: "length (first_keys r_type (filter (sellable_room ''t1'') (rooms (fst run)))) \<le> 200"
    "length (lock_groups ''t1'' 7 (fst run)) < 5000" unfolding run_def by code_simp+
  have blk: "apply_room_block quiet_env ''t1'' ''102'' ''renovation'' (Iso 7 (-1)) (Iso 8 (-1)) '''' ''fd'' two_rooms_db
      = (fst run, Inr (Some res))" using res(1) by (simp add: run_def prod_eq_iff)
  have "7 \<in> set (br_blocked res)" using res(2) by simp
  moreover have "''renovation'' \<notin> set [''booking'', ''hold'', ''ooo'', ''oos'', ''maintenance'']" by simp
  moreover have "double_room ''102'' \<in> set (rooms (fst run))" "sellable_room ''t1'' (double_room ''102'')"
    "r_id (double_room ''102'') = ''102''" "r_type (double_room ''102'') = Some (iv_type row)"
    "rooms (fst run) = rooms two_rooms_db"
    by (simp_all add: rm row(2) two_rooms_db_def double_room_def sellable_room_def)
  ultimately have "iv_sellable row > int (length (filter (\<lambda>r. sellable_room ''t1'' r \<and> r_type r = Some (iv_type row) \<and>
      \<not> (\<exists>l \<in> set (locks (fst run)). lock_key l = (''t1'', r_id r, 7))) (rooms (fst run))))"
    using unknown_block_type_still_counted[OF two_rooms_ok blk _ _ _ _ _ _ _ c r row(1)] by blast
  with r row show ?thesis unfolding run_def by (intro exI) auto
qed

section \<open>Reconciliation repairs the view\<close>







end
