(* ===== verification/BusinessDate.thy ===== *)
theory BusinessDate
  imports ReservationLifecycle
begin

text \<open>
  The PMS business date (core/business_date_service.py), the guard of check-in and
  check-out (core/business_date_transition_guard.py) and the immutability of past
  reservations (core/reservation_mutability.py).

  \<open>zones\<close> is the time zone database: the calendar date of an instant in a named zone, or
  \<open>None\<close> for an unknown name.
\<close>

record tenant_settings =
  st_tenant :: string
  st_timezone :: "string option"
  st_date :: "iso option"
  st_previous :: "iso option"
  st_initialized :: "instant option"
  st_reason :: "string option"
  st_updated :: "instant option"
  st_source :: "string option"
  st_by :: "string option"
  st_run :: "string option"
  st_trigger :: "string option"

record audit_run =
  nr_tenant :: string
  nr_status :: string
  nr_date :: "iso option"
  nr_completed :: instant

type_synonym zones = "string \<Rightarrow> (instant \<Rightarrow> day) option"

definition active_arrival_statuses :: "string list" where
  "active_arrival_statuses = [''confirmed'', ''guaranteed'', ''checked_in'']"

definition completed_audit_statuses :: "string list" where
  "completed_audit_statuses = [''completed'', ''completed_with_exceptions'']"

text \<open>\<open>_date_only\<close>; a missing value and a value that does not parse are \<open>None\<close>.\<close>

definition date_only_of :: "iso option \<Rightarrow> day option" where
  "date_only_of v = Option.bind v prefix_date"

definition istanbul :: string where "istanbul = ''Europe/Istanbul''"

text \<open>\<open>None\<close>: the fallback zone is unknown too, and its error leaves the function.\<close>

definition local_calendar_date :: "zones \<Rightarrow> string \<Rightarrow> instant \<Rightarrow> day option" where
  "local_calendar_date zones timezone_name t0 =
     (case zones timezone_name of
        Some f \<Rightarrow> Some (f t0)
      | None \<Rightarrow> map_option (\<lambda>f. f t0) (zones istanbul))"

section \<open>The first open day\<close>

text \<open>\<open>find_one(..., sort=[("business_date", -1), ("completed_at", -1)])\<close>: a missing date sorts last.\<close>

definition run_before :: "audit_run \<Rightarrow> audit_run \<Rightarrow> bool" where
  "run_before a b =
     (case (nr_date a, nr_date b) of
        (None, None) \<Rightarrow> nr_completed a < nr_completed b
      | (None, Some _) \<Rightarrow> True
      | (Some _, None) \<Rightarrow> False
      | (Some x, Some y) \<Rightarrow> iso_less x y \<or> (\<not> iso_less y x \<and> nr_completed a < nr_completed b))"

fun latest_run :: "audit_run list \<Rightarrow> audit_run option" where
  "latest_run [] = None"
| "latest_run (r # rs) =
     (case latest_run rs of None \<Rightarrow> Some r | Some q \<Rightarrow> if run_before r q then Some q else Some r)"

fun earliest :: "day list \<Rightarrow> day option" where
  "earliest [] = None"
| "earliest (d # ds) = (case earliest ds of None \<Rightarrow> Some d | Some e \<Rightarrow> Some (min d e))"

definition unresolved_dates :: "string \<Rightarrow> day \<Rightarrow> db \<Rightarrow> day list" where
  "unresolved_dates tenant today d =
     filter (\<lambda>x. x \<le> today) (List.map_filter (\<lambda>b. date_only_of (b_check_in b)) (to_list 5000
       (find_many (\<lambda>b. b_tenant b = tenant \<and> (\<exists>s \<in> set active_arrival_statuses. b_status b = Some s)) (bookings d))))"

definition derive_initial_business_date ::
  "string \<Rightarrow> day \<Rightarrow> audit_run list \<Rightarrow> db \<Rightarrow> day \<times> string" where
  "derive_initial_business_date tenant today runs d =
     (let run = latest_run (find_many (\<lambda>r. nr_tenant r = tenant \<and> nr_status r \<in> set completed_audit_statuses) runs)
      in case Option.bind run (\<lambda>r. date_only_of (nr_date r)) of
           Some last_closed \<Rightarrow> (min (last_closed + 1) today, ''night_audit_history'')
         | None \<Rightarrow>
             (case earliest (unresolved_dates tenant today d) of
                Some from_day \<Rightarrow> (from_day, ''earliest_unresolved_arrival'')
              | None \<Rightarrow> (today, ''first_operational_use'')))"

section \<open>Initialization\<close>

definition business_date_payload :: "tenant_settings \<Rightarrow> tenant_settings" where
  "business_date_payload s =
     s\<lparr>st_source := (if st_date s \<noteq> None \<and> \<not> truthy (st_source s) then Some ''legacy_record'' else st_source s)\<rparr>"

text \<open>The conditional update: all fields, or none when a date is already there.\<close>

definition initialize_fields :: "day \<Rightarrow> string \<Rightarrow> instant \<Rightarrow> string \<Rightarrow> tenant_settings \<Rightarrow> tenant_settings" where
  "initialize_fields day reason t0 actor s =
     (if st_date s \<noteq> None then s
      else s\<lparr>st_date := Some (date_only day), st_previous := None, st_initialized := Some t0,
             st_reason := Some reason, st_updated := Some t0, st_source := Some ''initialization'',
             st_by := Some actor, st_run := None, st_trigger := Some ''bootstrap''\<rparr>)"

definition blank_settings :: "string \<Rightarrow> tenant_settings" where
  "blank_settings tenant =
     \<lparr>st_tenant = tenant, st_timezone = None, st_date = None, st_previous = None, st_initialized = None,
      st_reason = None, st_updated = None, st_source = None, st_by = None, st_run = None, st_trigger = None\<rparr>"

definition settings_of :: "string \<Rightarrow> tenant_settings list \<Rightarrow> tenant_settings option" where
  "settings_of tenant ss = find_one (\<lambda>s. st_tenant s = tenant) ss"

text \<open>
  The upsert writes the fields to the one document of the tenant.  The result \<open>None\<close> is the
  error; it follows the write when the stored date is missing, and precedes it when no
  time zone resolves.
\<close>

definition ensure_business_date_initialized ::
  "zones \<Rightarrow> instant \<Rightarrow> string \<Rightarrow> day option \<Rightarrow> string \<Rightarrow> audit_run list \<Rightarrow> db \<Rightarrow> tenant_settings list \<Rightarrow>
   tenant_settings list \<times> tenant_settings option" where
  "ensure_business_date_initialized zones t0 tenant today actor runs d ss =
     (let current = settings_of tenant ss in
      if Option.bind current st_date \<noteq> None then (ss, map_option business_date_payload current)
      else
        (let timezone = str_or (Option.bind current st_timezone) istanbul in
         case (case today of None \<Rightarrow> local_calendar_date zones timezone t0 | Some t \<Rightarrow> Some t) of
           None \<Rightarrow> (ss, None)
         | Some today_value \<Rightarrow>
             (let (day, reason) = derive_initial_business_date tenant today_value runs d;
                  f = initialize_fields day reason t0 actor;
                  ss' = (if current = None then ss @ [f (blank_settings tenant)]
                         else update_one (\<lambda>s. st_tenant s = tenant) f ss)
              in (ss', Option.bind (settings_of tenant ss')
                        (\<lambda>s. if st_date s = None then None else Some (business_date_payload s))))))"

text \<open>\<open>stamp_open_business_date\<close>: the explicit day if it parses, else the open day; \<open>None\<close> is the error.\<close>

definition stamp_open_business_date ::
  "zones \<Rightarrow> instant \<Rightarrow> string \<Rightarrow> audit_run list \<Rightarrow> db \<Rightarrow> iso option \<Rightarrow> tenant_settings list \<Rightarrow>
   tenant_settings list \<times> day option" where
  "stamp_open_business_date zones t0 tenant runs d explicit ss =
     (case date_only_of explicit of
        Some day \<Rightarrow> (ss, Some day)
      | None \<Rightarrow>
          (let (ss', state) = ensure_business_date_initialized zones t0 tenant None ''system_business_date_bootstrap'' runs d ss
           in (ss', Option.bind state (\<lambda>s. date_only_of (st_date s)))))"

section \<open>Which accounting day a record belongs to\<close>

text \<open>The match on a record's \<open>business_date\<close>, with a legacy clause for records without one.\<close>

definition accounting_day_match :: "iso \<Rightarrow> ('r \<Rightarrow> iso option) \<Rightarrow> ('r \<Rightarrow> bool) list \<Rightarrow> 'r \<Rightarrow> bool" where
  "accounting_day_match business_date date_of legacy r =
     (date_of r = Some (prefix10 business_date)
      \<or> (legacy \<noteq> [] \<and> date_of r = None \<and> list_ex (\<lambda>c. c r) legacy))"

definition iso_le :: "iso \<Rightarrow> iso \<Rightarrow> bool" where
  "iso_le a b = (\<not> iso_less b a)"

definition accounting_period_match :: "iso \<Rightarrow> iso \<Rightarrow> ('r \<Rightarrow> iso option) \<Rightarrow> ('r \<Rightarrow> bool) list \<Rightarrow> 'r \<Rightarrow> bool" where
  "accounting_period_match from_day to_day date_of legacy r =
     ((case date_of r of None \<Rightarrow> False | Some x \<Rightarrow> iso_le (prefix10 from_day) x \<and> iso_le x (prefix10 to_day))
      \<or> (legacy \<noteq> [] \<and> date_of r = None \<and> list_ex (\<lambda>c. c r) legacy))"

section \<open>Guards\<close>

datatype guard_error = UnsupportedOperation | MissingDate | InvalidDate | TooEarly

definition guard_parse_date :: "iso option \<Rightarrow> guard_error + day" where
  "guard_parse_date v =
     (case v of None \<Rightarrow> Inl MissingDate
      | Some s \<Rightarrow> (case iso_date s of None \<Rightarrow> Inl InvalidDate | Some d \<Rightarrow> Inr d))"

definition enforce_business_date_transition ::
  "string \<Rightarrow> booking \<Rightarrow> string \<Rightarrow> tenant_settings list \<Rightarrow> guard_error + day \<times> day" where
  "enforce_business_date_transition tenant b operation ss =
     (case map_of [(''check_in'', b_check_in b), (''check_out'', b_check_out b)] operation of
        None \<Rightarrow> Inl UnsupportedOperation
      | Some field \<Rightarrow>
          (case guard_parse_date (Option.bind (settings_of tenant ss) st_date) of
             Inl e \<Rightarrow> Inl e
           | Inr business_date \<Rightarrow>
               (case guard_parse_date field of
                  Inl e \<Rightarrow> Inl e
                | Inr scheduled \<Rightarrow>
                    if business_date < scheduled then Inl TooEarly else Inr (business_date, scheduled))))"

definition in_house_statuses :: "string list" where
  "in_house_statuses = [''checked_in'', ''in_house'']"

definition status_key :: "booking \<Rightarrow> string" where
  "status_key b = lower (strip (str_or (b_status b) ''''))"

definition reservation_is_historical :: "booking \<Rightarrow> iso option \<Rightarrow> bool" where
  "reservation_is_historical b business_date =
     (if status_key b \<in> set terminal_booking_statuses then True
      else if status_key b \<in> set in_house_statuses then False
      else case (date_only_of (b_check_out b), date_only_of business_date) of
          (Some departure, Some active_day) \<Rightarrow> departure < active_day
        | _ \<Rightarrow> False)"

text \<open>\<open>ensure_reservation_mutable\<close>: \<open>Inl True\<close> is the 409, \<open>Inl False\<close> a failed initialization.\<close>

definition ensure_reservation_mutable ::
  "zones \<Rightarrow> instant \<Rightarrow> string \<Rightarrow> booking \<Rightarrow> audit_run list \<Rightarrow> db \<Rightarrow> tenant_settings list \<Rightarrow>
   tenant_settings list \<times> (bool + unit)" where
  "ensure_reservation_mutable zones t0 tenant b runs d ss =
     (if status_key b \<in> set terminal_booking_statuses then (ss, Inl True)
      else (case ensure_business_date_initialized zones t0 tenant None ''system_business_date_bootstrap'' runs d ss of
          (ss', None) \<Rightarrow> (ss', Inl False)
        | (ss', Some s) \<Rightarrow> (ss', if reservation_is_historical b (st_date s) then Inl True else Inr ())))"

section \<open>What the business date promises\<close>

lemma initialize_fields_simps [simp]:
  "st_tenant (initialize_fields day reason t0 actor s) = st_tenant s"
  "st_date (initialize_fields day reason t0 actor s) =
     (if st_date s = None then Some (date_only day) else st_date s)"
  by (auto simp: initialize_fields_def)

lemma initialize_fields_established:
  "st_date s \<noteq> None \<Longrightarrow> initialize_fields day reason t0 actor s = s"
  by (auto simp: initialize_fields_def)

lemma business_date_payload_date [simp]:
  "st_date (business_date_payload s) = st_date s" "st_tenant (business_date_payload s) = st_tenant s"
  by (simp_all add: business_date_payload_def)

lemma find_one_list:
  "find_one p [] = None" "find_one p (x # xs) = (if p x then Some x else find_one p xs)"
  by (simp_all add: find_one_def)

lemma settings_of_tenant: "settings_of tenant ss = Some s \<Longrightarrow> st_tenant s = tenant"
  by (auto simp: settings_of_def dest: find_one_Some)

lemma settings_of_append:
  "settings_of t (ss @ [s]) = (case settings_of t ss of None \<Rightarrow> if st_tenant s = t then Some s else None | Some x \<Rightarrow> Some x)"
  by (induction ss) (auto simp: settings_of_def find_one_list)

lemma settings_of_update:
  assumes "\<And>s. st_tenant (f s) = st_tenant s"
  shows "settings_of t (update_one (\<lambda>s. st_tenant s = tenant) f ss) =
           (if t = tenant then map_option f (settings_of t ss) else settings_of t ss)"
  using assms by (induction ss) (auto simp: settings_of_def find_one_list)

text \<open>The settings after a call: the tenant's own document only, and a date only if there was none.\<close>

lemma ensure_settings:
  assumes "ensure_business_date_initialized zones t0 tenant today actor runs d ss = (ss', r)"
  shows "Option.bind (settings_of t ss) st_date = Some x \<Longrightarrow> Option.bind (settings_of t ss') st_date = Some x"
    and "t \<noteq> tenant \<Longrightarrow> settings_of t ss' = settings_of t ss"
  using assms
  by (auto simp: ensure_business_date_initialized_def Let_def settings_of_append settings_of_update
           blank_settings_def bind_eq_Some_conv
           split: if_splits option.splits prod.splits dest: settings_of_tenant)

lemma ensure_result:
  assumes "ensure_business_date_initialized zones t0 tenant today actor runs d ss = (ss', Some s)"
  shows "\<exists>x. st_date s = Some x \<and> Option.bind (settings_of tenant ss') st_date = Some x
             \<and> map_option business_date_payload (settings_of tenant ss') = Some s"
  using assms
  by (auto simp: ensure_business_date_initialized_def Let_def bind_eq_Some_conv split: if_splits option.splits prod.splits)

lemma ensure_established:
  assumes "Option.bind (settings_of tenant ss) st_date = Some x"
  shows "ensure_business_date_initialized zones t0 tenant today actor runs d ss
           = (ss, map_option business_date_payload (settings_of tenant ss))"
  using assms by (simp add: ensure_business_date_initialized_def)

text \<open>
  C40.  The business date is set once: a call answers with the date that is then stored, it
  changes no date that was already established, for this hotel or another, and every later
  call, at any time, by any actor and with any evidence, answers the same and writes nothing.
\<close>

theorem business_date_set_once:
  assumes "ensure_business_date_initialized zones t0 tenant today actor runs d ss = (ss', Some s)"
  shows "st_date s \<noteq> None \<and> Option.bind (settings_of tenant ss') st_date = st_date s
    \<and> (\<forall>t. Option.bind (settings_of t ss) st_date \<in> {None, Option.bind (settings_of t ss') st_date}
           \<and> (t \<noteq> tenant \<longrightarrow> settings_of t ss' = settings_of t ss))
    \<and> (\<forall>zones2 t2 today2 actor2 runs2 d2.
          ensure_business_date_initialized zones2 t2 tenant today2 actor2 runs2 d2 ss' = (ss', Some s))"
proof -
  obtain x where x: "st_date s = Some x" "Option.bind (settings_of tenant ss') st_date = Some x"
    "map_option business_date_payload (settings_of tenant ss') = Some s"
    using ensure_result[OF assms] by blast
  have "Option.bind (settings_of t ss) st_date \<in> {None, Option.bind (settings_of t ss') st_date}" for t
    using ensure_settings(1)[OF assms, of t] by (cases "Option.bind (settings_of t ss) st_date") auto
  then show ?thesis
    using x ensure_settings(2)[OF assms] ensure_established[OF x(2)] by simp
qed

lemma earliest_None [simp]: "earliest ds = None \<longleftrightarrow> ds = []"
  by (cases ds) (auto split: option.splits)

lemma earliest_le: "earliest ds = Some m \<Longrightarrow> x \<in> set ds \<Longrightarrow> m \<le> x"
  by (induction ds arbitrary: m) (auto split: option.splits simp: min_le_iff_disj)

lemma earliest_mem: "earliest ds = Some m \<Longrightarrow> m \<in> set ds"
  by (induction ds arbitrary: m) (auto split: option.splits if_splits simp: min_def)

lemma mem_map_filter: "x \<in> set (List.map_filter f xs) \<longleftrightarrow> (\<exists>y \<in> set xs. f y = Some x)"
  by (induction xs) (auto simp: map_filter_simps split: option.splits)

lemma latest_run_mem: "latest_run rs = Some r \<Longrightarrow> r \<in> set rs"
  by (induction rs arbitrary: r) (auto split: option.splits if_splits)

lemma to_list_all: "length xs \<le> n \<Longrightarrow> to_list n xs = xs"
  by (simp add: to_list_def)


lemma unresolved_datesI:
  assumes "b \<in> set (bookings d)" "b_tenant b = tenant" "b_status b = Some s" "s \<in> set active_arrival_statuses"
    and "date_only_of (b_check_in b) = Some x" "x \<le> today"
    and "length (find_many (\<lambda>b. b_tenant b = tenant \<and> (\<exists>s \<in> set active_arrival_statuses. b_status b = Some s)) (bookings d)) \<le> 5000"
  shows "x \<in> set (unresolved_dates tenant today d)"
proof -
  show ?thesis
    using assms(1-6) to_list_all[OF assms(7)]
    by (force simp: unresolved_dates_def mem_map_filter store_simps)
qed

lemma unresolved_datesD:
  "x \<in> set (unresolved_dates tenant today d) \<Longrightarrow> x \<le> today \<and> (\<exists>b \<in> set (bookings d). b_tenant b = tenant
     \<and> (\<exists>s \<in> set active_arrival_statuses. b_status b = Some s) \<and> date_only_of (b_check_in b) = Some x)"
  by (auto simp: unresolved_dates_def mem_map_filter to_list_def store_simps dest!: in_set_takeD)

definition last_closed_day :: "string \<Rightarrow> audit_run list \<Rightarrow> day option" where
  "last_closed_day tenant runs =
     Option.bind (latest_run (find_many (\<lambda>r. nr_tenant r = tenant \<and> nr_status r \<in> set completed_audit_statuses) runs))
       (\<lambda>r. date_only_of (nr_date r))"

text \<open>
  The first business date never skips work.  It is not after today; after a completed
  night audit it is not after the day following the latest closed day; and without one no
  arrival that is due and still open, on a booking of the hotel, lies before it.  If it is
  before today it is the day after the last close or the arrival date of such a booking.
\<close>

theorem initial_business_date_safe:
  assumes "derive_initial_business_date tenant today runs d = (day, reason)"
    and "length (find_many (\<lambda>b. b_tenant b = tenant \<and> (\<exists>s \<in> set active_arrival_statuses. b_status b = Some s)) (bookings d)) \<le> 5000"
  shows "day \<le> today \<and> (case last_closed_day tenant runs of
      Some c \<Rightarrow> day = min (c + 1) today
    | None \<Rightarrow>
        (\<forall>b \<in> set (bookings d). \<forall>s \<in> set active_arrival_statuses. \<forall>x.
           b_tenant b = tenant \<and> b_status b = Some s \<and> date_only_of (b_check_in b) = Some x \<and> x \<le> today \<longrightarrow> day \<le> x)
        \<and> (day < today \<longrightarrow> (\<exists>b \<in> set (bookings d). b_tenant b = tenant
              \<and> (\<exists>s \<in> set active_arrival_statuses. b_status b = Some s) \<and> date_only_of (b_check_in b) = Some day)))"
proof -
  note der = assms(1)[unfolded derive_initial_business_date_def Let_def, folded last_closed_day_def]
  show ?thesis
  proof (cases "last_closed_day tenant runs")
    case (Some c)
    with der show ?thesis by auto
  next
    case None
    have early: "day \<le> x" if "x \<in> set (unresolved_dates tenant today d)" for x
      using der None that by (auto split: option.splits dest: earliest_le)
    have mem: "day \<in> set (unresolved_dates tenant today d) \<or> day = today"
      using der None by (auto split: option.splits dest: earliest_mem)
    then have "day \<le> today" using unresolved_datesD by blast
    moreover have "day < today \<longrightarrow> (\<exists>b \<in> set (bookings d). b_tenant b = tenant
        \<and> (\<exists>s \<in> set active_arrival_statuses. b_status b = Some s) \<and> date_only_of (b_check_in b) = Some day)"
      using mem unresolved_datesD by blast
    ultimately show ?thesis using None early unresolved_datesI[OF _ _ _ _ _ _ assms(2)] by simp
  qed
qed

lemma stamped_day:
  assumes "stamp_open_business_date zones t0 tenant runs d explicit ss = (ss', Some day)"
  shows "(date_only_of explicit \<noteq> None \<longrightarrow> date_only_of explicit = Some day \<and> ss' = ss)
    \<and> (date_only_of explicit = None \<longrightarrow> date_only_of (Option.bind (settings_of tenant ss') st_date) = Some day)"
proof (cases "date_only_of explicit")
  case None
  then obtain s where "ensure_business_date_initialized zones t0 tenant None ''system_business_date_bootstrap'' runs d ss = (ss', Some s)"
    "date_only_of (st_date s) = Some day"
    using assms by (auto simp: stamp_open_business_date_def bind_eq_Some_conv split: prod.splits)
  with ensure_result[OF this(1)] None show ?thesis by auto
next
  case (Some x)
  with assms show ?thesis by (simp add: stamp_open_business_date_def)
qed

lemma iso_le_dates [simp]: "iso_le (date_only a) (date_only b) \<longleftrightarrow> a \<le> b"
  by (auto simp: iso_le_def iso_less_def date_only_def)

lemma prefix10_date_only [simp]: "prefix10 (date_only a) = date_only a"
  by (simp add: date_only_def)

lemma date_only_inj [simp]: "date_only a = date_only b \<longleftrightarrow> a = b"
  by (simp add: date_only_def)

text \<open>
  A financial record that was stamped with its accounting day is found on that day and on
  no other, and in exactly the periods that contain it, whatever timestamp clauses the report
  adds for old records: no posting is counted twice or moved by the wall clock.
\<close>

theorem stamped_record_has_one_day:
  assumes "stamp_open_business_date zones t0 tenant runs d explicit ss = (ss', Some day)"
    and "date_of r = Some (date_only day)"
  shows "(\<forall>x legacy. accounting_day_match (date_only x) date_of legacy r \<longleftrightarrow> x = day)
    \<and> (\<forall>a z legacy. accounting_period_match (date_only a) (date_only z) date_of legacy r \<longleftrightarrow> a \<le> day \<and> day \<le> z)
    \<and> (date_only_of explicit \<noteq> None \<longrightarrow> date_only_of explicit = Some day \<and> ss' = ss)
    \<and> (date_only_of explicit = None \<longrightarrow> date_only_of (Option.bind (settings_of tenant ss') st_date) = Some day)"
proof -
  have "(\<forall>x legacy. accounting_day_match (date_only x) date_of legacy r \<longleftrightarrow> x = day)"
    using assms(2) by (auto simp: accounting_day_match_def)
  moreover have "(\<forall>a z legacy. accounting_period_match (date_only a) (date_only z) date_of legacy r \<longleftrightarrow> a \<le> day \<and> day \<le> z)"
    using assms(2) by (auto simp: accounting_period_match_def)
  ultimately show ?thesis using stamped_day[OF assms(1)] by blast
qed

text \<open>Evaluation: a hotel with one overdue arrival, first opened ten days later.\<close>

definition istanbul_zone :: zones where
  "istanbul_zone z = (if z = istanbul then Some (\<lambda>t. t div 86400) else None)"

definition overdue_db :: db where
  "overdue_db = empty_db\<lparr>bookings := [stay_booking ''b1'' 100 103]\<rparr>"

definition first_settings :: tenant_settings where
  "first_settings = initialize_fields 100 ''earliest_unresolved_arrival'' 9504000 ''desk'' (blank_settings ''t1'')"

lemmas first_hotel = overdue_db_def empty_db_def stay_booking_def istanbul_zone_def

lemma first_unresolved: "unresolved_dates ''t1'' 110 overdue_db = [100]"
  by (simp add: unresolved_dates_def first_hotel find_many_def to_list_def active_arrival_statuses_def
        date_only_of_def map_filter_simps)

lemma first_derived:
  "derive_initial_business_date ''t1'' 110 [] overdue_db = (100, ''earliest_unresolved_arrival'')"
  by (simp add: derive_initial_business_date_def find_many_def first_unresolved)

lemma first_ensured:
  "ensure_business_date_initialized istanbul_zone 9504000 ''t1'' None ''desk'' [] overdue_db []
     = ([first_settings], Some (business_date_payload first_settings))"
  by (simp add: ensure_business_date_initialized_def local_calendar_date_def istanbul_zone_def istanbul_def
        str_or_def settings_of_def find_one_list first_derived first_settings_def blank_settings_def
        initialize_fields_def)

theorem business_date_set_once_witness:
  "ensure_business_date_initialized istanbul_zone 0 ''t1'' (Some 500) ''audit'' [] empty_db [first_settings]
     = ([first_settings], Some (business_date_payload first_settings))"
  by (rule business_date_set_once[OF first_ensured, THEN conjunct2, THEN conjunct2, THEN conjunct2, rule_format])

theorem initial_business_date_safe_witness:
  "derive_initial_business_date ''t1'' 110 [] overdue_db = (100, ''earliest_unresolved_arrival'') \<and> (100::day) \<le> 110"
proof (rule conjI[OF first_derived])
  show "(100::day) \<le> 110"
    by (rule initial_business_date_safe[OF first_derived, THEN conjunct1]) (simp add: first_hotel find_many_def)
qed

theorem stamped_record_has_one_day_witness:
  "\<not> accounting_day_match (date_only 101) (\<lambda>r. r) [\<lambda>r. True] (Some (date_only 100))"
proof -
  have "stamp_open_business_date istanbul_zone 9504000 ''t1'' [] overdue_db (Some (BadTail 100 5)) [] = ([], Some 100)"
    by (simp add: stamp_open_business_date_def date_only_of_def)
  from stamped_record_has_one_day[OF this, of "\<lambda>r. r" "Some (date_only 100)"]
  show ?thesis by simp
qed

end
