(* ===== verification/FolioLedger.thy ===== *)
theory FolioLedger
  imports BusinessDate
begin

text \<open>
  The folio ledger (core/folio_ledger_service.py): an append-only list of entries per folio
  with gapless sequence numbers, posted under an idempotency key, voided by a reversing
  entry, transferred between folios as a pair of entries, and reconciled with the balances
  stored on the folios.

  Amounts arrive as numbers and are stored rounded to cents; \<open>cents\<close> is Python's
  \<open>round(x, 2)\<close> (ties to even) as a whole number of cents.  The unique indexes are
  (tenant, folio, sequence number) and the idempotency key.  \<open>uuid\<close> numbers the
  \<open>uuid4()\<close> values of one call in the order the code draws them.  The tax breakdown and the
  metadata of an entry, which no operation reads, are left out, and the nightly report is the
  result of its function.
\<close>

section \<open>Data\<close>

record ledger_entry =
  le_id :: string
  le_tenant :: string
  le_folio :: string
  le_booking :: string
  le_seq :: int
  le_type :: string
  le_amount :: int
  le_currency :: string
  le_description :: string
  le_code :: "string option"
  le_tax :: int
  le_method :: "string option"
  le_reference :: "string option"
  le_voided :: bool
  le_voided_by :: "string option"
  le_voided_at :: "instant option"
  le_voided_reason :: "string option"
  le_corr :: string
  le_key :: string
  le_by :: string
  le_at :: instant
  le_date :: "day option"
  le_run :: "string option"

record folio =
  fo_tenant :: string
  fo_id :: string
  fo_booking :: string
  fo_number :: nat
  fo_guest :: "string option"
  fo_status :: string
  fo_balance :: "rat option"
  fo_opening :: "rat option"
  fo_created :: instant
  fo_closed :: "instant option"

record ledger =
  lg_entries :: "ledger_entry list"
  lg_folios :: "folio list"
  lg_settings :: "tenant_settings list"

record posting_env =
  pe_zones :: zones
  pe_now :: instant
  pe_runs :: "audit_run list"
  pe_db :: db
  pe_uuid :: "nat \<Rightarrow> string"

datatype ledger_error =
  FolioNotFound | EntryNotFound | AlreadyVoided | CannotVoidVoid | DuplicateEntry | BusinessDateError

text \<open>\<open>round(x, 2)\<close> in cents.\<close>

definition cents :: "rat \<Rightarrow> int" where
  "cents x =
     (let f = \<lfloor>100 * x\<rfloor>; r = 100 * x - of_int f in
      if r < 1 / 2 then f else if 1 / 2 < r then f + 1 else if even f then f else f + 1)"

section \<open>The collection\<close>

definition on_folio :: "string \<Rightarrow> string \<Rightarrow> ledger_entry \<Rightarrow> bool" where
  "on_folio tenant folio_id e \<longleftrightarrow> le_tenant e = tenant \<and> le_folio e = folio_id"

definition next_sequence :: "string \<Rightarrow> string \<Rightarrow> ledger_entry list \<Rightarrow> int" where
  "next_sequence tenant folio_id es =
     (case map le_seq (find_many (on_folio tenant folio_id) es) of
        [] \<Rightarrow> 1
      | s # ss \<Rightarrow> fold max ss s + 1)"

definition require_folio :: "string \<Rightarrow> string \<Rightarrow> ledger \<Rightarrow> folio option" where
  "require_folio tenant folio_id l = find_one (\<lambda>f. fo_tenant f = tenant \<and> fo_id f = folio_id) (lg_folios l)"

definition entry_slot :: "ledger_entry \<Rightarrow> string \<times> string \<times> int" where
  "entry_slot e = (le_tenant e, le_folio e, le_seq e)"

text \<open>On a duplicate the entry with the same key, of any tenant, is the result; \<open>None\<close> re-raises.\<close>

definition insert_entry :: "ledger_entry \<Rightarrow> ledger_entry list \<Rightarrow> ledger_entry list \<times> ledger_entry option" where
  "insert_entry e es =
     (if list_ex (\<lambda>x. entry_slot x = entry_slot e \<or> le_key x = le_key e) es
      then (es, find_one (\<lambda>x. le_key x = le_key e) es)
      else (es @ [e], Some e))"

definition compute_balance :: "string \<Rightarrow> string \<Rightarrow> ledger \<Rightarrow> int" where
  "compute_balance tenant folio_id l = sum_list (map le_amount (find_many (on_folio tenant folio_id) (lg_entries l)))"

definition stamp_entry :: "posting_env \<Rightarrow> string \<Rightarrow> iso option \<Rightarrow> ledger \<Rightarrow> ledger \<times> day option" where
  "stamp_entry pe tenant explicit l =
     (let (ss, day) = stamp_open_business_date (pe_zones pe) (pe_now pe) tenant (pe_runs pe) (pe_db pe) explicit (lg_settings l)
      in (l\<lparr>lg_settings := ss\<rparr>, day))"

section \<open>Posting\<close>

text \<open>
  The common body of \<open>post_charge\<close>, \<open>post_payment\<close> and \<open>post_adjustment\<close>: the folio must
  exist, the entry takes the next sequence number, is stamped with its accounting day and
  inserted, and the answer is its id with the new balance.
\<close>

definition post_entry ::
  "posting_env \<Rightarrow> string \<Rightarrow> string \<Rightarrow> iso option \<Rightarrow> (int \<Rightarrow> day \<Rightarrow> ledger_entry) \<Rightarrow> ledger \<Rightarrow>
   ledger \<times> (ledger_error + string \<times> int)" where
  "post_entry pe tenant folio_id explicit entry l =
     (if require_folio tenant folio_id l = None then (l, Inl FolioNotFound)
      else
        (let seq = next_sequence tenant folio_id (lg_entries l) in
         case stamp_entry pe tenant explicit l of
           (l1, None) \<Rightarrow> (l1, Inl BusinessDateError)
         | (l1, Some day) \<Rightarrow>
             (case insert_entry (entry seq day) (lg_entries l1) of
                (es, None) \<Rightarrow> (l1, Inl DuplicateEntry)
              | (es, Some r) \<Rightarrow>
                  (let l2 = l1\<lparr>lg_entries := es\<rparr>
                   in (l2, Inr (le_id r, compute_balance tenant folio_id l2))))))"

definition blank_entry :: "posting_env \<Rightarrow> string \<Rightarrow> string \<Rightarrow> string \<Rightarrow> string option \<Rightarrow> string \<Rightarrow> int \<Rightarrow> day \<Rightarrow> ledger_entry" where
  "blank_entry pe tenant folio_id booking_id key by seq day =
     \<lparr>le_id = pe_uuid pe 0, le_tenant = tenant, le_folio = folio_id, le_booking = booking_id, le_seq = seq,
      le_type = '''', le_amount = 0, le_currency = '''', le_description = '''', le_code = None, le_tax = 0,
      le_method = None, le_reference = None, le_voided = False, le_voided_by = None, le_voided_at = None,
      le_voided_reason = None, le_corr = pe_uuid pe 1, le_key = str_or key (pe_uuid pe 2), le_by = by,
      le_at = pe_now pe, le_date = Some day, le_run = None\<rparr>"

definition post_charge ::
  "posting_env \<Rightarrow> string \<Rightarrow> string \<Rightarrow> string \<Rightarrow> rat \<Rightarrow> string \<Rightarrow> string \<Rightarrow> string \<Rightarrow> rat \<Rightarrow> string option \<Rightarrow> string \<Rightarrow>
   iso option \<Rightarrow> string option \<Rightarrow> ledger \<Rightarrow> ledger \<times> (ledger_error + string \<times> int)" where
  "post_charge pe tenant folio_id booking_id amount description charge_code currency tax_amount key by business_date run =
     post_entry pe tenant folio_id business_date
       (\<lambda>seq day. (blank_entry pe tenant folio_id booking_id key by seq day)
          \<lparr>le_type := ''charge'', le_amount := cents amount, le_currency := currency, le_description := description,
           le_code := Some charge_code, le_tax := cents tax_amount, le_run := run\<rparr>)"

definition post_payment ::
  "posting_env \<Rightarrow> string \<Rightarrow> string \<Rightarrow> string \<Rightarrow> rat \<Rightarrow> string \<Rightarrow> string \<Rightarrow> string \<Rightarrow> string option \<Rightarrow> string \<Rightarrow>
   iso option \<Rightarrow> ledger \<Rightarrow> ledger \<times> (ledger_error + string \<times> int)" where
  "post_payment pe tenant folio_id booking_id amount method reference currency key by business_date =
     post_entry pe tenant folio_id business_date
       (\<lambda>seq day. (blank_entry pe tenant folio_id booking_id key by seq day)
          \<lparr>le_type := ''payment'', le_amount := - cents amount, le_currency := currency,
           le_description := ''Payment ('' @ method @ '')'' @ (if reference = [] then [] else '' - '' @ reference),
           le_method := Some method, le_reference := (if reference = [] then None else Some reference)\<rparr>)"

definition post_adjustment ::
  "posting_env \<Rightarrow> string \<Rightarrow> string \<Rightarrow> string \<Rightarrow> rat \<Rightarrow> string \<Rightarrow> string \<Rightarrow> string \<Rightarrow> string option \<Rightarrow> string option \<Rightarrow> string \<Rightarrow>
   ledger \<Rightarrow> ledger \<times> (ledger_error + string \<times> int)" where
  "post_adjustment pe tenant folio_id booking_id amount description charge_code currency reference key by =
     post_entry pe tenant folio_id None
       (\<lambda>seq day. (blank_entry pe tenant folio_id booking_id key by seq day)
          \<lparr>le_type := ''adjustment'', le_amount := cents amount, le_currency := currency, le_description := description,
           le_code := Some charge_code, le_reference := reference\<rparr>)"

section \<open>Voiding\<close>

text \<open>The reversing entry: the negated amount, under the key \<open>void:<entry>\<close>.\<close>

definition void_of :: "posting_env \<Rightarrow> ledger_entry \<Rightarrow> string \<Rightarrow> string \<Rightarrow> int \<Rightarrow> day \<Rightarrow> ledger_entry" where
  "void_of pe original reason by seq day =
     (blank_entry pe (le_tenant original) (le_folio original) (le_booking original)
        (Some (''void:'' @ le_id original)) by seq day)
       \<lparr>le_type := ''void'', le_amount := - le_amount original, le_currency := le_currency original,
        le_description := ''VOID: '' @ le_description original @ '' - '' @ reason, le_code := le_code original,
        le_tax := - le_tax original, le_method := le_method original, le_reference := Some (le_id original)\<rparr>"

definition mark_voided :: "posting_env \<Rightarrow> string \<Rightarrow> string \<Rightarrow> ledger_entry \<Rightarrow> ledger_entry" where
  "mark_voided pe by_entry reason e =
     e\<lparr>le_voided := True, le_voided_by := Some by_entry, le_voided_at := Some (pe_now pe), le_voided_reason := Some reason\<rparr>"

definition void_entry ::
  "posting_env \<Rightarrow> string \<Rightarrow> string \<Rightarrow> string \<Rightarrow> string \<Rightarrow> string \<Rightarrow> ledger \<Rightarrow>
   ledger \<times> (ledger_error + string \<times> int)" where
  "void_entry pe tenant folio_id entry_id reason by l =
     (if require_folio tenant folio_id l = None then (l, Inl FolioNotFound)
      else case find_one (\<lambda>e. le_id e = entry_id \<and> on_folio tenant folio_id e) (lg_entries l) of
          None \<Rightarrow> (l, Inl EntryNotFound)
        | Some original \<Rightarrow>
            if le_voided original then (l, Inl AlreadyVoided)
            else if le_type original = ''void'' then (l, Inl CannotVoidVoid)
            else
              (let seq = next_sequence tenant folio_id (lg_entries l) in
               case stamp_entry pe tenant None l of
                 (l1, None) \<Rightarrow> (l1, Inl BusinessDateError)
               | (l1, Some day) \<Rightarrow>
                   (case insert_entry (void_of pe original reason by seq day) (lg_entries l1) of
                      (es, None) \<Rightarrow> (l1, Inl DuplicateEntry)
                    | (es, Some r) \<Rightarrow>
                        (let l2 = l1\<lparr>lg_entries := update_one (\<lambda>e. le_id e = entry_id \<and> le_tenant e = tenant)
                                       (mark_voided pe (le_id r) reason) es\<rparr>
                         in (l2, Inr (le_id r, compute_balance tenant folio_id l2))))))"

section \<open>Transfers\<close>

text \<open>The ids drawn: correlation, fallback key, out entry, in entry.\<close>

definition transfer_leg ::
  "posting_env \<Rightarrow> string \<Rightarrow> string \<Rightarrow> string \<Rightarrow> string \<Rightarrow> int \<Rightarrow> string \<Rightarrow> string \<Rightarrow> string \<Rightarrow> string \<Rightarrow> int \<Rightarrow> day \<Rightarrow> ledger_entry" where
  "transfer_leg pe tenant folio_id other booking_id amount kind description i key seq day =
     \<lparr>le_id = i, le_tenant = tenant, le_folio = folio_id, le_booking = booking_id, le_seq = seq,
      le_type = kind, le_amount = amount, le_currency = ''TRY'', le_description = description, le_code = None, le_tax = 0,
      le_method = None, le_reference = Some other, le_voided = False, le_voided_by = None, le_voided_at = None,
      le_voided_reason = None, le_corr = pe_uuid pe 0, le_key = key, le_by = '''',
      le_at = pe_now pe, le_date = Some day, le_run = None\<rparr>"

definition transfer ::
  "posting_env \<Rightarrow> string \<Rightarrow> string \<Rightarrow> string \<Rightarrow> rat \<Rightarrow> string \<Rightarrow> string \<Rightarrow> string option \<Rightarrow> string \<Rightarrow> ledger \<Rightarrow>
   ledger \<times> (ledger_error + string \<times> string)" where
  "transfer pe tenant from_folio to_folio amount description booking_id key by l =
     (if require_folio tenant from_folio l = None then (l, Inl FolioNotFound)
      else if require_folio tenant to_folio l = None then (l, Inl FolioNotFound)
      else
        (let idem = str_or key (pe_uuid pe 1);
             seq_out = next_sequence tenant from_folio (lg_entries l);
             seq_in = next_sequence tenant to_folio (lg_entries l);
             out_entry = (\<lambda>day. (transfer_leg pe tenant from_folio to_folio booking_id (- cents amount) ''transfer_out''
                            (''Transfer Out: '' @ description) (pe_uuid pe 2) (idem @ '':out'') seq_out day)\<lparr>le_by := by\<rparr>);
             in_entry = (\<lambda>day. (transfer_leg pe tenant to_folio from_folio booking_id (cents amount) ''transfer_in''
                            (''Transfer In: '' @ description) (pe_uuid pe 3) (idem @ '':in'') seq_in day)\<lparr>le_by := by\<rparr>)
         in case stamp_entry pe tenant None l of
              (l1, None) \<Rightarrow> (l1, Inl BusinessDateError)
            | (l1, Some day_out) \<Rightarrow>
                (case stamp_entry pe tenant None l1 of
                   (l2, None) \<Rightarrow> (l2, Inl BusinessDateError)
                 | (l2, Some day_in) \<Rightarrow>
                     (case insert_entry (out_entry day_out) (lg_entries l2) of
                        (es, None) \<Rightarrow> (l2, Inl DuplicateEntry)
                      | (es, Some r_out) \<Rightarrow>
                          (case insert_entry (in_entry day_in) es of
                             (es', None) \<Rightarrow> (l2\<lparr>lg_entries := es'\<rparr>, Inl DuplicateEntry)
                           | (es', Some r_in) \<Rightarrow> (l2\<lparr>lg_entries := es'\<rparr>, Inr (le_id r_out, le_id r_in)))))))"

section \<open>Reading and reconciling\<close>

definition get_ledger :: "string \<Rightarrow> string \<Rightarrow> ledger \<Rightarrow> (ledger_entry list \<times> int \<times> nat) option" where
  "get_ledger tenant folio_id l =
     (if require_folio tenant folio_id l = None then None
      else
        (let entries = sort_key le_seq (find_many (on_folio tenant folio_id) (lg_entries l))
         in Some (entries, compute_balance tenant folio_id l, length entries)))"

text \<open>A difference of rounded amounts, in cents; \<open>abs(difference) < 0.01\<close> is a difference of no cent.\<close>

record folio_check =
  fc_folio :: string
  fc_ledger :: int
  fc_stored :: rat
  fc_difference :: int
  fc_balanced :: bool

definition reconcile_folio :: "string \<Rightarrow> string \<Rightarrow> ledger \<Rightarrow> folio_check option" where
  "reconcile_folio tenant folio_id l =
     (case require_folio tenant folio_id l of
        None \<Rightarrow> None
      | Some f \<Rightarrow>
          (let ledger_balance = compute_balance tenant folio_id l;
               folio_balance = get_default 0 (fo_balance f);
               difference = cents (of_int ledger_balance / 100 - folio_balance)
           in Some \<lparr>fc_folio = folio_id, fc_ledger = ledger_balance, fc_stored = folio_balance,
                    fc_difference = difference, fc_balanced = (\<bar>difference\<bar> < 1)\<rparr>))"

text \<open>The nightly run: one grouped sum over the open folios, \<open>None\<close> when the aggregation fails.\<close>

definition grouped_totals :: "string \<Rightarrow> string list \<Rightarrow> ledger_entry list \<Rightarrow> (string \<times> int) list" where
  "grouped_totals tenant folio_ids es =
     (let found = find_many (\<lambda>e. le_tenant e = tenant \<and> le_folio e \<in> set folio_ids) es
      in to_list (length folio_ids)
           (map (\<lambda>f. (f, sum_list (map le_amount (filter (\<lambda>e. le_folio e = f) found))))
                (rev (remdups (rev (map le_folio found))))))"

record recon_report =
  rp_status :: string
  rp_checked :: nat
  rp_balanced :: nat
  rp_errors :: nat
  rp_mismatches :: "folio_check list"

definition run_reconciliation :: "bool \<Rightarrow> string \<Rightarrow> ledger \<Rightarrow> recon_report" where
  "run_reconciliation aggregate_up tenant l =
     (let open_folios = find_many (\<lambda>f. fo_tenant f = tenant \<and> fo_status f = ''open'') (lg_folios l);
          totals = (if aggregate_up then grouped_totals tenant (map fo_id open_folios) (lg_entries l) else []);
          errors = (if aggregate_up then 0 else length open_folios);
          check = (\<lambda>f. let ledger_balance = get_default 0 (map_of totals (fo_id f));
                           folio_balance = cents (get_default 0 (fo_balance f));
                           difference = ledger_balance - folio_balance
                       in \<lparr>fc_folio = fo_id f, fc_ledger = ledger_balance, fc_stored = of_int folio_balance / 100,
                           fc_difference = difference, fc_balanced = (\<bar>difference\<bar> < 1)\<rparr>);
          mismatches = filter (\<lambda>c. \<not> fc_balanced c) (map check open_folios)
      in \<lparr>rp_status = (if mismatches = [] \<and> errors = 0 then ''balanced'' else if mismatches \<noteq> [] then ''mismatch'' else ''error''),
          rp_checked = length open_folios,
          rp_balanced = length (filter fc_balanced (map check open_folios)),
          rp_errors = errors, rp_mismatches = mismatches\<rparr>)"

section \<open>The abstract ledger: what was posted\<close>

text \<open>An entry without its void marks, the only fields that change after posting.\<close>

definition posted :: "ledger_entry \<Rightarrow> ledger_entry" where
  "posted e = e\<lparr>le_voided := False, le_voided_by := None, le_voided_at := None, le_voided_reason := None\<rparr>"

definition history :: "ledger \<Rightarrow> ledger_entry list" where
  "history l = map posted (lg_entries l)"

definition folio_seqs :: "string \<Rightarrow> string \<Rightarrow> ledger_entry list \<Rightarrow> int list" where
  "folio_seqs t f es = map le_seq (filter (on_folio t f) es)"

definition folio_total :: "string \<Rightarrow> string \<Rightarrow> ledger_entry list \<Rightarrow> int" where
  "folio_total t f es = sum_list (map le_amount (filter (on_folio t f) es))"

text \<open>Every folio is numbered 1, 2, 3, ... without a gap, and no key is used twice.\<close>

definition ledger_ok :: "ledger_entry list \<Rightarrow> bool" where
  "ledger_ok es \<longleftrightarrow> distinct (map le_key es) \<and> (\<forall>t f. folio_seqs t f es = [1..int (length (folio_seqs t f es))])"

text \<open>The one way the abstract ledger grows.\<close>

inductive grows :: "ledger_entry list \<Rightarrow> ledger_entry list \<Rightarrow> bool" where
  append: "\<lbrakk>le_seq e = next_sequence (le_tenant e) (le_folio e) es; le_key e \<notin> le_key ` set es\<rbrakk> \<Longrightarrow> grows es (es @ [e])"

lemma posted_simps [simp]:
  "le_key (posted e) = le_key e" "le_seq (posted e) = le_seq e" "le_tenant (posted e) = le_tenant e"
  "le_folio (posted e) = le_folio e" "le_amount (posted e) = le_amount e" "le_id (posted e) = le_id e"
  "on_folio t f (posted e) = on_folio t f e" "posted (mark_voided pe i r e) = posted e"
  by (simp_all add: posted_def on_folio_def mark_voided_def)

lemma on_folio_own [simp]: "on_folio (le_tenant e) (le_folio e) e"
  by (simp add: on_folio_def)

lemma next_sequence_alt: "next_sequence t f es = (case folio_seqs t f es of [] \<Rightarrow> 1 | s # ss \<Rightarrow> fold max ss s + 1)"
  by (simp add: next_sequence_def folio_seqs_def find_many_def)

lemma map_posted_seqs: "folio_seqs t f (map posted es) = folio_seqs t f es"
  by (induction es) (simp_all add: folio_seqs_def)

lemma next_sequence_posted [simp]: "next_sequence t f (map posted es) = next_sequence t f es"
  by (simp add: next_sequence_alt map_posted_seqs)

lemma folio_total_posted [simp]: "folio_total t f (map posted es) = folio_total t f es"
  by (induction es) (simp_all add: folio_total_def)

lemma balance_history: "compute_balance t f l = folio_total t f (history l)"
  by (simp add: compute_balance_def history_def folio_total_posted) (simp add: folio_total_def find_many_def)

lemma folio_seqs_append [simp]: "folio_seqs t f (es @ [e]) = folio_seqs t f es @ (if on_folio t f e then [le_seq e] else [])"
  by (simp add: folio_seqs_def)

lemma folio_total_simps [simp]:
  "folio_total t f [] = 0"
  "folio_total t f (e # es) = (if on_folio t f e then le_amount e else 0) + folio_total t f es"
  "folio_total t f (es @ fs) = folio_total t f es + folio_total t f fs"
  by (simp_all add: folio_total_def)

lemma fold_max_upto: "0 \<le> n \<Longrightarrow> fold max [2..n + 1] (1::int) = n + 1"
proof -
  assume "0 \<le> n"
  then have "Max (set (1 # [2..n + 1])) = n + 1" by (intro Max_eqI) auto
  then show ?thesis by (simp only: Max.set_eq_fold)
qed

lemma next_sequence_ok:
  assumes "folio_seqs t f es = [1..int (length (folio_seqs t f es))]"
  shows "next_sequence t f es = int (length (folio_seqs t f es)) + 1"
proof (cases "folio_seqs t f es")
  case Nil
  then show ?thesis by (simp add: next_sequence_alt)
next
  case (Cons s ss)
  then have "[1..int (length ss) + 1] = s # ss" using assms by (simp add: algebra_simps)
  then have "s = 1" "ss = [2..int (length ss) + 1]" by (simp_all add: upto_rec1)
  then show ?thesis using Cons fold_max_upto[of "int (length ss)"] by (simp add: next_sequence_alt)
qed

lemma grows_ok: "grows es es' \<Longrightarrow> ledger_ok es \<Longrightarrow> ledger_ok es'"
proof (induction rule: grows.induct)
  case (append e es)
  have "folio_seqs t f (es @ [e]) = [1..int (length (folio_seqs t f (es @ [e])))]" for t f
  proof (cases "on_folio t f e")
    case True
    have ok: "folio_seqs t f es = [1..int (length (folio_seqs t f es))]" using append.prems by (simp add: ledger_ok_def)
    have "le_seq e = int (length (folio_seqs t f es)) + 1"
      using append.hyps(1) True next_sequence_ok[OF ok] by (simp add: on_folio_def)
    then show ?thesis using True ok by (simp add: upto_rec2 algebra_simps)
  next
    case False
    then show ?thesis using append.prems by (simp add: ledger_ok_def)
  qed
  with append show ?case by (auto simp: ledger_ok_def)
qed

lemma grows_prefix: "grows es es' \<Longrightarrow> prefix es es'"
  by (auto elim: grows.cases)

lemma grows_posted: "grows es es' \<Longrightarrow> grows (map posted es) (map posted es')"
proof (induction rule: grows.induct)
  case (append e es)
  then show ?case using grows.append[of "posted e" "map posted es"] by (simp add: image_image)
qed

lemma grows_posted_star: "grows\<^sup>*\<^sup>* es es' \<Longrightarrow> grows\<^sup>*\<^sup>* (map posted es) (map posted es')"
  by (induction rule: rtranclp_induct) (auto intro: rtranclp.rtrancl_into_rtrancl grows_posted)

lemma ledger_ok_posted [simp]: "ledger_ok (map posted es) = ledger_ok es"
  by (simp add: ledger_ok_def map_posted_seqs comp_def)

lemma slot_taken:
  assumes "ledger_ok es" "x \<in> set es" "entry_slot x = entry_slot e" "le_seq e = next_sequence (le_tenant e) (le_folio e) es"
  shows False
proof -
  have "on_folio (le_tenant e) (le_folio e) x" "le_seq x = le_seq e" using assms(3) by (auto simp: entry_slot_def on_folio_def)
  then have "x \<in> set (filter (on_folio (le_tenant e) (le_folio e)) es)" using assms(2) by simp
  then have "le_seq x \<in> set (folio_seqs (le_tenant e) (le_folio e) es)"
    unfolding folio_seqs_def set_map by (rule imageI)
  then have "le_seq e \<in> set (folio_seqs (le_tenant e) (le_folio e) es)" using \<open>le_seq x = le_seq e\<close> by simp
  moreover have ok: "folio_seqs (le_tenant e) (le_folio e) es = [1..int (length (folio_seqs (le_tenant e) (le_folio e) es))]"
    using assms(1) by (simp add: ledger_ok_def)
  ultimately have "le_seq e \<le> int (length (folio_seqs (le_tenant e) (le_folio e) es))" by (metis atLeastAtMost_iff set_upto)
  then show False using assms(4) next_sequence_ok[OF ok] by simp
qed

text \<open>An insert of an entry with the next number: appended, or answered by the holder of its key.\<close>

lemma insert_next:
  assumes "insert_entry e es = (es', r)" "le_seq e = next_sequence (le_tenant e) (le_folio e) es" "ledger_ok es"
  shows "if le_key e \<in> le_key ` set es then es' = es \<and> (\<exists>x \<in> set es. r = Some x \<and> le_key x = le_key e)
         else es' = es @ [e] \<and> r = Some e \<and> grows es (es @ [e])"
proof -
  have slot: "entry_slot x \<noteq> entry_slot e" if "x \<in> set es" for x using slot_taken[OF assms(3) that _ assms(2)] by blast
  show ?thesis
  proof (cases "le_key e \<in> le_key ` set es")
    case True
    then obtain y where "find_one (\<lambda>x. le_key x = le_key e) es = Some y"
      by (cases "find_one (\<lambda>x. le_key x = le_key e) es") (auto simp: store_simps)
    from find_one_Some[OF this] have y: "y \<in> set es" "le_key y = le_key e" by simp_all
    moreover have "list_ex (\<lambda>x. entry_slot x = entry_slot e \<or> le_key x = le_key e) es"
      using y by (auto simp: list_ex_iff)
    then have "es' = es" "r = Some y"
      using assms(1) \<open>find_one (\<lambda>x. le_key x = le_key e) es = Some y\<close> by (simp_all add: insert_entry_def)
    ultimately show ?thesis using True by simp
  next
    case False
    then have "\<not> list_ex (\<lambda>x. entry_slot x = entry_slot e \<or> le_key x = le_key e) es" using slot unfolding list_ex_iff by (metis imageI)
    then show ?thesis using False assms(1,2) by (auto simp: insert_entry_def intro: grows.append)
  qed
qed


section \<open>What the operations append\<close>

lemma stamp_entry_frame:
  "stamp_entry pe t ex l = (l', day) \<Longrightarrow> lg_entries l' = lg_entries l \<and> lg_folios l' = lg_folios l"
  by (auto simp: stamp_entry_def split: prod.splits)

text \<open>The outcomes of a posting on a well-numbered ledger.\<close>

lemma post_entry_cases:
  assumes "post_entry pe t f ex entry l = (l', r)" "ledger_ok (lg_entries l)"
    and "\<And>seq day. on_folio t f (entry seq day) \<and> le_seq (entry seq day) = seq"
  obtains (folio) "r = Inl FolioNotFound" "l' = l" "require_folio t f l = None"
  | (day) "r = Inl BusinessDateError" "lg_entries l' = lg_entries l" "lg_folios l' = lg_folios l" "stamp_entry pe t ex l = (l', None)"
  | (replay) x l1 day where "stamp_entry pe t ex l = (l1, Some day)" "x \<in> set (lg_entries l)"
      "le_key x = le_key (entry (next_sequence t f (lg_entries l)) day)" "lg_entries l' = lg_entries l" "lg_folios l' = lg_folios l"
      "r = Inr (le_id x, compute_balance t f l)"
  | (new) l1 day e where "stamp_entry pe t ex l = (l1, Some day)" "e = entry (next_sequence t f (lg_entries l)) day"
      "le_key e \<notin> le_key ` set (lg_entries l)" "lg_entries l' = lg_entries l @ [e]" "lg_folios l' = lg_folios l"
      "grows (lg_entries l) (lg_entries l')" "r = Inr (le_id e, compute_balance t f l + le_amount e)"
proof (cases "require_folio t f l = None")
  case True
  then show thesis using assms(1) folio by (simp add: post_entry_def)
next
  case found: False
  obtain l1 dy where st: "stamp_entry pe t ex l = (l1, dy)" by (metis prod.exhaust)
  note fr = stamp_entry_frame[OF st]
  show thesis
  proof (cases dy)
    case None
    then show thesis using assms(1) found st fr day by (simp add: post_entry_def)
  next
    case (Some d)
    let ?e = "entry (next_sequence t f (lg_entries l)) d"
    obtain es q where ins: "insert_entry ?e (lg_entries l) = (es, q)" by (metis prod.exhaust)
    have own: "le_tenant ?e = t" "le_folio ?e = f" using assms(3) by (auto simp: on_folio_def)
    from insert_next[OF ins _ assms(2)] own assms(3)
    have c: "if le_key ?e \<in> le_key ` set (lg_entries l) then es = lg_entries l \<and> (\<exists>x \<in> set (lg_entries l). q = Some x \<and> le_key x = le_key ?e)
         else es = lg_entries l @ [?e] \<and> q = Some ?e \<and> grows (lg_entries l) (lg_entries l @ [?e])" by simp
    show thesis
    proof (cases "le_key ?e \<in> le_key ` set (lg_entries l)")
      case True
      with c obtain x where "x \<in> set (lg_entries l)" "q = Some x" "le_key x = le_key ?e" "es = lg_entries l" by auto
      then show thesis
        using assms(1) found st fr ins Some replay[of l1 d x]
        by (simp add: post_entry_def Let_def) (auto simp: compute_balance_def)
    next
      case False
      then have "es = lg_entries l @ [?e]" "q = Some ?e" "grows (lg_entries l) (lg_entries l @ [?e])" using c by simp_all
      moreover have "on_folio t f ?e" using assms(3) by simp
      ultimately show thesis
        using assms(1) found st fr ins Some False new[of l1 d ?e]
        by (simp add: post_entry_def Let_def) (auto simp: compute_balance_def find_many_def)
    qed
  qed
qed

lemma post_entry_grows:
  assumes "post_entry pe t f ex entry l = (l', r)" "ledger_ok (lg_entries l)"
    and "\<And>seq day. on_folio t f (entry seq day) \<and> le_seq (entry seq day) = seq"
  shows "grows\<^sup>*\<^sup>* (lg_entries l) (lg_entries l') \<and> lg_folios l' = lg_folios l"
  using assms by (rule post_entry_cases) auto

lemma blank_entry_simps [simp]:
  "le_seq (blank_entry pe t f b key by seq day) = seq" "le_amount (blank_entry pe t f b key by seq day) = 0"
  "le_key (blank_entry pe t f b key by seq day) = str_or key (pe_uuid pe 2)" "le_id (blank_entry pe t f b key by seq day) = pe_uuid pe 0"
  "le_tenant (blank_entry pe t f b key by seq day) = t" "le_folio (blank_entry pe t f b key by seq day) = f"
  by (simp_all add: blank_entry_def)

lemmas postings = post_charge_def post_payment_def post_adjustment_def

lemma post_charge_grows:
  "post_charge pe t f b a ds cc cu tx key by bd run l = (l', r) \<Longrightarrow> ledger_ok (lg_entries l) \<Longrightarrow>
     grows\<^sup>*\<^sup>* (lg_entries l) (lg_entries l') \<and> lg_folios l' = lg_folios l"
  unfolding post_charge_def by (erule post_entry_grows) (simp_all add: on_folio_def)

lemma post_payment_grows:
  "post_payment pe t f b a m rf cu key by bd l = (l', r) \<Longrightarrow> ledger_ok (lg_entries l) \<Longrightarrow>
     grows\<^sup>*\<^sup>* (lg_entries l) (lg_entries l') \<and> lg_folios l' = lg_folios l"
  unfolding post_payment_def by (erule post_entry_grows) (simp_all add: on_folio_def)

lemma post_adjustment_grows:
  "post_adjustment pe t f b a ds cc cu rf key by l = (l', r) \<Longrightarrow> ledger_ok (lg_entries l) \<Longrightarrow>
     grows\<^sup>*\<^sup>* (lg_entries l) (lg_entries l') \<and> lg_folios l' = lg_folios l"
  unfolding post_adjustment_def by (erule post_entry_grows) (simp_all add: on_folio_def)

text \<open>A void appends the reversal, unless its key is taken, and marks the original.\<close>

lemma void_cases:
  assumes "void_entry pe t f i reason by l = (l', r)" "ledger_ok (lg_entries l)"
  obtains (rejected) e where "r = Inl e" "lg_entries l' = lg_entries l" "lg_folios l' = lg_folios l"
  | (marked) o' x where "o' \<in> set (lg_entries l)" "le_id o' = i" "on_folio t f o'" "\<not> le_voided o'" "le_type o' \<noteq> ''void''"
      "x \<in> set (lg_entries l)" "le_key x = ''void:'' @ i" "lg_folios l' = lg_folios l"
      "lg_entries l' = update_one (\<lambda>e. le_id e = i \<and> le_tenant e = t) (mark_voided pe (le_id x) reason) (lg_entries l)"
      "r = Inr (le_id x, compute_balance t f l')"
  | (reversed) o' day v where "o' \<in> set (lg_entries l)" "le_id o' = i" "on_folio t f o'" "\<not> le_voided o'" "le_type o' \<noteq> ''void''"
      "v = void_of pe o' reason by (next_sequence t f (lg_entries l)) day" "''void:'' @ i \<notin> le_key ` set (lg_entries l)"
      "grows (lg_entries l) (lg_entries l @ [v])" "lg_folios l' = lg_folios l"
      "lg_entries l' = update_one (\<lambda>e. le_id e = i \<and> le_tenant e = t) (mark_voided pe (le_id v) reason) (lg_entries l @ [v])"
      "r = Inr (le_id v, compute_balance t f l')"
proof (cases "\<exists>o'. require_folio t f l \<noteq> None \<and> find_one (\<lambda>e. le_id e = i \<and> on_folio t f e) (lg_entries l) = Some o'
    \<and> \<not> le_voided o' \<and> le_type o' \<noteq> ''void''")
  case False
  then have "\<exists>e. r = Inl e \<and> l' = l" using assms(1) by (auto simp: void_entry_def split: option.splits if_splits)
  then show thesis using rejected by blast
next
  case True
  then obtain o' where o': "require_folio t f l \<noteq> None" "find_one (\<lambda>e. le_id e = i \<and> on_folio t f e) (lg_entries l) = Some o'"
    "\<not> le_voided o'" "le_type o' \<noteq> ''void''" by blast
  from find_one_Some[OF o'(2)] have m: "o' \<in> set (lg_entries l)" "le_id o' = i" "on_folio t f o'" by simp_all
  then have own: "le_tenant o' = t" "le_folio o' = f" by (simp_all add: on_folio_def)
  obtain l1 dy where st: "stamp_entry pe t None l = (l1, dy)" by (metis prod.exhaust)
  note fr = stamp_entry_frame[OF st]
  show thesis
  proof (cases dy)
    case None
    then show thesis using assms(1) o' st fr rejected by (auto simp: void_entry_def)
  next
    case (Some d)
    let ?v = "void_of pe o' reason by (next_sequence t f (lg_entries l)) d"
    have v: "le_key ?v = ''void:'' @ i" "le_tenant ?v = t" "le_folio ?v = f" "le_seq ?v = next_sequence t f (lg_entries l)"
      using own m(2) by (simp_all add: void_of_def)
    obtain es q where ins: "insert_entry ?v (lg_entries l) = (es, q)" by (metis prod.exhaust)
    from insert_next[OF ins _ assms(2), unfolded v, OF refl]
    have c: "if ''void:'' @ i \<in> le_key ` set (lg_entries l) then es = lg_entries l \<and> (\<exists>x \<in> set (lg_entries l). q = Some x \<and> le_key x = ''void:'' @ i)
         else es = lg_entries l @ [?v] \<and> q = Some ?v \<and> grows (lg_entries l) (lg_entries l @ [?v])"
      .
    show thesis
    proof (cases "''void:'' @ i \<in> le_key ` set (lg_entries l)")
      case True
      with c obtain x where "x \<in> set (lg_entries l)" "q = Some x" "le_key x = ''void:'' @ i" "es = lg_entries l" by auto
      then show thesis
        using assms(1) o' st fr ins Some marked[of o' x] m by (simp add: void_entry_def Let_def) auto
    next
      case False
      then have "es = lg_entries l @ [?v]" "q = Some ?v" "grows (lg_entries l) (lg_entries l @ [?v])" using c by simp_all
      then show thesis
        using assms(1) o' st fr ins Some False reversed[of o' ?v d] m by (simp add: void_entry_def Let_def) auto
    qed
  qed
qed

lemma void_grows:
  assumes "void_entry pe t f i reason by l = (l', r)" "ledger_ok (lg_entries l)"
  shows "\<exists>es. grows\<^sup>*\<^sup>* (lg_entries l) es \<and> map posted (lg_entries l') = map posted es \<and> lg_folios l' = lg_folios l"
  using assms
proof (cases rule: void_cases)
  case (reversed o' day v)
  then show ?thesis by (intro exI[of _ "lg_entries l @ [v]"]) (auto simp: map_update_one)
qed (auto simp: map_update_one)

section \<open>Transfers on the abstract ledger\<close>

lemma transfer_leg_simps [simp]:
  "le_key (transfer_leg pe t f g b a kd ds i key seq day) = key" "le_seq (transfer_leg pe t f g b a kd ds i key seq day) = seq"
  "le_tenant (transfer_leg pe t f g b a kd ds i key seq day) = t" "le_folio (transfer_leg pe t f g b a kd ds i key seq day) = f"
  "le_amount (transfer_leg pe t f g b a kd ds i key seq day) = a" "le_id (transfer_leg pe t f g b a kd ds i key seq day) = i"
  by (simp_all add: transfer_leg_def)

lemma next_sequence_other: "\<not> on_folio t f e \<Longrightarrow> next_sequence t f (es @ [e]) = next_sequence t f es"
  by (simp add: next_sequence_alt)

definition key_used :: "string \<Rightarrow> ledger_entry list \<Rightarrow> bool" where
  "key_used k es \<longleftrightarrow> k \<in> le_key ` set es"

lemma mem_keys: "k \<in> le_key ` set es \<longleftrightarrow> (\<exists>x \<in> set es. le_key x = k)"
  by auto

text \<open>One leg: appended under a fresh key, answered by the holder of a used one.\<close>

lemma insert_leg:
  assumes "insert_entry e es = (es', r)" "le_seq e = next_sequence (le_tenant e) (le_folio e) es" "ledger_ok es"
  shows "\<exists>x. r = Some x \<and> es' = (if key_used (le_key e) es then es else es @ [e]) \<and> grows\<^sup>*\<^sup>* es es' \<and> ledger_ok es'"
  using insert_next[OF assms] assms(3) grows_ok[of es es'] by (auto simp: key_used_def split: if_splits)

text \<open>A second leg on the same folio has the number of the first and is refused.\<close>

lemma insert_same_slot:
  assumes "x \<in> set es" "entry_slot x = entry_slot e"
  shows "insert_entry e es = (es, find_one (\<lambda>x. le_key x = le_key e) es)"
  using assms by (auto simp: insert_entry_def list_ex_iff)

lemma transfer_cases:
  assumes "transfer pe t f g a ds b key by l = (l', r)" "ledger_ok (lg_entries l)"
  obtains (rejected) e where "r = Inl e" "e = FolioNotFound \<or> e = BusinessDateError" "lg_entries l' = lg_entries l" "lg_folios l' = lg_folios l"
  | (same) e1 where "f = g" "\<not> key_used (str_or key (pe_uuid pe 1) @ '':out'') (lg_entries l)"
      "le_tenant e1 = t" "le_folio e1 = f" "le_amount e1 = - cents a" "le_key e1 = str_or key (pe_uuid pe 1) @ '':out''"
      "grows (lg_entries l) (lg_entries l @ [e1])" "lg_entries l' = lg_entries l @ [e1]" "lg_folios l' = lg_folios l"
      "r \<noteq> Inl DuplicateEntry \<longleftrightarrow> key_used (str_or key (pe_uuid pe 1) @ '':in'') (lg_entries l')"
  | (legs) e1 e2 es1 i j where
      "f \<noteq> g \<or> key_used (str_or key (pe_uuid pe 1) @ '':out'') (lg_entries l)"
      "le_tenant e1 = t" "le_folio e1 = f" "le_amount e1 = - cents a" "le_key e1 = str_or key (pe_uuid pe 1) @ '':out''"
      "le_tenant e2 = t" "le_folio e2 = g" "le_amount e2 = cents a" "le_key e2 = str_or key (pe_uuid pe 1) @ '':in''"
      "es1 = (if key_used (le_key e1) (lg_entries l) then lg_entries l else lg_entries l @ [e1])"
      "lg_entries l' = (if key_used (le_key e2) es1 then es1 else es1 @ [e2])"
      "grows\<^sup>*\<^sup>* (lg_entries l) (lg_entries l')" "lg_folios l' = lg_folios l" "r = Inr (i, j)"
proof (cases "require_folio t f l = None \<or> require_folio t g l = None")
  case True
  then have "l' = l \<and> r = Inl FolioNotFound" using assms(1) by (auto simp: transfer_def split: if_splits)
  then show thesis using rejected by blast
next
  case found: False
  obtain l1 d1 where st1: "stamp_entry pe t None l = (l1, d1)" by (metis prod.exhaust)
  obtain l2 d2 where st2: "stamp_entry pe t None l1 = (l2, d2)" by (metis prod.exhaust)
  note fr = stamp_entry_frame[OF st1] stamp_entry_frame[OF st2]
  show thesis
  proof (cases "d1 = None \<or> d2 = None")
    case True
    then show thesis using assms(1) found st1 st2 fr rejected by (auto simp: transfer_def Let_def split: option.splits)
  next
    case False
    then obtain d d' where d: "d1 = Some d" "d2 = Some d'" by auto
    let ?k = "str_or key (pe_uuid pe 1)"
    define e1 where "e1 = (transfer_leg pe t f g b (- cents a) ''transfer_out'' (''Transfer Out: '' @ ds) (pe_uuid pe 2)
        (?k @ '':out'') (next_sequence t f (lg_entries l)) d)\<lparr>le_by := by\<rparr>"
    define e2 where "e2 = (transfer_leg pe t g f b (cents a) ''transfer_in'' (''Transfer In: '' @ ds) (pe_uuid pe 3)
        (?k @ '':in'') (next_sequence t g (lg_entries l)) d')\<lparr>le_by := by\<rparr>"
    have e1: "le_tenant e1 = t" "le_folio e1 = f" "le_amount e1 = - cents a" "le_key e1 = ?k @ '':out''"
      "le_seq e1 = next_sequence t f (lg_entries l)" by (simp_all add: e1_def)
    have e2: "le_tenant e2 = t" "le_folio e2 = g" "le_amount e2 = cents a" "le_key e2 = ?k @ '':in''"
      "le_seq e2 = next_sequence t g (lg_entries l)" by (simp_all add: e2_def)
    obtain es1 q1 where i1: "insert_entry e1 (lg_entries l) = (es1, q1)" by (metis prod.exhaust)
    obtain es2 q2 where i2: "insert_entry e2 es1 = (es2, q2)" by (metis prod.exhaust)
    from insert_leg[OF i1 _ assms(2)] e1 obtain x where
      x: "q1 = Some x" "es1 = (if key_used (le_key e1) (lg_entries l) then lg_entries l else lg_entries l @ [e1])"
         "grows\<^sup>*\<^sup>* (lg_entries l) es1" "ledger_ok es1" by auto
    have res: "(l', r) = (l2\<lparr>lg_entries := es2\<rparr>, case q2 of None \<Rightarrow> Inl DuplicateEntry | Some y \<Rightarrow> Inr (le_id x, le_id y))"
      using assms(1) found st1 st2 fr d i1 i2 x(1) by (auto simp: transfer_def Let_def e1_def e2_def split: option.splits)
    show thesis
    proof (cases "f \<noteq> g \<or> key_used (le_key e1) (lg_entries l)")
      case True
      then have "le_seq e2 = next_sequence (le_tenant e2) (le_folio e2) es1"
        using e1 e2 x(2) by (auto simp: next_sequence_other on_folio_def)
      from insert_leg[OF i2 this x(4)] obtain y where
        y: "q2 = Some y" "es2 = (if key_used (le_key e2) es1 then es1 else es1 @ [e2])" "grows\<^sup>*\<^sup>* es1 es2" by auto
      show thesis
        by (rule legs[of e1 e2 es1 "le_id x" "le_id y"]) (use True e1 e2 x y res fr in \<open>auto intro: rtranclp_trans\<close>)
    next
      case False
      then have es1: "es1 = lg_entries l @ [e1]" using x(2) by simp
      have g: "grows (lg_entries l) (lg_entries l @ [e1])"
        using grows.append[of e1 "lg_entries l"] e1 False by (simp add: key_used_def)
      have "insert_entry e2 es1 = (es1, find_one (\<lambda>z. le_key z = le_key e2) es1)"
        by (rule insert_same_slot[of e1]) (use es1 e1 e2 False in \<open>simp_all add: entry_slot_def\<close>)
      moreover have "find_one (\<lambda>z. le_key z = le_key e2) es1 = None \<longleftrightarrow> \<not> key_used (le_key e2) es1"
        by (auto simp: key_used_def store_simps mem_keys)
      ultimately have "q2 = None \<longleftrightarrow> \<not> key_used (le_key e2) es1" "es2 = es1"
        using i2 by simp_all
      then show thesis
        using res fr False e1 e2(4) es1 g same[of e1] by (cases q2) auto
    qed
  qed
qed

lemma transfer_grows:
  assumes "transfer pe t f g a ds b key by l = (l', r)" "ledger_ok (lg_entries l)"
  shows "grows\<^sup>*\<^sup>* (lg_entries l) (lg_entries l') \<and> lg_folios l' = lg_folios l"
  using assms by (cases rule: transfer_cases) auto

section \<open>Every run of the service\<close>

inductive ledger_step :: "ledger \<Rightarrow> ledger \<Rightarrow> bool" where
  charge: "post_charge pe t f b a ds cc cu tx key by bd run l = (l', r) \<Longrightarrow> ledger_step l l'"
| payment: "post_payment pe t f b a m rf cu key by bd l = (l', r) \<Longrightarrow> ledger_step l l'"
| adjustment: "post_adjustment pe t f b a ds cc cu rf key by l = (l', r) \<Longrightarrow> ledger_step l l'"
| void: "void_entry pe t f i reason by l = (l', r) \<Longrightarrow> ledger_step l l'"
| move: "transfer pe t f g a ds b key by l = (l', r) \<Longrightarrow> ledger_step l l'"

lemma step_grows:
  assumes "ledger_step l l'" "ledger_ok (history l)"
  shows "grows\<^sup>*\<^sup>* (history l) (history l') \<and> lg_folios l' = lg_folios l"
proof -
  have ok: "ledger_ok (lg_entries l)" using assms(2) by (simp add: history_def)
  from assms(1) have "\<exists>es. grows\<^sup>*\<^sup>* (lg_entries l) es \<and> map posted (lg_entries l') = map posted es \<and> lg_folios l' = lg_folios l"
  proof cases
    case charge
    then show ?thesis using post_charge_grows ok by blast
  next
    case payment
    then show ?thesis using post_payment_grows ok by blast
  next
    case adjustment
    then show ?thesis using post_adjustment_grows ok by blast
  next
    case void
    then show ?thesis using void_grows ok by blast
  next
    case move
    then show ?thesis using transfer_grows ok by blast
  qed
  then show ?thesis unfolding history_def using grows_posted_star by metis
qed

lemma grows_star_ok: "grows\<^sup>*\<^sup>* es es' \<Longrightarrow> ledger_ok es \<Longrightarrow> ledger_ok es'"
  by (induction rule: rtranclp_induct) (auto intro: grows_ok)

lemma grows_star_prefix: "grows\<^sup>*\<^sup>* es es' \<Longrightarrow> prefix es es'"
  by (induction rule: rtranclp_induct) (auto dest: grows_prefix intro: prefix_order.trans)

interpretation ledger_runs: invariant_system "\<lambda>l. lg_entries l = []" ledger_step "\<lambda>l. ledger_ok (history l)"
proof
  show "ledger_ok (history l)" if "lg_entries l = []" for l
    using that by (simp add: history_def ledger_ok_def folio_seqs_def)
  show "ledger_ok (history t)" if "ledger_ok (history s)" "ledger_step s t" for s t
    using step_grows[OF that(2,1)] grows_star_ok that(1) by blast
qed

lemma run_grows:
  assumes "ledger_step\<^sup>*\<^sup>* l l'" "ledger_ok (history l)"
  shows "grows\<^sup>*\<^sup>* (history l) (history l') \<and> lg_folios l' = lg_folios l"
  using assms
proof (induction rule: rtranclp_induct)
  case (step y z)
  then have "ledger_ok (history y)" using ledger_runs.run_inv by blast
  with step step_grows[of y z] show ?case by (auto intro: rtranclp_trans)
qed auto

section \<open>Properties\<close>

text \<open>
  C7.  The folio ledger is append-only and gapless: in every run of charges, payments,
  adjustments, voids and transfers from an empty ledger, the entries of each folio are numbered
  1, 2, 3, ... in posting order, no idempotency key occurs twice, and at every later point the
  earlier entries are still there in the same place and unchanged but for their void marks.
\<close>

theorem ledger_append_only_gapless:
  assumes "lg_entries l = []" "ledger_step\<^sup>*\<^sup>* l l1" "ledger_step\<^sup>*\<^sup>* l1 l2"
  shows "(\<forall>t f. folio_seqs t f (lg_entries l1) = [1..int (length (folio_seqs t f (lg_entries l1)))])
    \<and> distinct (map le_key (lg_entries l1))
    \<and> prefix (map posted (lg_entries l1)) (map posted (lg_entries l2))"
proof -
  have ok: "ledger_ok (history l1)" by (rule ledger_runs.reachable_inv[OF assms(1,2)])
  with run_grows[OF assms(3)] have "prefix (history l1) (history l2)" using grows_star_prefix by blast
  moreover have "ledger_ok (lg_entries l1)" using ok by (simp add: history_def)
  ultimately show ?thesis by (simp add: history_def ledger_ok_def)
qed

text \<open>
  A charge counts exactly once.  On a numbered ledger a successful call either posts one
  new entry for the rounded amount, and the balance it reports is the old one plus that amount,
  or, when its idempotency key is in use, posts nothing and reports the entry holding the key
  with the balance as it is.  Repeating the call with the same non-empty key, by anyone and
  with any amount, leaves the entries as they are.
\<close>

theorem charge_counts_once:
  assumes "post_charge pe t f b a ds cc cu tx key by bd run l = (l1, Inr (i, balance))" "ledger_ok (lg_entries l)"
    and "truthy key" "post_charge pe2 t f b2 a2 ds2 cc2 cu2 tx2 key by2 bd2 run2 l1 = (l2, r)"
  shows "(if key_used (get_default '''' key) (lg_entries l)
          then lg_entries l1 = lg_entries l \<and> balance = compute_balance t f l \<and> (\<exists>x \<in> set (lg_entries l). le_key x = get_default '''' key \<and> i = le_id x)
          else \<exists>e. lg_entries l1 = lg_entries l @ [e] \<and> i = le_id e \<and> le_type e = ''charge'' \<and> le_amount e = cents a
                 \<and> on_folio t f e \<and> balance = compute_balance t f l + cents a)
    \<and> compute_balance t f l1 = balance \<and> lg_entries l2 = lg_entries l1"
proof -
  have key: "str_or key k = get_default '''' key" for k using assms(3) by (cases key) (auto simp: str_or_def truthy_def)
  have bal: "compute_balance t f m = folio_total t f (lg_entries m)" for m
    by (simp add: balance_history history_def)
  have first: "(if key_used (get_default '''' key) (lg_entries l)
          then lg_entries l1 = lg_entries l \<and> balance = compute_balance t f l \<and> (\<exists>x \<in> set (lg_entries l). le_key x = get_default '''' key \<and> i = le_id x)
          else \<exists>e. lg_entries l1 = lg_entries l @ [e] \<and> i = le_id e \<and> le_type e = ''charge'' \<and> le_amount e = cents a
                 \<and> on_folio t f e \<and> le_key e = get_default '''' key \<and> balance = compute_balance t f l + cents a)"
    by (rule post_entry_cases[OF assms(1)[unfolded post_charge_def] assms(2)])
      (auto simp: key key_used_def on_folio_def mem_keys)
  have "ledger_ok (lg_entries l1)"
    using post_charge_grows[OF assms(1,2)] grows_star_ok assms(2) by blast
  moreover have used: "key_used (get_default '''' key) (lg_entries l1)"
    using first by (auto simp: key_used_def split: if_splits)
  ultimately have "lg_entries l2 = lg_entries l1"
    using assms(4) unfolding post_charge_def
    by (elim post_entry_cases) (auto simp: key key_used_def on_folio_def)
  moreover have "compute_balance t f l1 = balance" using first by (auto simp: bal split: if_splits)
  ultimately show ?thesis using first by (auto split: if_splits)
qed

text \<open>
  A transfer moves money and makes none.  Between two folios of a hotel a successful
  transfer takes the amount from one and adds it to the other and leaves all other balances;
  a leg whose key is already used, as after an interrupted or a repeated transfer, is not
  posted again, so the retry completes exactly the missing leg.
\<close>

theorem transfer_moves_money:
  assumes "transfer pe t f g a ds b key by l = (l1, Inr ids)" "ledger_ok (lg_entries l)" "f \<noteq> g"
  shows "compute_balance t' h l1 = compute_balance t' h l
      - (if t' = t \<and> h = f \<and> \<not> key_used (str_or key (pe_uuid pe 1) @ '':out'') (lg_entries l) then cents a else 0)
      + (if t' = t \<and> h = g \<and> \<not> key_used (str_or key (pe_uuid pe 1) @ '':in'') (lg_entries l) then cents a else 0)"
proof -
  have bal: "compute_balance u h m = folio_total u h (lg_entries m)" for u h m
    by (simp add: balance_history history_def)
  have "str_or key (pe_uuid pe 1) @ '':out'' \<noteq> str_or key (pe_uuid pe 1) @ '':in''" by simp
  with assms show ?thesis
    by (elim transfer_cases) (auto simp: bal key_used_def on_folio_def)
qed

text \<open>
  A transfer of a folio to itself loses the money: with fresh keys the withdrawal is
  posted, the deposit is refused because it has the sequence number of the withdrawal, the call
  raises, and the balance is lower by the amount.
\<close>

theorem self_transfer_half_posted:
  assumes "transfer pe t f f a ds b key by l = (l1, r)" "ledger_ok (lg_entries l)"
    and "\<not> key_used (str_or key (pe_uuid pe 1) @ '':out'') (lg_entries l)" "\<not> key_used (str_or key (pe_uuid pe 1) @ '':in'') (lg_entries l)"
    and "r \<noteq> Inl FolioNotFound" "r \<noteq> Inl BusinessDateError"
  shows "r = Inl DuplicateEntry \<and> compute_balance t f l1 = compute_balance t f l - cents a"
proof -
  have bal: "compute_balance u h m = folio_total u h (lg_entries m)" for u h m
    by (simp add: balance_history history_def)
  have "str_or key (pe_uuid pe 1) @ '':out'' \<noteq> str_or key (pe_uuid pe 1) @ '':in''" by simp
  with assms show ?thesis
    by (elim transfer_cases) (auto simp: bal key_used_def on_folio_def)
qed

section \<open>Voids\<close>

lemma same_posted:
  assumes "map posted xs = map posted ys"
  shows "folio_total t f xs = folio_total t f ys"
    and "length (filter (\<lambda>e. P (le_key e)) xs) = length (filter (\<lambda>e. P (le_key e)) ys)"
proof -
  show "folio_total t f xs = folio_total t f ys" using assms folio_total_posted by metis
  have "filter (\<lambda>e. P (le_key e)) (map posted zs) = map posted (filter (\<lambda>e. P (le_key e)) zs)" for zs
    by (simp add: filter_map comp_def)
  then show "length (filter (\<lambda>e. P (le_key e)) xs) = length (filter (\<lambda>e. P (le_key e)) ys)"
    using assms length_map by metis
qed

lemma one_per_key:
  assumes "distinct (map le_key es)" "k \<in> le_key ` set es"
  shows "length (filter (\<lambda>e. le_key e = k) es) = 1"
  using assms by (induction es) (auto simp: filter_empty_conv image_iff)

lemma marked_entry:
  assumes "distinct (map (\<lambda>e. (le_tenant e, le_id e)) es)" "o' \<in> set es" "le_id o' = i" "le_tenant o' = t"
  shows "mark_voided pe j reason o' \<in> set (update_one (\<lambda>e. le_id e = i \<and> le_tenant e = t) (mark_voided pe j reason) es)"
proof -
  have "update_one (\<lambda>e. le_id e = i \<and> le_tenant e = t) (mark_voided pe j reason) es
      = update_many (\<lambda>e. le_id e = i \<and> le_tenant e = t) (mark_voided pe j reason) es"
    by (rule update_one_unique[OF assms(1)]) auto
  then show ?thesis using update_many_hit[of o' es "\<lambda>e. le_id e = i \<and> le_tenant e = t"] assms(2-4) by simp
qed

lemma mark_voided_simps [simp]:
  "le_tenant (mark_voided pe j reason e) = le_tenant e" "le_id (mark_voided pe j reason e) = le_id e"
  "le_voided (mark_voided pe j reason e)" "on_folio t f (mark_voided pe j reason e) = on_folio t f e"
  by (simp_all add: mark_voided_def on_folio_def)

lemma void_again_refused:
  assumes "require_folio t f l1 \<noteq> None" "distinct (map (\<lambda>e. (le_tenant e, le_id e)) (lg_entries l1))"
    and "e \<in> set (lg_entries l1)" "le_id e = i" "on_folio t f e" "le_voided e"
  shows "void_entry pe t f i reason by l1 = (l1, Inl AlreadyVoided)"
proof -
  obtain y where y: "find_one (\<lambda>e. le_id e = i \<and> on_folio t f e) (lg_entries l1) = Some y"
    using assms(3-5) by (cases "find_one (\<lambda>e. le_id e = i \<and> on_folio t f e) (lg_entries l1)") (auto simp: store_simps)
  from find_one_Some[OF this] have m: "y \<in> set (lg_entries l1)" "le_id y = i" "on_folio t f y" by simp_all
  then have "(le_tenant y, le_id y) = (le_tenant e, le_id e)" using assms(4,5) by (simp add: on_folio_def)
  then have "y = e" using inj_onD[OF conjunct2[OF assms(2)[unfolded distinct_map]]] m(1) assms(3) by blast
  then show ?thesis using y assms(1,6) by (auto simp: void_entry_def)
qed

text \<open>
  A void takes the entry out of the balance exactly once.  When the ids of a hotel's
  entries are distinct, a successful void of an entry leaves exactly one entry under the
  reversal key, the new balance is the old one less the amount of the voided entry (or the old
  one, when the reversal was already there from an interrupted void), other folios keep their
  balance, and a second void of the entry is refused and changes nothing.
\<close>

theorem void_takes_out_once:
  assumes "void_entry pe t f i reason by l = (l1, Inr (v, balance))" "ledger_ok (lg_entries l)"
    and "distinct (map (\<lambda>e. (le_tenant e, le_id e)) (lg_entries l1))"
  shows "\<exists>e \<in> set (lg_entries l). le_id e = i \<and> on_folio t f e \<and> \<not> le_voided e
    \<and> balance = compute_balance t f l - (if key_used (''void:'' @ i) (lg_entries l) then 0 else le_amount e)
    \<and> compute_balance t f l1 = balance
    \<and> (\<forall>t' f'. (t', f') \<noteq> (t, f) \<longrightarrow> compute_balance t' f' l1 = compute_balance t' f' l)
    \<and> length (filter (\<lambda>e. le_key e = ''void:'' @ i) (lg_entries l1)) = 1
    \<and> (\<forall>pe2 reason2 by2. void_entry pe2 t f i reason2 by2 l1 = (l1, Inl AlreadyVoided))"
proof -
  have bal: "compute_balance u h m = folio_total u h (lg_entries m)" for u h m
    by (simp add: balance_history history_def)
  have req: "require_folio t f m \<noteq> None" if "lg_folios m = lg_folios l" for m
    using assms(1) that by (auto simp: void_entry_def require_folio_def split: if_splits)
  let ?upd = "\<lambda>j. update_one (\<lambda>e. le_id e = i \<and> le_tenant e = t) (mark_voided pe j reason)"
  have same: "map posted (?upd j es) = map posted es" "map (\<lambda>e. (le_tenant e, le_id e)) (?upd j es) = map (\<lambda>e. (le_tenant e, le_id e)) es"
    for j es by (simp_all add: map_update_one)
  have refused: "void_entry pe2 t f i reason2 by2 l1 = (l1, Inl AlreadyVoided)"
    if h: "lg_entries l1 = ?upd j es" "o' \<in> set es" "le_id o' = i" "on_folio t f o'" "lg_folios l1 = lg_folios l" for j es o' pe2 reason2 by2
  proof (rule void_again_refused[OF req[OF h(5)] assms(3)])
    have "distinct (map (\<lambda>e. (le_tenant e, le_id e)) es)" using assms(3) h(1) same(2) by simp
    from marked_entry[OF this h(2,3), of t] show "mark_voided pe j reason o' \<in> set (lg_entries l1)"
      using h(1,4) by (simp add: on_folio_def)
  qed (use h(3,4) in simp_all)
  from assms(1,2) show ?thesis
  proof (cases rule: void_cases)
    case (marked o' x)
    have used: "''void:'' @ i \<in> le_key ` set (lg_entries l)" using marked(6,7) by force
    note eq = same(1)[of "le_id x" "lg_entries l", folded marked(9)]
    have "length (filter (\<lambda>e. le_key e = ''void:'' @ i) (lg_entries l1)) = 1"
      using one_per_key[OF _ used] assms(2) same_posted(2)[OF eq, of "\<lambda>k. k = ''void:'' @ i"] by (simp add: ledger_ok_def)
    then show ?thesis
      using marked(1-4,10) refused[OF marked(9,1,2,3,8)] same_posted(1)[OF eq] used
      by (intro bexI[of _ o']) (auto simp: bal key_used_def)
  next
    case (reversed o' day w)
    note eq = same(1)[of "le_id w" "lg_entries l @ [w]", folded reversed(10)]
    have w: "le_key w = ''void:'' @ i" "le_amount w = - le_amount o'" "on_folio t' f' w = on_folio t' f' o'" for t' f'
      using reversed(2,6) by (simp_all add: void_of_def on_folio_def)
    have "ledger_ok (lg_entries l @ [w])" using grows_ok[OF reversed(8) assms(2)] .
    then have "length (filter (\<lambda>e. le_key e = ''void:'' @ i) (lg_entries l1)) = 1"
      using one_per_key[of "lg_entries l @ [w]" "''void:'' @ i"] w(1) same_posted(2)[OF eq, of "\<lambda>k. k = ''void:'' @ i"]
      by (simp add: ledger_ok_def)
    moreover have "void_entry pe2 t f i reason2 by2 l1 = (l1, Inl AlreadyVoided)" for pe2 reason2 by2
      using refused[OF reversed(10) _ reversed(2,3,9)] reversed(1) by simp
    moreover have "on_folio t' f' o' \<longleftrightarrow> (t', f') = (t, f)" for t' f' using reversed(3) by (auto simp: on_folio_def)
    ultimately show ?thesis
      using reversed(1-4,7,11) same_posted(1)[OF eq] w
      by (intro bexI[of _ o']) (auto simp: bal key_used_def)
  qed simp
qed

section \<open>The nightly run against the check of one folio\<close>

lemma cents_whole [simp]: "cents (of_int n / 100) = n"
  by (simp add: cents_def Let_def)

lemma cents_diff: "cents (of_int m / 100 - of_int n / 100) = m - n"
proof -
  have "(of_int m / 100 - of_int n / 100 :: rat) = of_int (m - n) / 100" by (simp add: diff_divide_distrib)
  then show ?thesis by (simp only: cents_whole)
qed

lemma grouped_lookup:
  assumes "f \<in> set ids"
  shows "get_default 0 (map_of (grouped_totals t ids es) f) = folio_total t f es"
proof -
  let ?found = "filter (\<lambda>e. le_tenant e = t \<and> le_folio e \<in> set ids) es"
  let ?keys = "rev (remdups (rev (map le_folio ?found)))"
  have "card (set ?keys) \<le> card (set ids)" by (rule card_mono) auto
  moreover have "distinct ?keys" by simp
  ultimately have "length ?keys \<le> length ids" using card_length[of ids] distinct_card[of ?keys] by linarith
  then have all: "grouped_totals t ids es = map (\<lambda>f. (f, sum_list (map le_amount (filter (\<lambda>e. le_folio e = f) ?found)))) ?keys"
    by (simp add: grouped_totals_def Let_def find_many_def to_list_def)
  have fil: "filter (\<lambda>e. le_folio e = f) ?found = filter (on_folio t f) es"
    using assms unfolding filter_filter by (intro filter_cong) (auto simp: on_folio_def)
  show ?thesis
  proof (cases "f \<in> set ?keys")
    case True
    then have "map_of (grouped_totals t ids es) f = Some (folio_total t f es)"
      unfolding all by (simp only: map_of_map_restrict restrict_map_def fil folio_total_def comp_def if_True)
    then show ?thesis by simp
  next
    case False
    then have "filter (on_folio t f) es = []" using assms by (auto simp: filter_empty_conv on_folio_def)
    moreover have "map_of (grouped_totals t ids es) f = None" using False unfolding all by (simp add: map_of_map_restrict)
    ultimately show ?thesis by (simp add: folio_total_def)
  qed
qed

lemma filter_map_Some: "filter (\<lambda>c. \<not> P (the c)) (map (\<lambda>f. Some (g f)) xs) = map Some (filter (\<lambda>c. \<not> P c) (map g xs))"
  by (induction xs) simp_all

definition whole_cents :: "folio \<Rightarrow> bool" where
  "whole_cents f \<longleftrightarrow> of_int (cents (get_default 0 (fo_balance f))) / 100 = get_default 0 (fo_balance f)"

lemma require_folio_this:
  assumes "distinct (map (\<lambda>f. (fo_tenant f, fo_id f)) (lg_folios l))" "f \<in> set (lg_folios l)"
  shows "require_folio (fo_tenant f) (fo_id f) l = Some f"
proof -
  have "(\<lambda>y. fo_tenant y = fo_tenant f \<and> fo_id y = fo_id f) = (\<lambda>y. (fo_tenant y, fo_id y) = (fo_tenant f, fo_id f))" by auto
  then show ?thesis using find_unique[OF assms] by (simp add: require_folio_def find_one_def)
qed

text \<open>
  C33.  The nightly reconciliation, one grouped sum over all open folios, agrees with the check of
  each folio on its own when folio ids are unique and stored balances are whole cents: its
  mismatches are exactly the unbalanced single checks, in folio order, with the same balances
  and difference, every open folio is counted once, and the status is "balanced" exactly when
  every stored balance equals its ledger sum.
\<close>

theorem nightly_agrees_with_folio_check:
  assumes "distinct (map (\<lambda>f. (fo_tenant f, fo_id f)) (lg_folios l))" "\<forall>f \<in> set (lg_folios l). whole_cents f"
  shows "map Some (rp_mismatches (run_reconciliation True t l))
      = filter (\<lambda>c. \<not> fc_balanced (the c)) (map (\<lambda>f. reconcile_folio t (fo_id f) l)
          (filter (\<lambda>f. fo_tenant f = t \<and> fo_status f = ''open'') (lg_folios l)))
    \<and> rp_checked (run_reconciliation True t l)
      = rp_balanced (run_reconciliation True t l) + length (rp_mismatches (run_reconciliation True t l))
    \<and> (rp_status (run_reconciliation True t l) = ''balanced'' \<longleftrightarrow>
        (\<forall>f \<in> set (lg_folios l). fo_tenant f = t \<and> fo_status f = ''open'' \<longrightarrow>
            of_int (compute_balance t (fo_id f) l) / 100 = get_default 0 (fo_balance f)))"
proof -
  let ?open = "filter (\<lambda>f. fo_tenant f = t \<and> fo_status f = ''open'') (lg_folios l)"
  let ?tot = "grouped_totals t (map fo_id ?open) (lg_entries l)"
  define check where "check f = (let ledger_balance = get_default 0 (map_of ?tot (fo_id f));
                           folio_balance = cents (get_default 0 (fo_balance f));
                           difference = ledger_balance - folio_balance
                       in \<lparr>fc_folio = fo_id f, fc_ledger = ledger_balance, fc_stored = of_int folio_balance / 100,
                           fc_difference = difference, fc_balanced = (\<bar>difference\<bar> < 1)\<rparr>)" for f :: folio
  have run: "run_reconciliation True t l = \<lparr>rp_status = (if filter (\<lambda>c. \<not> fc_balanced c) (map check ?open) = [] then ''balanced'' else ''mismatch''),
      rp_checked = length ?open, rp_balanced = length (filter fc_balanced (map check ?open)), rp_errors = 0,
      rp_mismatches = filter (\<lambda>c. \<not> fc_balanced c) (map check ?open)\<rparr>"
    by (simp add: run_reconciliation_def Let_def find_many_def check_def[unfolded Let_def, abs_def])
  have one: "reconcile_folio t (fo_id f) l = Some (check f)" and
    eq: "fc_balanced (check f) \<longleftrightarrow> of_int (compute_balance t (fo_id f) l) / 100 = get_default 0 (fo_balance f)"
    if f: "f \<in> set ?open" for f
  proof -
    have "compute_balance t (fo_id f) l = folio_total t (fo_id f) (lg_entries l)" by (simp add: balance_history history_def)
    then have led: "get_default 0 (map_of ?tot (fo_id f)) = compute_balance t (fo_id f) l"
      using grouped_lookup[of "fo_id f" "map fo_id ?open" t "lg_entries l"] f by force
    define c where "c = cents (get_default 0 (fo_balance f))"
    have "whole_cents f" using assms(2) f by simp
    then have c: "c = cents (get_default 0 (fo_balance f))" "get_default 0 (fo_balance f) = of_int c / 100"
      by (simp_all only: whole_cents_def c_def)
    have "require_folio t (fo_id f) l = Some f" using require_folio_this[OF assms(1), of f] f by auto
    then show "reconcile_folio t (fo_id f) l = Some (check f)"
      by (simp add: reconcile_folio_def check_def Let_def led c(2) cents_diff)
    show "fc_balanced (check f) \<longleftrightarrow> of_int (compute_balance t (fo_id f) l) / 100 = get_default 0 (fo_balance f)"
      by (simp add: check_def Let_def led c(2))
  qed
  have "map (\<lambda>f. reconcile_folio t (fo_id f) l) ?open = map (\<lambda>f. Some (check f)) ?open"
    using one by (intro map_cong) auto
  then have "map Some (filter (\<lambda>c. \<not> fc_balanced c) (map check ?open))
      = filter (\<lambda>c. \<not> fc_balanced (the c)) (map (\<lambda>f. reconcile_folio t (fo_id f) l) ?open)"
    by (simp only: filter_map_Some)
  moreover have "length ?open = length (filter fc_balanced (map check ?open)) + length (filter (\<lambda>c. \<not> fc_balanced c) (map check ?open))"
    using sum_length_filter_compl[of fc_balanced "map check ?open"] by simp
  moreover have "filter (\<lambda>c. \<not> fc_balanced c) (map check ?open) = [] \<longleftrightarrow>
      (\<forall>f \<in> set (lg_folios l). fo_tenant f = t \<and> fo_status f = ''open'' \<longrightarrow>
            of_int (compute_balance t (fo_id f) l) / 100 = get_default 0 (fo_balance f))"
    using eq by (auto simp: filter_empty_conv)
  ultimately show ?thesis by (simp add: run)
qed

section \<open>Evaluation\<close>

definition desk :: posting_env where
  "desk = \<lparr>pe_zones = istanbul_zone, pe_now = 9504000, pe_runs = [], pe_db = empty_db,
     pe_uuid = (\<lambda>n. ''u'' @ replicate n (CHR ''x''))\<rparr>"

definition guest_folio :: "string \<Rightarrow> folio" where
  "guest_folio i = \<lparr>fo_tenant = ''t1'', fo_id = i, fo_booking = ''bk1'', fo_number = 1, fo_guest = None,
     fo_status = ''open'', fo_balance = Some 0, fo_opening = None, fo_created = 0, fo_closed = None\<rparr>"

definition two_folios :: ledger where
  "two_folios = \<lparr>lg_entries = [], lg_folios = [guest_folio ''f1'', guest_folio ''f2''], lg_settings = [first_settings]\<rparr>"

lemma desk_stamp:
  assumes "lg_settings l = [first_settings]"
  shows "stamp_entry pe ''t1'' None l = (l, Some 100)"
proof -
  have "Option.bind (settings_of ''t1'' [first_settings]) st_date = Some (date_only 100)"
    by (simp add: settings_of_def find_one_list first_settings_def blank_settings_def)
  from ensure_established[OF this] have "stamp_open_business_date z t0 ''t1'' rs d None [first_settings] = ([first_settings], Some 100)" for z t0 rs d
    by (simp add: stamp_open_business_date_def date_only_of_def settings_of_def find_one_list first_settings_def blank_settings_def date_only_def)
  then show ?thesis using assms by (simp add: stamp_entry_def)
qed

lemma two_folios_found: "lg_folios l = lg_folios two_folios \<Longrightarrow> require_folio ''t1'' ''f1'' l \<noteq> None \<and> require_folio ''t1'' ''f2'' l \<noteq> None"
  by (simp add: require_folio_def two_folios_def guest_folio_def find_one_list)

definition room_charge :: ledger_entry where
  "room_charge = (blank_entry desk ''t1'' ''f1'' ''bk1'' (Some ''k1'') ''night'' 1 100)
     \<lparr>le_type := ''charge'', le_amount := cents (25 / 2), le_currency := ''TRY'', le_description := ''room'',
      le_code := Some ''ROOM'', le_tax := cents 0, le_run := None\<rparr>"

definition charged :: ledger where
  "charged = two_folios\<lparr>lg_entries := [room_charge]\<rparr>"

lemma two_folios_fields [simp]:
  "lg_entries two_folios = []" "lg_settings two_folios = [first_settings]" "pe_uuid desk 0 = ''u''"
  by (simp_all add: two_folios_def desk_def)

lemma charge_runs:
  "post_charge desk ''t1'' ''f1'' ''bk1'' (25 / 2) ''room'' ''ROOM'' ''TRY'' 0 (Some ''k1'') ''night'' None None two_folios
     = (charged, Inr (''u'', 1250))"
  using two_folios_found[OF refl]
  by (simp add: post_charge_def post_entry_def desk_stamp next_sequence_def find_many_def insert_entry_def
      charged_def room_charge_def compute_balance_def on_folio_def cents_def Let_def)

lemma charged_ok: "ledger_ok (lg_entries charged)" "ledger_ok (lg_entries two_folios)"
  by (auto simp: ledger_ok_def charged_def two_folios_def folio_seqs_def room_charge_def)

theorem charge_counts_once_witness:
  "\<exists>l2 r. post_charge desk ''t1'' ''f1'' ''bk1'' 99 ''again'' ''ROOM'' ''TRY'' 0 (Some ''k1'') ''night'' None None charged = (l2, r)
     \<and> lg_entries l2 = [room_charge]"
proof -
  obtain l2 r where again: "post_charge desk ''t1'' ''f1'' ''bk1'' 99 ''again'' ''ROOM'' ''TRY'' 0 (Some ''k1'') ''night'' None None charged = (l2, r)"
    by (metis prod.exhaust)
  from charge_counts_once[OF charge_runs charged_ok(2) _ again] have "lg_entries l2 = lg_entries charged"
    by (simp add: truthy_def)
  then show ?thesis using again by (auto simp: charged_def)
qed

theorem ledger_append_only_gapless_witness:
  "folio_seqs ''t1'' ''f1'' (lg_entries charged) = [1] \<and> map le_key (lg_entries charged) = [''k1'']"
proof -
  have "ledger_step\<^sup>*\<^sup>* two_folios charged" using ledger_step.charge[OF charge_runs] by blast
  from ledger_append_only_gapless[OF _ this rtranclp.rtrancl_refl] show ?thesis
    by (auto simp: two_folios_def charged_def folio_seqs_def room_charge_def on_folio_def str_or_def)
qed

lemma charge_is_there: "find_one (\<lambda>e. le_id e = ''u'' \<and> on_folio ''t1'' ''f1'' e) (lg_entries charged) = Some room_charge"
  by (simp add: charged_def two_folios_def find_one_list room_charge_def on_folio_def desk_def)

definition desk2 :: posting_env where
  "desk2 = desk\<lparr>pe_uuid := (\<lambda>n. ''w'' @ replicate n (CHR ''x''))\<rparr>"

lemma desk2_uuid [simp]: "pe_uuid desk2 0 = ''w''" "pe_uuid desk2 (Suc 0) = ''wx''" "pe_uuid desk2 2 = ''wxx''" "pe_uuid desk2 3 = ''wxxx''"
  by (simp_all add: desk2_def numeral_2_eq_2 numeral_3_eq_3)

lemma fresh_entry_simps [simp]:
  "\<not> le_voided (blank_entry pe t f b key by seq day)" "le_type (blank_entry pe t f b key by seq day) = ''''"
  by (simp_all add: blank_entry_def)

definition voided_ledger :: ledger where
  "voided_ledger = charged\<lparr>lg_entries := [mark_voided desk2 ''w'' ''error'' room_charge, void_of desk2 room_charge ''error'' ''desk'' 2 100]\<rparr>"

lemma room_charge_fields [simp]:
  "le_id room_charge = ''u''" "le_tenant room_charge = ''t1''" "le_folio room_charge = ''f1''" "le_seq room_charge = 1"
  "le_key room_charge = ''k1''" "le_amount room_charge = 1250" "le_type room_charge = ''charge''" "\<not> le_voided room_charge"
  by (simp_all add: room_charge_def cents_def str_or_def)

lemma charged_fields [simp]: "lg_entries charged = [room_charge]" "lg_settings charged = [first_settings]" "lg_folios charged = lg_folios two_folios"
  by (simp_all add: charged_def)

lemma void_runs: "void_entry desk2 ''t1'' ''f1'' ''u'' ''error'' ''desk'' charged = (voided_ledger, Inr (''w'', 0))"
  using two_folios_found[of charged] charge_is_there
  by (simp add: void_entry_def desk_stamp next_sequence_def find_many_def insert_entry_def find_one_list on_folio_def
      compute_balance_def Let_def voided_ledger_def)
    (simp add: void_of_def entry_slot_def mark_voided_def str_or_def)

theorem void_takes_out_once_witness:
  "compute_balance ''t1'' ''f1'' voided_ledger = 0
     \<and> void_entry desk ''t1'' ''f1'' ''u'' ''again'' ''desk'' voided_ledger = (voided_ledger, Inl AlreadyVoided)"
proof -
  have "distinct (map (\<lambda>e. (le_tenant e, le_id e)) (lg_entries voided_ledger))"
    by (simp add: voided_ledger_def void_of_def)
  from void_takes_out_once[OF void_runs charged_ok(1) this] show ?thesis by blast
qed

lemma transfer_runs:
  "\<exists>l1. transfer desk2 ''t1'' ''f1'' ''f2'' (5 / 2) ''split'' ''bk1'' None ''desk'' charged = (l1, Inr (''wxx'', ''wxxx''))"
  using two_folios_found[of charged]
  by (simp add: transfer_def desk_stamp next_sequence_def find_many_def insert_entry_def entry_slot_def on_folio_def Let_def)

theorem transfer_moves_money_witness:
  "\<exists>l1. transfer desk2 ''t1'' ''f1'' ''f2'' (5 / 2) ''split'' ''bk1'' None ''desk'' charged = (l1, Inr (''wxx'', ''wxxx''))
     \<and> compute_balance ''t1'' ''f1'' l1 = 1000 \<and> compute_balance ''t1'' ''f2'' l1 = 250"
proof -
  obtain l1 where r: "transfer desk2 ''t1'' ''f1'' ''f2'' (5 / 2) ''split'' ''bk1'' None ''desk'' charged = (l1, Inr (''wxx'', ''wxxx''))"
    using transfer_runs by blast
  have "cents (5 / 2) = 250" by (simp add: cents_def)
  with transfer_moves_money[OF r charged_ok(1), of "''t1''" "''f1''"] transfer_moves_money[OF r charged_ok(1), of "''t1''" "''f2''"]
  show ?thesis using r by (simp add: key_used_def str_or_def compute_balance_def find_many_def on_folio_def)
qed

lemma self_transfer_runs:
  "\<exists>l1. transfer desk2 ''t1'' ''f1'' ''f1'' (5 / 2) ''split'' ''bk1'' None ''desk'' charged = (l1, Inl DuplicateEntry)"
  using two_folios_found[of charged]
  by (simp add: transfer_def desk_stamp next_sequence_def find_many_def insert_entry_def entry_slot_def on_folio_def Let_def find_one_list)

theorem self_transfer_half_posted_witness:
  "\<exists>l1. transfer desk2 ''t1'' ''f1'' ''f1'' (5 / 2) ''split'' ''bk1'' None ''desk'' charged = (l1, Inl DuplicateEntry)
     \<and> compute_balance ''t1'' ''f1'' l1 = 1000"
proof -
  obtain l1 where r: "transfer desk2 ''t1'' ''f1'' ''f1'' (5 / 2) ''split'' ''bk1'' None ''desk'' charged = (l1, Inl DuplicateEntry)"
    using self_transfer_runs by blast
  have "cents (5 / 2) = 250" by (simp add: cents_def)
  with self_transfer_half_posted[OF r charged_ok(1)] show ?thesis
    using r by (simp add: key_used_def str_or_def compute_balance_def find_many_def on_folio_def)
qed

theorem nightly_agrees_with_folio_check_witness:
  "rp_status (run_reconciliation True ''t1'' two_folios) = ''balanced''"
proof -
  have "distinct (map (\<lambda>f. (fo_tenant f, fo_id f)) (lg_folios two_folios))" "\<forall>f \<in> set (lg_folios two_folios). whole_cents f"
    by (simp_all add: two_folios_def guest_folio_def whole_cents_def cents_def)
  from nightly_agrees_with_folio_check[OF this, of "''t1''"] show ?thesis
    by (simp add: compute_balance_def find_many_def) (simp add: two_folios_def guest_folio_def)
qed

end
