(* ===== verification/CheckInOut.thy ===== *)
theory CheckInOut
  imports FolioLedger
begin

text \<open>
  Check-in and check-out (core/atomic_checkin_checkout.py) and the completion of room revenue
  at check-out (core/folio_checkout_reconciliation.py).

  A \<open>house\<close> is the booking database with the folios, their ledger, the charge and payment
  collections, the housekeeping tasks and the lifecycle events.  These events are outbox
  documents without \<open>max_attempts\<close>, which the delivery worker of Outbox does not claim.

  The body of each operation runs in one database transaction: when it raises, the writes made
  so far are undone.  With \<open>MONGO_DISABLE_TRANSACTIONS=1\<close> the same body runs without one, the
  writes stay, and other clients may change rooms between its reads and its writes; \<open>between\<close>
  is what they did.  \<open>kbs\<close> is the answer of the identity-registration service, \<open>None\<close> when the
  hotel has not configured it; \<open>extra\<close> writes the caller's additional fields.  The hash chain
  that links audit rows is not part of this theory.
\<close>

section \<open>Data\<close>

record charge =
  ch_id :: string
  ch_tenant :: string
  ch_booking :: string
  ch_folio :: string
  ch_type :: string
  ch_category :: string
  ch_key :: "string option"
  ch_amount :: "rat option"
  ch_tax :: "rat option"
  ch_total :: "rat option"
  ch_voided :: bool
  ch_date :: iso
  ch_business :: "iso option"
  ch_by :: string
  ch_created :: instant
  ch_run :: "string option"

record payment =
  pm_tenant :: string
  pm_booking :: string
  pm_amount :: "rat option"
  pm_voided :: bool

record hk_task =
  hk_tenant :: string
  hk_room :: string
  hk_booking :: string
  hk_type :: string
  hk_status :: string

record lifecycle_event =
  lv_tenant :: string
  lv_type :: string
  lv_booking :: string
  lv_room :: "string option"
  lv_guest :: "string option"
  lv_at :: instant
  lv_status :: string

record house =
  hs_db :: db
  hs_ledger :: ledger
  hs_charges :: "charge list"
  hs_payments :: "payment list"
  hs_tasks :: "hk_task list"
  hs_events :: "lifecycle_event list"

record house_env =
  he_now :: instant
  he_id :: string

datatype check_error =
  KbsNotReady | BookingNotFound | WrongStatus | DateGuard guard_error | NoRoom | RoomNotFound | RoomBlocked
| RoomNotReady | RoomChanged | UnpaidBalance int | RoomRevenue string

definition checkin_eligible_statuses :: "string list" where
  "checkin_eligible_statuses = [''confirmed'', ''guaranteed'', ''pending'']"

definition room_blocked_statuses :: "string list" where
  "room_blocked_statuses = [''out_of_order'', ''out_of_service'', ''maintenance'']"

definition allowed_room_statuses :: "string list" where
  "allowed_room_statuses = [''available'', ''inspected'', ''clean'']"

section \<open>Check-in\<close>

text \<open>A folio for the booking, numbered after the folios the hotel has; the number is printed with the year.\<close>

definition ensure_folio :: "house_env \<Rightarrow> string \<Rightarrow> booking \<Rightarrow> house \<Rightarrow> house" where
  "ensure_folio he tenant b h =
     (case find_one (\<lambda>f. fo_booking f = b_id b \<and> fo_tenant f = tenant) (lg_folios (hs_ledger h)) of
        Some _ \<Rightarrow> h
      | None \<Rightarrow>
          h\<lparr>hs_ledger := (hs_ledger h)\<lparr>lg_folios := lg_folios (hs_ledger h) @
             [\<lparr>fo_tenant = tenant, fo_id = he_id he, fo_booking = b_id b,
               fo_number = count_documents (\<lambda>f. fo_tenant f = tenant) (lg_folios (hs_ledger h)) + 1,
               fo_guest = b_guest_id b, fo_status = ''open'', fo_balance = Some 0, fo_opening = None,
               fo_created = he_now he, fo_closed = None\<rparr>]\<rparr>\<rparr>)"

definition on_bookings :: "(booking list \<Rightarrow> booking list) \<Rightarrow> house \<Rightarrow> house" where
  "on_bookings f h = h\<lparr>hs_db := (hs_db h)\<lparr>bookings := f (bookings (hs_db h))\<rparr>\<rparr>"

definition on_rooms :: "(room list \<Rightarrow> room list) \<Rightarrow> house \<Rightarrow> house" where
  "on_rooms f h = h\<lparr>hs_db := (hs_db h)\<lparr>rooms := f (rooms (hs_db h))\<rparr>\<rparr>"

definition audit_log :: "string \<Rightarrow> string \<Rightarrow> string \<Rightarrow> string \<Rightarrow> metadata \<Rightarrow> house \<Rightarrow> house" where
  "audit_log actor tenant entity action meta h =
     h\<lparr>hs_db := (hs_db h)\<lparr>audit_logs := audit_logs (hs_db h) @
         [\<lparr>a_tenant = tenant, a_user = actor, a_action = action, a_entity_type = ''booking'',
           a_entity = entity, a_changes = meta\<rparr>]\<rparr>\<rparr>"

definition lifecycle :: "house_env \<Rightarrow> string \<Rightarrow> string \<Rightarrow> booking \<Rightarrow> house \<Rightarrow> house" where
  "lifecycle he tenant kind b h =
     h\<lparr>hs_events := hs_events h @ [\<lparr>lv_tenant = tenant, lv_type = kind, lv_booking = b_id b, lv_room = b_room b,
         lv_guest = b_guest_id b, lv_at = he_now he, lv_status = ''pending''\<rparr>]\<rparr>"

text \<open>The \<open>$set\<close> of a status with its time, its actor and the message to send; then \<open>extra\<close>.\<close>

definition transition_write ::
  "house_env \<Rightarrow> string \<Rightarrow> string \<Rightarrow> metadata \<Rightarrow> (booking \<Rightarrow> booking) \<Rightarrow> booking \<Rightarrow> booking" where
  "transition_write he status who marks extra b =
     extra (b\<lparr>b_status := Some status,
              b_pending := (status, he_now he) # filter (\<lambda>p. fst p \<noteq> status) (b_pending b),
              b_marks := fold (\<lambda>(k, v). dict_set k v)
                ([(status @ ''_at'', JTime (he_now he)), (status @ ''_by'', JStr who), (''updated_at'', JTime (he_now he))] @ marks)
                (b_marks b)\<rparr>)"

definition is_room :: "string \<Rightarrow> string \<Rightarrow> room \<Rightarrow> bool" where
  "is_room tenant room_id r \<longleftrightarrow> r_id r = room_id \<and> r_tenant r = tenant"

text \<open>The filter of the compare-and-set on the room.\<close>

definition room_may_take :: "string option \<Rightarrow> string \<Rightarrow> bool" where
  "room_may_take override status =
     (if truthy override then status \<notin> set room_blocked_statuses else status \<in> set allowed_room_statuses)"

definition occupy :: "string \<Rightarrow> room \<Rightarrow> room" where
  "occupy booking_id r = r\<lparr>r_status := ''occupied'', r_current := Some booking_id\<rparr>"

text \<open>\<open>modified_count\<close> of an \<open>update_one\<close>: 0 when nothing matches and when the match has the values already.\<close>

definition modifies :: "('a \<Rightarrow> bool) \<Rightarrow> ('a \<Rightarrow> 'a) \<Rightarrow> 'a list \<Rightarrow> bool" where
  "modifies p f xs = (case find_one p xs of None \<Rightarrow> False | Some x \<Rightarrow> f x \<noteq> x)"

definition check_in_txn ::
  "house_env \<Rightarrow> string \<Rightarrow> string \<Rightarrow> string \<Rightarrow> string \<Rightarrow> string option \<Rightarrow> (booking \<Rightarrow> booking) \<Rightarrow>
   (room list \<Rightarrow> room list) \<Rightarrow> house \<Rightarrow> house \<times> (check_error + string)" where
  "check_in_txn he booking_id tenant actor_id actor_name override extra between h =
     (case find_booking tenant booking_id (hs_db h) of
        None \<Rightarrow> (h, Inl BookingNotFound)
      | Some b \<Rightarrow>
          if get_default '''' (b_status b) \<notin> set checkin_eligible_statuses then (h, Inl WrongStatus)
          else (case enforce_business_date_transition tenant b ''check_in'' (lg_settings (hs_ledger h)) of
            Inl e \<Rightarrow> (h, Inl (DateGuard e))
          | Inr _ \<Rightarrow>
              (let room_id = get_default '''' (b_room b) in
               if room_id = [] then (h, Inl NoRoom)
               else (case find_one (is_room tenant room_id) (rooms (hs_db h)) of
                 None \<Rightarrow> (h, Inl RoomNotFound)
               | Some r \<Rightarrow>
                   if r_status r \<in> set room_blocked_statuses then (h, Inl RoomBlocked)
                   else if r_status r \<notin> set allowed_room_statuses \<and> \<not> truthy override then (h, Inl RoomNotReady)
                   else
                     (let h1 = ensure_folio he tenant b h;
                          who = (if actor_name = [] then actor_id else actor_name);
                          marks = (if truthy override then [(''check_in_override_reason'', jopt override)] else []);
                          h2 = on_bookings (update_one (\<lambda>x. booking_key x = (tenant, booking_id))
                                 (transition_write he ''checked_in'' who marks extra)) h1;
                          h3 = on_rooms between h2;
                          free = (\<lambda>x. is_room tenant room_id x \<and> room_may_take override (r_status x))
                      in if \<not> modifies free (occupy booking_id) (rooms (hs_db h3)) then (h3, Inl RoomChanged)
                         else
                           (let h4 = on_rooms (update_one free (occupy booking_id)) h3;
                                h5 = audit_log actor_id tenant booking_id ''check_in_completed''
                                       [(''room_id'', JStr room_id), (''room_number'', jopt (r_number r)),
                                        (''override_reason'', jopt override)] h4
                            in (lifecycle he tenant ''guest.checked_in.v1'' b h5, Inr room_id)))))))"

text \<open>A raise inside the transaction undoes its writes; the writes of other clients stay.\<close>

definition in_transaction ::
  "bool \<Rightarrow> ((room list \<Rightarrow> room list) \<Rightarrow> house \<Rightarrow> house \<times> (check_error + 'r)) \<Rightarrow> (room list \<Rightarrow> room list) \<Rightarrow>
   house \<Rightarrow> house \<times> (check_error + 'r)" where
  "in_transaction transactions body between h =
     (if transactions then (case body (\<lambda>rs. rs) h of (h', Inl e) \<Rightarrow> (h, Inl e) | (h', Inr r) \<Rightarrow> (h', Inr r))
      else body between h)"

definition check_in_booking_atomic ::
  "bool \<Rightarrow> bool option \<Rightarrow> house_env \<Rightarrow> string \<Rightarrow> string \<Rightarrow> string \<Rightarrow> string \<Rightarrow> string option \<Rightarrow> (booking \<Rightarrow> booking) \<Rightarrow>
   (room list \<Rightarrow> room list) \<Rightarrow> house \<Rightarrow> house \<times> (check_error + string)" where
  "check_in_booking_atomic transactions kbs he booking_id tenant actor_id actor_name override extra between h =
     (if kbs = Some False then (h, Inl KbsNotReady)
      else in_transaction transactions (check_in_txn he booking_id tenant actor_id actor_name override extra) between h)"

section \<open>Room revenue at check-out\<close>

text \<open>\<open>_money\<close>: cents of a decimal, ties away from zero.\<close>

definition half_up :: "rat \<Rightarrow> int" where
  "half_up x = (if 0 \<le> x then \<lfloor>x + 1 / 2\<rfloor> else - \<lfloor>- x + 1 / 2\<rfloor>)"

definition money :: "rat option \<Rightarrow> int" where
  "money v = half_up (100 * get_default 0 v)"

definition charge_total :: "charge \<Rightarrow> int" where
  "charge_total c = money (case ch_total c of None \<Rightarrow> ch_amount c | Some x \<Rightarrow> Some x)"

fun latest_folio :: "folio list \<Rightarrow> folio option" where
  "latest_folio [] = None"
| "latest_folio (f # fs) =
     (case latest_folio fs of None \<Rightarrow> Some f
      | Some g \<Rightarrow>
          (let stamp = (\<lambda>x. (case fo_closed x of None \<Rightarrow> (0::int, 0) | Some t \<Rightarrow> (1, t))) in
           if fst (stamp f) < fst (stamp g) \<or> fst (stamp f) = fst (stamp g) \<and>
                (snd (stamp f) < snd (stamp g) \<or> snd (stamp f) = snd (stamp g) \<and> fo_created f < fo_created g)
           then Some g else Some f))"

definition room_revenue_key :: "string \<Rightarrow> string \<Rightarrow> string" where
  "room_revenue_key tenant booking_id = ''checkout-room-reconciliation:'' @ tenant @ '':'' @ booking_id"

definition active_room_charge :: "charge \<Rightarrow> bool" where
  "active_room_charge c \<longleftrightarrow> \<not> ch_voided c \<and> (ch_type c = ''room_charge'' \<or> ch_category c = ''room'')"

text \<open>
  The unique index \<open>idx_folio_charges_na_active_v2\<close>: one active room charge and one active
  no-show fee per booking and accounting day.  A second insert is a duplicate-key error.
\<close>

definition indexed_charge :: "charge \<Rightarrow> bool" where
  "indexed_charge c \<longleftrightarrow> ch_business c \<noteq> None \<and> ch_type c \<in> {''room_charge'', ''no_show_fee''} \<and> \<not> ch_voided c"

definition charge_key :: "charge \<Rightarrow> string \<times> string \<times> iso option \<times> string" where
  "charge_key c = (ch_tenant c, ch_booking c, ch_business c, ch_type c)"

definition charge_clash :: "charge \<Rightarrow> charge list \<Rightarrow> bool" where
  "charge_clash c cs \<longleftrightarrow> indexed_charge c \<and> list_ex (\<lambda>x. indexed_charge x \<and> charge_key x = charge_key c) cs"

text \<open>The folio that takes the charge, and the tax share of the missing amount in cents.\<close>

definition revenue_folio :: "string \<Rightarrow> string \<Rightarrow> bool \<Rightarrow> folio list \<Rightarrow> folio option" where
  "revenue_folio tenant booking_id allow_closed fs =
     (case find_one (\<lambda>f. fo_tenant f = tenant \<and> fo_booking f = booking_id \<and> fo_status f = ''open'') fs of
        Some f \<Rightarrow> Some f
      | None \<Rightarrow> if allow_closed then latest_folio (find_many (\<lambda>f. fo_tenant f = tenant \<and> fo_booking f = booking_id) fs)
                else None)"

definition missing_tax :: "int \<Rightarrow> int \<Rightarrow> int \<Rightarrow> int" where
  "missing_tax missing posted_tax posted_total =
     half_up (of_int missing * (if 0 < posted_total then of_int posted_tax / of_int posted_total else 0))"

definition completion_charge :: "house_env \<Rightarrow> string \<Rightarrow> booking \<Rightarrow> string \<Rightarrow> string \<Rightarrow> int \<Rightarrow> int \<Rightarrow> charge" where
  "completion_charge he tenant b posted_by folio_id missing tax =
     (let day = (case b_check_out b of Some d \<Rightarrow> prefix10 d | None \<Rightarrow> date_only (he_now he div 86400)) in
      \<lparr>ch_id = he_id he, ch_tenant = tenant, ch_booking = b_id b, ch_folio = folio_id, ch_type = ''room_charge'',
       ch_category = ''room'', ch_key = Some (room_revenue_key tenant (b_id b)),
       ch_amount = Some (of_int (missing - tax) / 100), ch_tax = Some (of_int tax / 100),
       ch_total = Some (of_int missing / 100), ch_voided = False, ch_date = day, ch_business = Some day,
       ch_by = posted_by, ch_created = he_now he, ch_run = None\<rparr>)"

definition reconcile_unposted_room_charge ::
  "house_env \<Rightarrow> string \<Rightarrow> booking \<Rightarrow> string \<Rightarrow> bool \<Rightarrow> house \<Rightarrow> house \<times> (string + bool \<times> int)" where
  "reconcile_unposted_room_charge he tenant b posted_by allow_closed h =
     (if b_id b = [] then (h, Inl ''Booking id is required for room-charge reconciliation'')
      else
        (let confirmed = money (b_total b) - money (b_migrated b) in
         if confirmed \<le> 1 then (h, Inr (False, 0))
         else
           (let charges = to_list 10000 (find_many (\<lambda>c. ch_tenant c = tenant \<and> ch_booking c = b_id b) (hs_charges h));
                key = room_revenue_key tenant (b_id b)
            in case find_one (\<lambda>c. ch_key c = Some key \<and> \<not> ch_voided c) charges of
                 Some c \<Rightarrow> (h, Inr (False, charge_total c))
               | None \<Rightarrow>
                   (let active = filter active_room_charge charges;
                        posted_total = sum_list (map charge_total active);
                        missing = confirmed - posted_total
                    in if missing \<le> 1 then (h, Inr (False, 0))
                       else (case revenue_folio tenant (b_id b) allow_closed (lg_folios (hs_ledger h)) of
                         None \<Rightarrow> (h, Inl ''Open folio is required to complete pending room revenue'')
                       | Some f \<Rightarrow>
                           (let tax = missing_tax missing (sum_list (map (\<lambda>c. money (ch_tax c)) active)) posted_total;
                                c = completion_charge he tenant b posted_by (fo_id f) missing tax;
                                payments = to_list 10000 (find_many (\<lambda>p. pm_tenant p = tenant \<and> pm_booking p = b_id b \<and> \<not> pm_voided p) (hs_payments h));
                                charged = sum_list (map charge_total (filter (\<lambda>x. \<not> ch_voided x) charges)) + missing;
                                paid = sum_list (map (\<lambda>p. money (pm_amount p)) payments);
                                balance = money (fo_opening f) + charged - paid;
                                fs = update_one (\<lambda>x. fo_id x = fo_id f \<and> fo_tenant x = tenant)
                                       (\<lambda>x. x\<lparr>fo_balance := Some (of_int balance / 100)\<rparr>) (lg_folios (hs_ledger h))
                            in if charge_clash c (hs_charges h) then (h, Inl ''duplicate key'')
                               else (h\<lparr>hs_charges := hs_charges h @ [c], hs_ledger := (hs_ledger h)\<lparr>lg_folios := fs\<rparr>\<rparr>,
                                     Inr (True, missing))))))))"

section \<open>Check-out\<close>

text \<open>The first open folio, of at most ten, whose ledger balance exceeds one cent.\<close>

definition unpaid_folio :: "string \<Rightarrow> string \<Rightarrow> ledger \<Rightarrow> folio option" where
  "unpaid_folio tenant booking_id l =
     find_one (\<lambda>f. 1 < compute_balance tenant (fo_id f) l)
       (to_list 10 (find_many (\<lambda>f. fo_booking f = booking_id \<and> fo_tenant f = tenant \<and> fo_status f = ''open'') (lg_folios l)))"

definition close_folios :: "house_env \<Rightarrow> string \<Rightarrow> string \<Rightarrow> house \<Rightarrow> house" where
  "close_folios he tenant booking_id h =
     h\<lparr>hs_ledger := (hs_ledger h)\<lparr>lg_folios :=
         update_many (\<lambda>f. fo_booking f = booking_id \<and> fo_tenant f = tenant \<and> fo_status f = ''open'')
           (\<lambda>f. f\<lparr>fo_status := ''closed'', fo_closed := Some (he_now he)\<rparr>) (lg_folios (hs_ledger h))\<rparr>\<rparr>"

definition cleaning_task :: "string \<Rightarrow> string \<Rightarrow> string \<Rightarrow> house \<Rightarrow> house" where
  "cleaning_task tenant room_id booking_id h =
     (case find_one (\<lambda>k. hk_tenant k = tenant \<and> hk_booking k = booking_id \<and> hk_type k = ''checkout_cleaning''
                       \<and> hk_status k \<noteq> ''cancelled'') (hs_tasks h) of
        Some _ \<Rightarrow> h
      | None \<Rightarrow> h\<lparr>hs_tasks := hs_tasks h @ [\<lparr>hk_tenant = tenant, hk_room = room_id, hk_booking = booking_id,
                   hk_type = ''checkout_cleaning'', hk_status = ''pending''\<rparr>]\<rparr>)"

text \<open>The writes from the booking on: room, folios, locks, cleaning task, audit, event.\<close>

definition check_out_writes ::
  "house_env \<Rightarrow> string \<Rightarrow> string \<Rightarrow> string \<Rightarrow> string \<Rightarrow> bool \<Rightarrow> (booking \<Rightarrow> booking) \<Rightarrow>
   (room list \<Rightarrow> room list) \<Rightarrow> booking \<Rightarrow> house \<Rightarrow> house" where
  "check_out_writes he booking_id tenant actor_id who force extra between b h1 =
     (let room_id = get_default '''' (b_room b);
          h2 = on_bookings (update_one (\<lambda>x. booking_key x = (tenant, booking_id))
                 (transition_write he ''checked_out'' who [] extra)) h1;
          h3 = (if room_id = [] then h2
                else on_rooms (\<lambda>rs. update_one (is_room tenant room_id)
                       (\<lambda>x. x\<lparr>r_status := ''dirty'', r_current := None\<rparr>) (between rs)) h2);
          h4 = close_folios he tenant booking_id h3;
          mine = (\<lambda>l. lk_tenant l = tenant \<and> lk_booking l = booking_id);
          released = count_documents mine (locks (hs_db h4));
          h5 = h4\<lparr>hs_db := (hs_db h4)\<lparr>locks := delete_many mine (locks (hs_db h4))\<rparr>\<rparr>;
          h6 = (if room_id = [] then h5 else cleaning_task tenant room_id booking_id h5);
          h7 = audit_log actor_id tenant booking_id ''check_out_completed''
                 [(''room_id'', jopt (b_room b)), (''forced'', JBool force),
                  (''released_locks_count'', JInt (int released))] h6
      in lifecycle he tenant ''guest.checked_out.v1'' b h7)"

definition check_out_txn ::
  "house_env \<Rightarrow> string \<Rightarrow> string \<Rightarrow> string \<Rightarrow> string \<Rightarrow> bool \<Rightarrow> (booking \<Rightarrow> booking) \<Rightarrow>
   (room list \<Rightarrow> room list) \<Rightarrow> house \<Rightarrow> house \<times> (check_error + string option)" where
  "check_out_txn he booking_id tenant actor_id actor_name force extra between h =
     (case find_booking tenant booking_id (hs_db h) of
        None \<Rightarrow> (h, Inl BookingNotFound)
      | Some b \<Rightarrow>
          if b_status b \<noteq> Some ''checked_in'' then (h, Inl WrongStatus)
          else (case enforce_business_date_transition tenant b ''check_out'' (lg_settings (hs_ledger h)) of
            Inl e \<Rightarrow> (h, Inl (DateGuard e))
          | Inr _ \<Rightarrow>
              (case (if force then None else unpaid_folio tenant booking_id (hs_ledger h)) of
                 Some f \<Rightarrow> (h, Inl (UnpaidBalance (compute_balance tenant (fo_id f) (hs_ledger h))))
               | None \<Rightarrow>
                   (let who = (if actor_name = [] then actor_id else actor_name) in
                    case reconcile_unposted_room_charge he tenant b (''checkout:'' @ who) False h of
                      (h1, Inl e) \<Rightarrow> (h1, Inl (RoomRevenue e))
                    | (h1, Inr _) \<Rightarrow>
                        (check_out_writes he booking_id tenant actor_id who force extra between b h1, Inr (b_room b))))))"

definition check_out_booking_atomic ::
  "bool \<Rightarrow> house_env \<Rightarrow> string \<Rightarrow> string \<Rightarrow> string \<Rightarrow> string \<Rightarrow> bool \<Rightarrow> (booking \<Rightarrow> booking) \<Rightarrow>
   (room list \<Rightarrow> room list) \<Rightarrow> house \<Rightarrow> house \<times> (check_error + string option)" where
  "check_out_booking_atomic transactions he booking_id tenant actor_id actor_name force extra between h =
     in_transaction transactions (check_out_txn he booking_id tenant actor_id actor_name force extra) between h"

section \<open>Shared facts\<close>

text \<open>Additional fields that touch neither identity nor status, room or stay.\<close>

definition incidental :: "(booking \<Rightarrow> booking) \<Rightarrow> bool" where
  "incidental extra \<longleftrightarrow> (\<forall>b. booking_key (extra b) = booking_key b \<and> b_status (extra b) = b_status b
     \<and> b_room (extra b) = b_room b \<and> stay_of (extra b) = stay_of b)"

lemma transition_write_simps:
  assumes "incidental extra"
  shows "booking_key (transition_write he st who m extra b) = booking_key b"
    and "b_status (transition_write he st who m extra b) = Some st"
    and "b_room (transition_write he st who m extra b) = b_room b"
    and "stay_of (transition_write he st who m extra b) = stay_of b"
  using assms by (simp_all add: incidental_def transition_write_def booking_key_def)
    (simp add: stay_of_def split: option.splits)

lemma house_frames [simp]:
  "hs_db (ensure_folio he t b h) = hs_db h"
  "bookings (hs_db (on_rooms g h)) = bookings (hs_db h)" "locks (hs_db (on_rooms g h)) = locks (hs_db h)"
  "rooms (hs_db (on_rooms g h)) = g (rooms (hs_db h))" "hs_ledger (on_rooms g h) = hs_ledger h"
  "bookings (hs_db (on_bookings k h)) = k (bookings (hs_db h))" "locks (hs_db (on_bookings k h)) = locks (hs_db h)"
  "rooms (hs_db (on_bookings k h)) = rooms (hs_db h)" "hs_ledger (on_bookings k h) = hs_ledger h"
  "bookings (hs_db (audit_log a t i c m h)) = bookings (hs_db h)" "locks (hs_db (audit_log a t i c m h)) = locks (hs_db h)"
  "rooms (hs_db (audit_log a t i c m h)) = rooms (hs_db h)" "hs_ledger (audit_log a t i c m h) = hs_ledger h"
  "hs_db (lifecycle he t kd b h) = hs_db h" "hs_ledger (lifecycle he t kd b h) = hs_ledger h"
  "hs_db (close_folios he t i h) = hs_db h" "hs_db (cleaning_task t rm i h) = hs_db h" "hs_ledger (cleaning_task t rm i h) = hs_ledger h"
  "hs_tasks (on_rooms g h) = hs_tasks h" "hs_tasks (on_bookings k h) = hs_tasks h" "hs_tasks (audit_log a t i c m h) = hs_tasks h"
  "hs_tasks (lifecycle he t kd b h) = hs_tasks h" "hs_tasks (close_folios he t i h) = hs_tasks h"
  by (simp_all add: ensure_folio_def on_rooms_def on_bookings_def audit_log_def lifecycle_def close_folios_def cleaning_task_def
      split: option.splits)

lemma hotel_ok_cong: "locks d' = locks d \<Longrightarrow> bookings d' = bookings d \<Longrightarrow> hotel_ok d' \<longleftrightarrow> hotel_ok d"
  by (simp add: hotel_ok_def locks_ok_def holds_its_nights_def locked_for_def)

lemma find_booking_key: "find_booking t i d = find_one (\<lambda>b. booking_key b = (t, i)) (bookings d)"
  by (simp add: find_booking_def booking_key_def)

lemma find_one_update:
  assumes "find_one p xs = Some x" "\<And>y. p y \<Longrightarrow> p (f y)"
  shows "find_one p (update_one p f xs) = Some (f x)"
  using assms by (induction xs) (auto simp: find_one_list split: if_splits)


section \<open>Check-in\<close>

text \<open>A check-in body that succeeds went through every guard.\<close>

lemma check_in_txn_success:
  assumes "check_in_txn he i t aid an ov extra between h = (h', Inr room)"
  obtains b r w where "find_booking t i (hs_db h) = Some b" "get_default '''' (b_status b) \<in> set checkin_eligible_statuses"
    "enforce_business_date_transition t b ''check_in'' (lg_settings (hs_ledger h)) = Inr w" "b_room b = Some room" "room \<noteq> []"
    "find_one (is_room t room) (rooms (hs_db h)) = Some r" "room_may_take ov (r_status r)" "r_status r \<notin> set room_blocked_statuses"
    "find_one (\<lambda>x. is_room t room x \<and> room_may_take ov (r_status x)) (between (rooms (hs_db h))) \<noteq> None"
    "locks (hs_db h') = locks (hs_db h)"
    "bookings (hs_db h') = update_one (\<lambda>x. booking_key x = (t, i))
       (transition_write he ''checked_in'' (if an = [] then aid else an)
         (if truthy ov then [(''check_in_override_reason'', jopt ov)] else []) extra) (bookings (hs_db h))"
    "rooms (hs_db h') = update_one (\<lambda>x. is_room t room x \<and> room_may_take ov (r_status x))
       (occupy i) (between (rooms (hs_db h)))"
    "hs_ledger h' = hs_ledger (ensure_folio he t b h)"
    "\<exists>e. hs_events h' = hs_events (ensure_folio he t b h) @ [e] \<and> lv_booking e = b_id b \<and> lv_type e = ''guest.checked_in.v1''"
proof -
  obtain b where b: "find_booking t i (hs_db h) = Some b"
    using assms by (auto simp: check_in_txn_def split: option.splits)
  have el: "get_default '''' (b_status b) \<in> set checkin_eligible_statuses"
    using assms b by (auto simp: check_in_txn_def split: if_splits)
  obtain w where w: "enforce_business_date_transition t b ''check_in'' (lg_settings (hs_ledger h)) = Inr w"
    using assms b el by (auto simp: check_in_txn_def split: sum.splits)
  let ?room = "get_default '''' (b_room b)"
  have ne: "?room \<noteq> []" using assms b el w by (auto simp: check_in_txn_def Let_def)
  obtain r where r: "find_one (is_room t ?room) (rooms (hs_db h)) = Some r"
    using assms b el w ne by (auto simp: check_in_txn_def Let_def split: option.splits)
  have st: "r_status r \<notin> set room_blocked_statuses" "r_status r \<in> set allowed_room_statuses \<or> truthy ov"
    using assms b el w ne r by (auto simp: check_in_txn_def Let_def split: if_splits)
  have md: "modifies (\<lambda>x. is_room t ?room x \<and> room_may_take ov (r_status x)) (occupy i) (between (rooms (hs_db h)))"
    using assms b el w ne r st by (auto simp: check_in_txn_def Let_def split: if_splits)
  then have cas: "find_one (\<lambda>x. is_room t ?room x \<and> room_may_take ov (r_status x)) (between (rooms (hs_db h))) \<noteq> None"
    by (auto simp: modifies_def split: option.splits)
  from assms b el w ne r st md have res: "room = ?room" "h' = lifecycle he t ''guest.checked_in.v1'' b
      (audit_log aid t i ''check_in_completed'' [(''room_id'', JStr ?room), (''room_number'', jopt (r_number r)), (''override_reason'', jopt ov)]
        (on_rooms (update_one (\<lambda>x. is_room t ?room x \<and> room_may_take ov (r_status x)) (occupy i))
          (on_rooms between (on_bookings (update_one (\<lambda>x. booking_key x = (t, i))
             (transition_write he ''checked_in'' (if an = [] then aid else an)
               (if truthy ov then [(''check_in_override_reason'', jopt ov)] else []) extra)) (ensure_folio he t b h)))))"
    by (auto simp: check_in_txn_def Let_def split: if_splits)
  have "b_room b = Some room" using ne res(1) by (cases "b_room b") auto
  moreover have "room_may_take ov (r_status r)" using st by (auto simp: room_may_take_def)
  ultimately show thesis
    using that[of b w r] b el w ne r st cas res
    by (simp add: lifecycle_def audit_log_def on_rooms_def on_bookings_def)
qed



lemma guard_passed_out:
  assumes "enforce_business_date_transition t b ''check_out'' ss = Inr w"
  shows "\<exists>bd due. Option.bind (settings_of t ss) st_date \<noteq> None
    \<and> iso_date (the (Option.bind (settings_of t ss) st_date)) = Some bd \<and> Option.bind (b_check_out b) iso_date = Some due \<and> due \<le> bd"
  using assms
  by (auto simp: enforce_business_date_transition_def guard_parse_date_def split: option.splits sum.splits if_splits)


definition business_date_of :: "string \<Rightarrow> house \<Rightarrow> day option" where
  "business_date_of t h = Option.bind (Option.bind (settings_of t (lg_settings (hs_ledger h))) st_date) iso_date"



text \<open>
  A room blocked at the last moment is never occupied.  With transactions switched off,
  when other clients have blocked every copy of the booking's room between the check of the
  room and the write, the check-in fails and leaves the rooms as the others left them; but what
  it wrote before stays: if it got as far as the room write, the booking remains checked in.
\<close>

theorem late_block_stops_check_in:
  assumes "check_in_booking_atomic False kbs he i t aid an ov extra between h = (h', res)" "incidental extra"
    and "find_booking t i (hs_db h) = Some b" "b_room b = Some room"
    and "\<forall>r \<in> set (between (rooms (hs_db h))). is_room t room r \<longrightarrow> r_status r \<in> {''out_of_order'', ''out_of_service'', ''maintenance''}"
  shows "(\<exists>e. res = Inl e) \<and> rooms (hs_db h') \<in> {rooms (hs_db h), between (rooms (hs_db h))}
    \<and> (res = Inl RoomChanged \<longrightarrow> (\<exists>b'. find_booking t i (hs_db h') = Some b' \<and> b_status b' = Some ''checked_in''))"
proof -
  have closed: "\<not> room_may_take ov st" if "st \<in> {''out_of_order'', ''out_of_service'', ''maintenance''}" for st
    using that by (auto simp: room_may_take_def room_blocked_statuses_def allowed_room_statuses_def)
  have "find_one (\<lambda>x. is_room t room x \<and> room_may_take ov (r_status x)) (between (rooms (hs_db h))) = None"
    using assms(5) closed by (auto simp: store_simps)
  then have none: "\<not> modifies (\<lambda>x. is_room t room x \<and> room_may_take ov (r_status x)) (occupy i) (between (rooms (hs_db h)))"
    "find_one (\<lambda>x. is_room t room x \<and> room_may_take ov (r_status x)) (between (rooms (hs_db h))) = None"
    by (simp_all add: modifies_def)
  have run: "kbs = Some False \<and> h' = h \<and> res = Inl KbsNotReady \<or> check_in_txn he i t aid an ov extra between h = (h', res)"
    using assms(1) by (auto simp: check_in_booking_atomic_def in_transaction_def split: if_splits)
  have err: "\<exists>e. res = Inl e"
  proof (cases res)
    case (Inr rm)
    with run have "check_in_txn he i t aid an ov extra between h = (h', Inr rm)" by auto
    then show ?thesis by (rule check_in_txn_success) (use none assms(3,4) in auto)
  qed simp
  let ?m = "if truthy ov then [(''check_in_override_reason'', jopt ov)] else []"
  let ?w = "transition_write he ''checked_in'' (if an = [] then aid else an) ?m extra"
  have "h' = h \<and> res \<noteq> Inl RoomChanged \<or> res = Inl RoomChanged \<and>
      h' = on_rooms between (on_bookings (update_one (\<lambda>x. booking_key x = (t, i)) ?w) (ensure_folio he t b h))"
    using run assms(3,4) none by (auto simp: check_in_txn_def Let_def split: if_splits option.splits sum.splits)
  moreover have "find_booking t i (hs_db (on_rooms between (on_bookings (update_one (\<lambda>x. booking_key x = (t, i)) ?w) (ensure_folio he t b h)))) = Some (?w b)"
    unfolding find_booking_key
    by (simp add: find_one_update[OF assms(3)[unfolded find_booking_key]] transition_write_simps[OF assms(2)])
  ultimately show ?thesis using err transition_write_simps(2)[OF assms(2)] by auto
qed

section \<open>Room revenue\<close>

lemma half_up_int [simp]: "half_up (of_int n) = n"
  by (simp add: half_up_def floor_eq_iff)

lemma money_cents [simp]: "money (Some (of_int n / 100)) = n"
  by (simp add: money_def)

definition revenue_of :: "string \<Rightarrow> string \<Rightarrow> house \<Rightarrow> int" where
  "revenue_of t i h = sum_list (map charge_total (filter (\<lambda>c. ch_tenant c = t \<and> ch_booking c = i \<and> active_room_charge c) (hs_charges h)))"

lemma charge_clash_Nil [simp]: "\<not> charge_clash c []"
  by (simp add: charge_clash_def)

lemma completion_charge_fields [simp]:
  "ch_tenant (completion_charge he t b who f m x) = t" "ch_booking (completion_charge he t b who f m x) = b_id b"
  "ch_key (completion_charge he t b who f m x) = Some (room_revenue_key t (b_id b))"
  "active_room_charge (completion_charge he t b who f m x)" "\<not> ch_voided (completion_charge he t b who f m x)"
  "charge_total (completion_charge he t b who f m x) = m"
  by (simp_all add: completion_charge_def Let_def active_room_charge_def charge_total_def)

lemma revenue_cases:
  assumes "reconcile_unposted_room_charge he t b who ac h = (h', r)"
    and "length (filter (\<lambda>c. ch_tenant c = t \<and> ch_booking c = b_id b) (hs_charges h)) \<le> 10000"
  obtains (error) e where "h' = h" "r = Inl e"
  | (none) a where "h' = h" "r = Inr (False, a)"
  | (post) c f bal where "r = Inr (True, charge_total c)" "hs_charges h' = hs_charges h @ [c]"
      "ch_tenant c = t" "ch_booking c = b_id b" "ch_key c = Some (room_revenue_key t (b_id b))" "active_room_charge c"
      "charge_total c = money (b_total b) - money (b_migrated b) - revenue_of t (b_id b) h" "1 < charge_total c"
      "revenue_folio t (b_id b) ac (lg_folios (hs_ledger h)) = Some f"
      "hs_ledger h' = (hs_ledger h)\<lparr>lg_folios := update_one (\<lambda>x. fo_id x = fo_id f \<and> fo_tenant x = t)
           (\<lambda>x. x\<lparr>fo_balance := Some (of_int bal / 100)\<rparr>) (lg_folios (hs_ledger h))\<rparr>"
      "bal = money (fo_opening f)
         + (sum_list (map charge_total (filter (\<lambda>c. \<not> ch_voided c) (filter (\<lambda>c. ch_tenant c = t \<and> ch_booking c = b_id b) (hs_charges h))))
            + charge_total c)
         - sum_list (map (\<lambda>p. money (pm_amount p)) (to_list 10000 (find_many (\<lambda>p. pm_tenant p = t \<and> pm_booking p = b_id b \<and> \<not> pm_voided p) (hs_payments h))))"
      "hs_db h' = hs_db h" "hs_payments h' = hs_payments h" "hs_tasks h' = hs_tasks h" "hs_events h' = hs_events h" "b_id b \<noteq> []"
proof -
  let ?cs = "filter (\<lambda>c. ch_tenant c = t \<and> ch_booking c = b_id b) (hs_charges h)"
  have cs: "to_list 10000 (find_many (\<lambda>c. ch_tenant c = t \<and> ch_booking c = b_id b) (hs_charges h)) = ?cs"
    using assms(2) by (simp add: find_many_def to_list_all)
  have rev: "sum_list (map charge_total (filter active_room_charge ?cs)) = revenue_of t (b_id b) h"
    by (simp add: revenue_of_def conj_ac)
  let ?missing = "money (b_total b) - money (b_migrated b) - revenue_of t (b_id b) h"
  note def = assms(1)[unfolded reconcile_unposted_room_charge_def Let_def cs rev]
  let ?tax = "\<lambda>m. missing_tax m (sum_list (map (\<lambda>c. money (ch_tax c)) (filter active_room_charge ?cs))) (revenue_of t (b_id b) h)"
  let ?clash = "\<lambda>f. charge_clash (completion_charge he t b who (fo_id f) ?missing (?tax ?missing)) (hs_charges h)"
  show thesis
  proof (cases "b_id b = [] \<or> money (b_total b) - money (b_migrated b) \<le> 1
      \<or> find_one (\<lambda>c. ch_key c = Some (room_revenue_key t (b_id b)) \<and> \<not> ch_voided c) ?cs \<noteq> None
      \<or> ?missing \<le> 1 \<or> revenue_folio t (b_id b) ac (lg_folios (hs_ledger h)) = None
      \<or> (\<exists>f. revenue_folio t (b_id b) ac (lg_folios (hs_ledger h)) = Some f \<and> ?clash f)")
    case True
    then show thesis using def error none by (auto split: if_splits option.splits)
  next
    case False
    then obtain f where f: "revenue_folio t (b_id b) ac (lg_folios (hs_ledger h)) = Some f" "\<not> ?clash f" by auto
    define m where "m = ?missing"
    note run = def[folded m_def]
    have m: "1 < m" "m = ?missing" "\<not> charge_clash (completion_charge he t b who (fo_id f) m (?tax m)) (hs_charges h)"
      using False f(2) by (simp_all add: m_def)
    show thesis
      using run False f(1) m(1,3)
      by (intro post[of "completion_charge he t b who (fo_id f) m (?tax m)" f]) (auto simp: m(2)[symmetric] simp del: of_int_diff of_int_add)
  qed
qed

text \<open>
  C27.  Check-out completes the room revenue once.  When the completion posts a charge, the
  active room charges of the booking then add up to its confirmed total less what was migrated,
  the charge is exactly the part that was missing, and calling it again, with any clock, actor
  or folio option, posts nothing; when it posts nothing it changes nothing.
\<close>

theorem room_revenue_completed_once:
  assumes "reconcile_unposted_room_charge he t b who ac h = (h1, Inr (post, m))"
    and "length (filter (\<lambda>c. ch_tenant c = t \<and> ch_booking c = b_id b) (hs_charges h)) < 10000"
  shows "if post
    then revenue_of t (b_id b) h1 = money (b_total b) - money (b_migrated b)
      \<and> m = money (b_total b) - money (b_migrated b) - revenue_of t (b_id b) h \<and> 1 < m
      \<and> (\<forall>he2 who2 ac2. \<exists>a. reconcile_unposted_room_charge he2 t b who2 ac2 h1 = (h1, Inr (False, a)))
    else h1 = h"
proof -
  have "length (filter (\<lambda>c. ch_tenant c = t \<and> ch_booking c = b_id b) (hs_charges h)) \<le> 10000" using assms(2) by simp
  with assms(1) show ?thesis
  proof (cases rule: revenue_cases)
    case (post c f bal)
    have rev: "revenue_of t (b_id b) h1 = revenue_of t (b_id b) h + charge_total c"
      using post by (simp add: revenue_of_def)
    have "\<exists>a. reconcile_unposted_room_charge he2 t b who2 ac2 h1 = (h1, Inr (False, a))"
      if d: "find_one (\<lambda>c. ch_key c = Some (room_revenue_key t (b_id b)) \<and> \<not> ch_voided c)
        (filter (\<lambda>c. ch_tenant c = t \<and> ch_booking c = b_id b) (hs_charges h1)) = Some d" for he2 who2 ac2 d
    proof -
      have "to_list 10000 (find_many (\<lambda>c. ch_tenant c = t \<and> ch_booking c = b_id b) (hs_charges h1))
          = filter (\<lambda>c. ch_tenant c = t \<and> ch_booking c = b_id b) (hs_charges h1)"
        unfolding find_many_def by (rule to_list_all) (use assms(2) post(2-4) in simp)
      then show ?thesis
        using d post(16) rev post(7,8)
        by (auto simp: reconcile_unposted_room_charge_def Let_def)
    qed
    moreover have "\<exists>d. find_one (\<lambda>c. ch_key c = Some (room_revenue_key t (b_id b)) \<and> \<not> ch_voided c)
        (filter (\<lambda>c. ch_tenant c = t \<and> ch_booking c = b_id b) (hs_charges h1)) = Some d"
      using post(2-6) by (cases "find_one (\<lambda>c. ch_key c = Some (room_revenue_key t (b_id b)) \<and> \<not> ch_voided c)
        (filter (\<lambda>c. ch_tenant c = t \<and> ch_booking c = b_id b) (hs_charges h1))") (auto simp: store_simps active_room_charge_def)
    ultimately show ?thesis using post(1,7,8) rev by auto
  qed auto
qed

section \<open>Check-out\<close>

lemma revenue_frame:
  assumes "reconcile_unposted_room_charge he t b who ac h = (h', r)"
  shows "hs_db h' = hs_db h \<and> hs_tasks h' = hs_tasks h \<and> hs_payments h' = hs_payments h
    \<and> lg_entries (hs_ledger h') = lg_entries (hs_ledger h) \<and> lg_settings (hs_ledger h') = lg_settings (hs_ledger h)"
  using assms by (auto simp: reconcile_unposted_room_charge_def Let_def split: if_splits option.splits)

lemma check_out_txn_success:
  assumes "check_out_txn he i t aid an force extra between h = (h', Inr room)"
  obtains b h1 w m where "find_booking t i (hs_db h) = Some b" "b_status b = Some ''checked_in''" "room = b_room b"
    "enforce_business_date_transition t b ''check_out'' (lg_settings (hs_ledger h)) = Inr w"
    "force \<or> unpaid_folio t i (hs_ledger h) = None"
    "reconcile_unposted_room_charge he t b (''checkout:'' @ (if an = [] then aid else an)) False h = (h1, Inr m)"
    "h' = check_out_writes he i t aid (if an = [] then aid else an) force extra between b h1"
proof -
  obtain b where b: "find_booking t i (hs_db h) = Some b"
    using assms by (auto simp: check_out_txn_def split: option.splits)
  have st: "b_status b = Some ''checked_in''" using assms b by (auto simp: check_out_txn_def split: if_splits)
  obtain w where w: "enforce_business_date_transition t b ''check_out'' (lg_settings (hs_ledger h)) = Inr w"
    using assms b st by (auto simp: check_out_txn_def split: sum.splits)
  have up: "(if force then None else unpaid_folio t i (hs_ledger h)) = None"
    using assms b st w by (auto simp: check_out_txn_def split: option.splits)
  let ?who = "if an = [] then aid else an"
  obtain h1 r1 where rv: "reconcile_unposted_room_charge he t b (''checkout:'' @ ?who) False h = (h1, r1)" by (metis prod.exhaust)
  obtain m where m: "r1 = Inr m"
    using assms b st w up rv by (cases r1) (simp_all add: check_out_txn_def Let_def)
  note fr = revenue_frame[OF rv]
  have res: "room = b_room b" "h' = check_out_writes he i t aid ?who force extra between b h1"
    using assms b st w up rv m by (simp_all add: check_out_txn_def Let_def)
  show thesis
    by (rule that[OF b st res(1) w _ rv[unfolded m] res(2)]) (use up in \<open>auto split: if_splits\<close>)
qed

lemma cleaning_task_tasks:
  "hs_tasks h2 = hs_tasks h \<Longrightarrow> hs_tasks (cleaning_task t rm i h2) = hs_tasks (cleaning_task t rm i h)"
  by (simp add: cleaning_task_def split: option.splits)

lemma check_out_writes_fields:
  fixes he i t aid who force extra between b h
  defines "h' \<equiv> check_out_writes he i t aid who force extra between b h"
  shows "locks (hs_db h') = delete_many (\<lambda>l. lk_tenant l = t \<and> lk_booking l = i) (locks (hs_db h))"
    and "bookings (hs_db h') = update_one (\<lambda>x. booking_key x = (t, i)) (transition_write he ''checked_out'' who [] extra) (bookings (hs_db h))"
    and "b_room b = Some room \<Longrightarrow> room \<noteq> [] \<Longrightarrow> rooms (hs_db h') = update_one (is_room t room)
       (\<lambda>x. x\<lparr>r_status := ''dirty'', r_current := None\<rparr>) (between (rooms (hs_db h)))"
    and "b_room b = Some room \<Longrightarrow> room \<noteq> [] \<Longrightarrow> hs_tasks h' = hs_tasks (cleaning_task t room i h)"
    and "hs_ledger h' = hs_ledger (close_folios he t i h)"
proof -
  show "locks (hs_db h') = delete_many (\<lambda>l. lk_tenant l = t \<and> lk_booking l = i) (locks (hs_db h))"
    by (simp add: h'_def check_out_writes_def Let_def)
  show "bookings (hs_db h') = update_one (\<lambda>x. booking_key x = (t, i)) (transition_write he ''checked_out'' who [] extra) (bookings (hs_db h))"
    by (simp add: h'_def check_out_writes_def Let_def)
  show "b_room b = Some room \<Longrightarrow> room \<noteq> [] \<Longrightarrow> rooms (hs_db h') = update_one (is_room t room)
       (\<lambda>x. x\<lparr>r_status := ''dirty'', r_current := None\<rparr>) (between (rooms (hs_db h)))"
    by (simp add: h'_def check_out_writes_def Let_def)
  show "b_room b = Some room \<Longrightarrow> room \<noteq> [] \<Longrightarrow> hs_tasks h' = hs_tasks (cleaning_task t room i h)"
    unfolding h'_def check_out_writes_def Let_def by (simp, rule cleaning_task_tasks) simp
  show "hs_ledger h' = hs_ledger (close_folios he t i h)"
    by (simp add: h'_def check_out_writes_def Let_def) (simp add: close_folios_def on_rooms_def on_bookings_def)
qed

lemma no_open_after_close:
  assumes "f \<in> set (lg_folios (hs_ledger (close_folios he t i h)))" "fo_booking f = i" "fo_tenant f = t"
  shows "fo_status f \<noteq> ''open''"
  using assms
  apply (simp add: close_folios_def update_many_def)
  apply (elim disjE imageE)
   apply simp_all
  done

lemma cleaning_task_has:
  "\<exists>k \<in> set (hs_tasks (cleaning_task t room i h)). hk_tenant k = t \<and> hk_booking k = i \<and> hk_type k = ''checkout_cleaning'' \<and> hk_status k \<noteq> ''cancelled''"
proof (cases "find_one (\<lambda>k. hk_tenant k = t \<and> hk_booking k = i \<and> hk_type k = ''checkout_cleaning'' \<and> hk_status k \<noteq> ''cancelled'') (hs_tasks h)")
  case (Some k)
  then show ?thesis using find_one_Some[OF Some] by (auto simp: cleaning_task_def)
qed (simp add: cleaning_task_def)

text \<open>Deleting the locks of a booking that became terminal keeps the hotel consistent.\<close>

lemma leave_ok:
  assumes "hotel_ok d" "\<And>b. booking_key (f b) = booking_key b" "\<And>b. \<not> live (f b)"
    and "locks d' = delete_many (\<lambda>l. lk_tenant l = t \<and> lk_booking l = i) (locks d)"
    and "bookings d' = update_one (\<lambda>b. booking_key b = (t, i)) f (bookings d)"
  shows "hotel_ok d'"
proof -
  let ?d1 = "d\<lparr>bookings := bookings d'\<rparr>"
  obtain d2 n where r: "release_booking_nights quiet_env t i '''' None ?d1 = (d2, n)" by (metis prod.exhaust)
  have "hotel_ok d2" using release_after_terminal[OF assms(1,2,3) _ _ r] assms(5) by simp
  moreover have "locks d2 = locks d'" "bookings d2 = bookings d'"
    using r release_result[of quiet_env t i "''''" None ?d1] assms(4) by auto
  ultimately show ?thesis using hotel_ok_cong by metis
qed

text \<open>
  C4.  What check-out guarantees.  An error inside the transaction changes nothing.  Success
  means the guest was checked in, the business date had reached the departure date and, unless
  forced, none of the first ten open folios owed more than a cent on the ledger; afterwards the
  booking is checked out, exactly its own locks are gone, every other booking still holds its
  nights, no folio of it is open, and its room is dirty, free and has a cleaning task.
\<close>

theorem check_out_outcome:
  assumes "check_out_booking_atomic True he i t aid an force extra between h = (h', res)"
    and "hotel_ok (hs_db h)" "incidental extra"
  shows "case res of
      Inl e \<Rightarrow> h' = h
    | Inr room \<Rightarrow> \<exists>b b' today due.
        find_booking t i (hs_db h) = Some b \<and> b_status b = Some ''checked_in'' \<and> room = b_room b
        \<and> business_date_of t h = Some today \<and> Option.bind (b_check_out b) iso_date = Some due \<and> due \<le> today
        \<and> (force \<or> unpaid_folio t i (hs_ledger h) = None)
        \<and> hotel_ok (hs_db h') \<and> set (locks (hs_db h')) = {l \<in> set (locks (hs_db h)). (lk_tenant l, lk_booking l) \<noteq> (t, i)}
        \<and> find_booking t i (hs_db h') = Some b' \<and> b_status b' = Some ''checked_out''
        \<and> (\<forall>f \<in> set (lg_folios (hs_ledger h')). fo_tenant f = t \<and> fo_booking f = i \<longrightarrow> fo_status f \<noteq> ''open'')
        \<and> (\<forall>rm r. room = Some rm \<and> rm \<noteq> [] \<and> find_one (is_room t rm) (rooms (hs_db h)) = Some r \<longrightarrow>
             (\<exists>r'. find_one (is_room t rm) (rooms (hs_db h')) = Some r' \<and> r_status r' = ''dirty'' \<and> r_current r' = None)
             \<and> (\<exists>k \<in> set (hs_tasks h'). hk_tenant k = t \<and> hk_booking k = i \<and> hk_type k = ''checkout_cleaning'' \<and> hk_status k \<noteq> ''cancelled''))"
proof (cases res)
  case (Inl e)
  then show ?thesis using assms(1) by (auto simp: check_out_booking_atomic_def in_transaction_def split: prod.splits sum.splits)
next
  case (Inr room)
  then have "check_out_txn he i t aid an force extra (\<lambda>rs. rs) h = (h', Inr room)"
    using assms(1) by (auto simp: check_out_booking_atomic_def in_transaction_def split: prod.splits sum.splits)
  then show ?thesis
  proof (rule check_out_txn_success)
    fix b h1 w m
    let ?f = "transition_write he ''checked_out'' (if an = [] then aid else an) [] extra"
    assume b: "find_booking t i (hs_db h) = Some b" "b_status b = Some ''checked_in''" "room = b_room b"
      and g: "enforce_business_date_transition t b ''check_out'' (lg_settings (hs_ledger h)) = Inr w"
      and paid: "force \<or> unpaid_folio t i (hs_ledger h) = None"
      and rv: "reconcile_unposted_room_charge he t b (''checkout:'' @ (if an = [] then aid else an)) False h = (h1, Inr m)"
      and h': "h' = check_out_writes he i t aid (if an = [] then aid else an) force extra (\<lambda>rs. rs) b h1"
    note fr = revenue_frame[OF rv]
    note fl = check_out_writes_fields[where he = he and i = i and t = t and aid = aid and who = "if an = [] then aid else an"
      and force = force and extra = extra and between = "\<lambda>rs. rs" and b = b and h = h1, folded h']
    have "terminal_status (Some ''checked_out'')" by code_simp
    then have "\<not> live (?f x)" for x by (simp add: live_def transition_write_simps[OF assms(3)])
    then have ok: "hotel_ok (hs_db h')"
      using fl(1,2) fr by (intro leave_ok[OF assms(2), of ?f]) (simp_all add: transition_write_simps[OF assms(3)])
    have bk: "find_booking t i (hs_db h') = Some (?f b)"
      unfolding find_booking_key fl(2) conjunct1[OF fr]
      by (rule find_one_update[OF b(1)[unfolded find_booking_key]]) (simp add: transition_write_simps[OF assms(3)])
    obtain today due where d: "business_date_of t h = Some today" "Option.bind (b_check_out b) iso_date = Some due" "due \<le> today"
      using guard_passed_out[OF g] by (auto simp: business_date_of_def bind_eq_Some_conv)
    have lk: "set (locks (hs_db h')) = {l \<in> set (locks (hs_db h)). (lk_tenant l, lk_booking l) \<noteq> (t, i)}"
      using fl(1) fr by (auto simp: store_simps)
    have rooms: "\<exists>r'. find_one (is_room t rm) (rooms (hs_db h')) = Some r' \<and> r_status r' = ''dirty'' \<and> r_current r' = None"
      if q: "room = Some rm" "rm \<noteq> []" "find_one (is_room t rm) (rooms (hs_db h)) = Some r" for rm r
    proof -
      have "rooms (hs_db h') = update_one (is_room t rm) (\<lambda>x. x\<lparr>r_status := ''dirty'', r_current := None\<rparr>) (rooms (hs_db h))"
        using fl(3)[of rm] q b(3) fr by simp
      then show ?thesis using find_one_update[OF q(3), of "\<lambda>x. x\<lparr>r_status := ''dirty'', r_current := None\<rparr>"] by (simp add: is_room_def)
    qed
    have tasks: "\<exists>k \<in> set (hs_tasks h'). hk_tenant k = t \<and> hk_booking k = i \<and> hk_type k = ''checkout_cleaning'' \<and> hk_status k \<noteq> ''cancelled''"
      if q: "room = Some rm" "rm \<noteq> []" for rm
      using fl(4)[of rm] q b(3) cleaning_task_has by simp
    have closed: "\<forall>f \<in> set (lg_folios (hs_ledger h')). fo_tenant f = t \<and> fo_booking f = i \<longrightarrow> fo_status f \<noteq> ''open''"
      using fl(5) no_open_after_close by metis
    have st: "b_status (?f b) = Some ''checked_out''" by (rule transition_write_simps(2)[OF assms(3)])
    have "\<exists>b b' today due.
        find_booking t i (hs_db h) = Some b \<and> b_status b = Some ''checked_in'' \<and> room = b_room b
        \<and> business_date_of t h = Some today \<and> Option.bind (b_check_out b) iso_date = Some due \<and> due \<le> today
        \<and> find_booking t i (hs_db h') = Some b' \<and> b_status b' = Some ''checked_out''"
      using b d bk st by blast
    then show ?thesis unfolding Inr sum.case using paid ok lk closed rooms tasks by blast
  qed
qed

lemma money_None [simp]: "money None = 0"
  by (simp add: money_def half_up_def floor_eq_iff)

text \<open>
  Check-out can close a folio that is not paid.  The balance guard reads the ledger, and
  the missing room revenue is charged after it, to the charge collection: when nothing of the
  stay was charged, billed or paid, an unforced check-out succeeds and closes the folio
  with the whole room amount owing.
\<close>

theorem check_out_closes_unpaid_folio:
  assumes "check_out_booking_atomic True he i t aid an False extra between h = (h', Inr room)"
    and "find_booking t i (hs_db h) = Some b" "i \<noteq> []" "1 < money (b_total b) - money (b_migrated b)"
    and "hs_charges h = []" "hs_payments h = []"
    and "lg_folios (hs_ledger h) = [f]" "fo_tenant f = t" "fo_booking f = i" "fo_status f = ''open''" "fo_opening f = None"
  shows "\<exists>f'. lg_folios (hs_ledger h') = [f'] \<and> fo_id f' = fo_id f \<and> fo_status f' = ''closed''
    \<and> fo_balance f' = Some (of_int (money (b_total b) - money (b_migrated b)) / 100)"
proof -
  have "check_out_txn he i t aid an False extra (\<lambda>rs. rs) h = (h', Inr room)"
    using assms(1) by (auto simp: check_out_booking_atomic_def in_transaction_def split: prod.splits sum.splits)
  then show ?thesis
  proof (rule check_out_txn_success)
    fix b2 h1 w m
    assume b2: "find_booking t i (hs_db h) = Some b2"
      and rv: "reconcile_unposted_room_charge he t b2 (''checkout:'' @ (if an = [] then aid else an)) False h = (h1, Inr m)"
      and h': "h' = check_out_writes he i t aid (if an = [] then aid else an) False extra (\<lambda>rs. rs) b2 h1"
    have b: "b2 = b" "b_id b = i"
      using b2 assms(2) find_one_Some[OF assms(2)[unfolded find_booking_key]] by (auto simp: booking_key_def)
    define n where "n = money (b_total b) - money (b_migrated b)"
    have n: "\<not> n \<le> 1" using assms(4) by (simp add: n_def)
    have f: "revenue_folio t i False [f] = Some f"
      using assms(8-10) by (simp add: revenue_folio_def find_one_list)
    have none: "find_many p (hs_charges h) = []" "find_many q (hs_payments h) = []" "\<not> charge_clash c (hs_charges h)" for p q c
      using assms(5,6) by (simp_all add: find_many_def)
    have "lg_folios (hs_ledger h1) = [f\<lparr>fo_balance := Some (of_int n / 100)\<rparr>]"
      using rv n assms(3,7,8)
      by (simp add: reconcile_unposted_room_charge_def Let_def b n_def[symmetric] none to_list_def find_one_list f assms(11)) auto
    then show ?thesis
      unfolding h' b(1) check_out_writes_fields(5)
      using assms(7-10) by (simp add: close_folios_def update_many_def n_def)
  qed
qed

section \<open>Evaluation\<close>

definition arrival :: booking where
  "arrival = (stay_booking ''bk1'' 98 100)\<lparr>b_total := Some 300\<rparr>"

definition in_house :: booking where
  "in_house = arrival\<lparr>b_status := Some ''checked_in''\<rparr>"

definition room_101 :: room where
  "room_101 = \<lparr>r_tenant = ''t1'', r_id = ''101'', r_number = Some ''101'', r_status = ''clean'', r_type = Some ''std'',
     r_active = None, r_virtual = None, r_current = None\<rparr>"

definition small_house :: "booking \<Rightarrow> house" where
  "small_house b = \<lparr>hs_db = empty_db\<lparr>locks := [night_lock ''bk1'' 98, night_lock ''bk1'' 99], bookings := [b], rooms := [room_101]\<rparr>,
     hs_ledger = two_folios\<lparr>lg_folios := [guest_folio ''f1'']\<rparr>, hs_charges = [], hs_payments = [], hs_tasks = [], hs_events = []\<rparr>"

definition reception :: house_env where
  "reception = \<lparr>he_now = 9504000, he_id = ''n1''\<rparr>"

lemma small_house_fields [simp]:
  "locks (hs_db (small_house b)) = [night_lock ''bk1'' 98, night_lock ''bk1'' 99]" "bookings (hs_db (small_house b)) = [b]"
  "rooms (hs_db (small_house b)) = [room_101]" "lg_settings (hs_ledger (small_house b)) = [first_settings]"
  "lg_folios (hs_ledger (small_house b)) = [guest_folio ''f1'']" "hs_charges (small_house b) = []" "hs_payments (small_house b) = []"
  "lg_entries (hs_ledger (small_house b)) = []"
  by (simp_all add: small_house_def)

lemma guests_fields [simp]:
  "b_tenant arrival = ''t1''" "b_id arrival = ''bk1''" "b_status arrival = Some ''confirmed''" "b_room arrival = Some ''101''"
  "b_check_in arrival = Some (Iso 98 14)" "b_check_out arrival = Some (Iso 100 11)" "b_total arrival = Some 300" "b_migrated arrival = None"
  "b_tenant in_house = ''t1''" "b_id in_house = ''bk1''" "b_status in_house = Some ''checked_in''" "b_room in_house = Some ''101''"
  "b_check_in in_house = Some (Iso 98 14)" "b_check_out in_house = Some (Iso 100 11)" "b_total in_house = Some 300" "b_migrated in_house = None"
  "nights_of arrival = {98, 99}" "nights_of in_house = {98, 99}"
  by (simp_all add: in_house_def arrival_def stay_booking_def)
    (auto simp: nights_of_def stay_of_def)

lemma room_101_fields [simp]: "is_room ''t1'' ''101'' room_101" "r_status room_101 = ''clean''"
  by (simp_all add: is_room_def room_101_def)


lemma guest_folio_fields [simp]:
  "fo_tenant (guest_folio i) = ''t1''" "fo_id (guest_folio i) = i" "fo_booking (guest_folio i) = ''bk1''"
  "fo_status (guest_folio i) = ''open''" "fo_opening (guest_folio i) = None"
  by (simp_all add: guest_folio_def)

lemma first_day [simp]: "Option.bind (settings_of ''t1'' [first_settings]) st_date = Some (date_only 100)"
  by (simp add: settings_of_def find_one_list first_settings_def initialize_fields_def blank_settings_def)

lemma incidental_id [simp]: "incidental (\<lambda>b. b)"
  by (simp add: incidental_def)

lemma small_house_ok: "hotel_ok (hs_db (small_house arrival))" "hotel_ok (hs_db (small_house in_house))"
  by (auto simp: hotel_ok_def locks_ok_def holds_its_nights_def locked_for_def night_lock_def lock_key_def find_lock_def find_one_list)



definition block_all :: "room list \<Rightarrow> room list" where
  "block_all rs = map (\<lambda>r. r\<lparr>r_status := ''maintenance''\<rparr>) rs"

theorem late_block_stops_check_in_witness:
  "\<exists>h' b'. check_in_booking_atomic False None reception ''bk1'' ''t1'' ''u1'' '''' None (\<lambda>b. b) block_all (small_house arrival) = (h', Inl RoomChanged)
     \<and> find_booking ''t1'' ''bk1'' (hs_db h') = Some b' \<and> b_status b' = Some ''checked_in''"
proof -
  have r: "\<exists>h'. check_in_booking_atomic False None reception ''bk1'' ''t1'' ''u1'' '''' None (\<lambda>b. b) block_all (small_house arrival) = (h', Inl RoomChanged)"
    by (simp add: check_in_booking_atomic_def in_transaction_def check_in_txn_def find_booking_def find_one_list enforce_business_date_transition_def
      guard_parse_date_def checkin_eligible_statuses_def room_blocked_statuses_def allowed_room_statuses_def room_may_take_def modifies_def Let_def block_all_def)
  then obtain h' where r: "check_in_booking_atomic False None reception ''bk1'' ''t1'' ''u1'' '''' None (\<lambda>b. b) block_all (small_house arrival) = (h', Inl RoomChanged)"
    by blast
  from late_block_stops_check_in[OF r] show ?thesis using r by (auto simp: find_booking_def find_one_list block_all_def)
qed

lemma money_300 [simp]: "money (Some 300) = 30000"
  using money_cents[of 30000] by simp

theorem room_revenue_completed_once_witness:
  "\<exists>h1. reconcile_unposted_room_charge reception ''t1'' in_house ''u1'' False (small_house in_house) = (h1, Inr (True, 30000))
     \<and> revenue_of ''t1'' ''bk1'' h1 = 30000"
proof -
  have "\<exists>h1. reconcile_unposted_room_charge reception ''t1'' in_house ''u1'' False (small_house in_house) = (h1, Inr (True, 30000))"
    by (simp add: reconcile_unposted_room_charge_def Let_def find_many_def to_list_def find_one_list revenue_folio_def)
  then obtain h1 where r: "reconcile_unposted_room_charge reception ''t1'' in_house ''u1'' False (small_house in_house) = (h1, Inr (True, 30000))"
    by blast
  from room_revenue_completed_once[OF r] show ?thesis using r by auto
qed

lemma guest_checks_out:
  "\<exists>h'. check_out_booking_atomic True reception ''bk1'' ''t1'' ''u1'' '''' False (\<lambda>b. b) (\<lambda>rs. rs) (small_house in_house) = (h', Inr (Some ''101''))"
  by (simp add: check_out_booking_atomic_def in_transaction_def check_out_txn_def find_booking_def find_one_list enforce_business_date_transition_def
      guard_parse_date_def unpaid_folio_def to_list_def find_many_def compute_balance_def Let_def)
    (simp add: reconcile_unposted_room_charge_def Let_def find_many_def to_list_def find_one_list revenue_folio_def)

theorem check_out_outcome_witness:
  "\<exists>h'. check_out_booking_atomic True reception ''bk1'' ''t1'' ''u1'' '''' False (\<lambda>b. b) (\<lambda>rs. rs) (small_house in_house) = (h', Inr (Some ''101''))
     \<and> locks (hs_db h') = [] \<and> (\<exists>r. find_one (is_room ''t1'' ''101'') (rooms (hs_db h')) = Some r \<and> r_status r = ''dirty'')"
proof -
  obtain h' where r: "check_out_booking_atomic True reception ''bk1'' ''t1'' ''u1'' '''' False (\<lambda>b. b) (\<lambda>rs. rs) (small_house in_house) = (h', Inr (Some ''101''))"
    using guest_checks_out by blast
  from check_out_outcome[OF r small_house_ok(2) incidental_id]
  have l: "set (locks (hs_db h')) = {l \<in> set (locks (hs_db (small_house in_house))). (lk_tenant l, lk_booking l) \<noteq> (''t1'', ''bk1'')}"
    and rm: "\<exists>r. find_one (is_room ''t1'' ''101'') (rooms (hs_db h')) = Some r \<and> r_status r = ''dirty''"
    by (auto simp: find_one_list)
  have "\<forall>l \<in> set (locks (hs_db (small_house in_house))). (lk_tenant l, lk_booking l) = (''t1'', ''bk1'')"
    by (simp add: night_lock_def)
  then have "set (locks (hs_db h')) = {}" unfolding l by blast
  then have "locks (hs_db h') = []" by (rule set_empty[THEN iffD1])
  then show ?thesis by (intro exI[of _ h'] conjI r rm)
qed

theorem check_out_closes_unpaid_folio_witness:
  "\<exists>h' f. check_out_booking_atomic True reception ''bk1'' ''t1'' ''u1'' '''' False (\<lambda>b. b) (\<lambda>rs. rs) (small_house in_house) = (h', Inr (Some ''101''))
     \<and> lg_folios (hs_ledger h') = [f] \<and> fo_status f = ''closed'' \<and> fo_balance f = Some 300"
proof -
  obtain h' where r: "check_out_booking_atomic True reception ''bk1'' ''t1'' ''u1'' '''' False (\<lambda>b. b) (\<lambda>rs. rs) (small_house in_house) = (h', Inr (Some ''101''))"
    using guest_checks_out by blast
  from check_out_closes_unpaid_folio[OF r, of in_house "guest_folio ''f1''"] show ?thesis
    using r by (auto simp: find_booking_def find_one_list)
qed

end
