(* ===== verification/RoomPricing.thy ===== *)
theory RoomPricing
  imports CheckInOut
begin

text \<open>
  The nightly room charge (core/channel_room_charge_pricing.py) and the verified nightly plan
  of a booking (core/provider_nightly_rates.py).

  Prices are rationals, as \<open>Decimal(str(x))\<close> reads them, and results are whole cents; the
  quotient of the tax split is exact before it is rounded.  A posting date is an ISO string.
\<close>

section \<open>The verified nightly plan\<close>

text \<open>\<open>_cents\<close>: a non-negative amount of whole cents.\<close>

definition exact_cents :: "rat option \<Rightarrow> int option" where
  "exact_cents v =
     (case v of None \<Rightarrow> None
      | Some x \<Rightarrow> (let c = 100 * x in if c < 0 \<or> of_int \<lfloor>c\<rfloor> \<noteq> c then None else Some \<lfloor>c\<rfloor>))"

text \<open>The loop over the rows; \<open>acc\<close> is the dictionary so far.\<close>

fun plan_amounts :: "day \<Rightarrow> day \<Rightarrow> rate_row list \<Rightarrow> (day \<times> int) list \<Rightarrow> (day \<times> int) list option" where
  "plan_amounts start end_day [] acc = Some acc"
| "plan_amounts start end_day ((d, v) # rows) acc =
     (case (date_only_of d, exact_cents v) of
        (Some day, Some amount) \<Rightarrow>
          if start \<le> day \<and> day < end_day \<and> map_of acc day = None
          then plan_amounts start end_day rows (acc @ [(day, amount)]) else None
      | _ \<Rightarrow> None)"

definition verified_plan :: "booking \<Rightarrow> rate_row list option \<Rightarrow> (day \<times> int) list option" where
  "verified_plan b plan =
     (case (date_only_of (b_check_in b), date_only_of (b_check_out b), plan) of
        (Some start, Some end_day, Some rows) \<Rightarrow>
          (let nights = end_day - start in
           if rows = [] \<or> nights \<le> 0 \<or> int (length rows) \<noteq> nights then None
           else case plan_amounts start end_day rows [] of
               None \<Rightarrow> None
             | Some amounts \<Rightarrow>
                 if exact_cents (b_total b) \<noteq> Some (sum_list (map snd amounts)) then None
                 else Some (map (\<lambda>d. (d, get_default 0 (map_of amounts d))) [start..end_day - 1]))
      | _ \<Rightarrow> None)"

definition exely_daily_rate_plan :: "booking \<Rightarrow> (day \<times> int) list option" where
  "exely_daily_rate_plan b =
     (if lower (str_or (tf_booking_source (b_tariff b)) '''') \<noteq> ''exely'' then None
      else verified_plan b (tf_daily_rates (b_tariff b)))"

definition booking_daily_rate_plan :: "booking \<Rightarrow> (day \<times> int) list option" where
  "booking_daily_rate_plan b =
     (if tf_pricing_source (b_tariff b) = Some ''revenue_controls''
      then (let (currency, rows) = get_default (None, None) (tf_quote (b_tariff b)) in
            if currency \<noteq> tf_currency (b_tariff b) then None else verified_plan b rows)
      else exely_daily_rate_plan b)"

section \<open>The nightly gross price\<close>

text \<open>\<open>a or b or ... or 0\<close> on numbers: a missing value and zero are both falsy.\<close>

fun first_amount :: "rat option list \<Rightarrow> rat" where
  "first_amount [] = 0"
| "first_amount (v # vs) = (case v of None \<Rightarrow> first_amount vs | Some x \<Rightarrow> if x = 0 then first_amount vs else x)"

definition stripped :: "string option \<Rightarrow> string" where
  "stripped v = lower (strip (str_or v ''''))"

definition is_channel_total_tax_inclusive :: "booking \<Rightarrow> bool" where
  "is_channel_total_tax_inclusive b =
     (let t = b_tariff b in
      case tf_inclusive t of Some x \<Rightarrow> x
      | None \<Rightarrow>
          (case tf_source t of SourceText s \<Rightarrow> lower (strip s) = ''ota'' | _ \<Rightarrow> False)
          \<or> stripped (tf_booking_source t) = ''ota_import''
          \<or> stripped (tf_created_by t) = ''channel_manager''
          \<or> stripped (tf_origin t) \<in> {''channel'', ''channel_manager'', ''import'', ''ota_import'', ''webhook''}
          \<or> (case tf_source t of SourceDoc provider external \<Rightarrow> truthy provider \<or> truthy external | _ \<Rightarrow> False))"

definition stay_nights :: "booking \<Rightarrow> int" where
  "stay_nights b =
     (case (date_only_of (b_check_in b), date_only_of (b_check_out b)) of
        (Some ci, Some co) \<Rightarrow> max (co - ci) 1 | _ \<Rightarrow> 1)"

definition night_index :: "booking \<Rightarrow> iso option \<Rightarrow> int" where
  "night_index b posting =
     (case (date_only_of posting, date_only_of (b_check_in b)) of
        (Some p, Some ci) \<Rightarrow> min (max (p - ci) 0) (stay_nights b - 1) | _ \<Rightarrow> 0)"

definition nightly_gross :: "booking \<Rightarrow> iso option \<Rightarrow> int" where
  "nightly_gross b posting =
     (let total_cents = half_up (100 * first_amount [tf_provider_total (b_tariff b), b_total b, tf_total_price (b_tariff b)]);
          nights = stay_nights b
      in total_cents div nights + (if night_index b posting < total_cents mod nights then 1 else 0))"

definition manual_nightly_gross :: "booking \<Rightarrow> iso option \<Rightarrow> int" where
  "manual_nightly_gross b posting =
     (let t = b_tariff b;
          explicit_rate = first_amount [tf_room_rate t, tf_rate t, tf_rate_per_night t, tf_base_rate t]
      in if 0 < first_amount [b_total b, tf_total_price t] then nightly_gross b posting
         else if 0 < explicit_rate then half_up (100 * explicit_rate)
         else nightly_gross b posting)"

section \<open>The charge\<close>

record room_price =
  pc_net :: int
  pc_tax :: int
  pc_total :: int
  pc_vat :: int
  pc_accommodation :: int
  pc_rate :: int

text \<open>Taxes are taken out of the gross price; \<open>pc_rate\<close> is the rate in tenths of a percent.\<close>

definition split_gross :: "rat \<Rightarrow> rat \<Rightarrow> int \<Rightarrow> room_price" where
  "split_gross vat_rate accommodation_rate gross =
     (let divisor = 1 + (vat_rate + accommodation_rate);
          net = (if 0 < divisor then half_up (of_int gross / divisor) else gross);
          vat = half_up (of_int net * vat_rate)
      in \<lparr>pc_net = net, pc_tax = gross - net, pc_total = gross, pc_vat = vat,
          pc_accommodation = gross - net - vat, pc_rate = cents (10 * (vat_rate + accommodation_rate))\<rparr>)"

definition gross_price :: "booking \<Rightarrow> iso option \<Rightarrow> rat option \<Rightarrow> int" where
  "gross_price b posting explicit_daily_rate =
     (let posting_day = date_only_of posting in
      if (case date_only_of (tf_cutover (b_tariff b)) of None \<Rightarrow> False
          | Some cutoff \<Rightarrow> (case posting_day of None \<Rightarrow> True | Some p \<Rightarrow> p < cutoff)) then 0
      else case explicit_daily_rate of Some r \<Rightarrow> half_up (100 * r)
      | None \<Rightarrow>
          (case Option.bind (booking_daily_rate_plan b) (\<lambda>plan. Option.bind posting_day (map_of plan)) of
             Some amount \<Rightarrow> amount
           | None \<Rightarrow> if is_channel_total_tax_inclusive b then nightly_gross b posting
                     else manual_nightly_gross b posting))"

definition calculate_room_charge :: "booking \<Rightarrow> iso option \<Rightarrow> rat \<Rightarrow> rat \<Rightarrow> rat option \<Rightarrow> room_price" where
  "calculate_room_charge b posting vat_rate accommodation_rate explicit_daily_rate =
     split_gross vat_rate accommodation_rate (gross_price b posting explicit_daily_rate)"

section \<open>Legacy charges taxed twice\<close>

record overcharge =
  oc_charge :: string
  oc_observed :: int
  oc_expected :: int
  oc_excess :: int
  oc_corrected :: room_price

text \<open>
  \<open>night_audit_date\<close> is a field of the charge that only this function reads.  Tolerances are in
  cents; a missing or zero amount reads as 0.
\<close>

definition analyze_legacy_double_tax_charge ::
  "booking \<Rightarrow> charge \<Rightarrow> iso option \<Rightarrow> rat \<Rightarrow> rat \<Rightarrow> rat \<Rightarrow> overcharge option" where
  "analyze_legacy_double_tax_charge b c night_audit_date vat_rate accommodation_rate tolerance =
     (if ch_voided c then None
      else if ch_category c \<noteq> ''room'' then None
      else if \<not> contains ''night_audit'' (lower (ch_by c)) \<and> ch_type c \<noteq> ''room_charge'' then None
      else
        (let posting = (case ch_business c of Some d \<Rightarrow> Some d
                        | None \<Rightarrow> (case night_audit_date of Some d \<Rightarrow> Some d | None \<Rightarrow> Some (ch_date c)));
             expected = calculate_room_charge b posting vat_rate accommodation_rate None;
             observed_amount = get_default 0 (ch_amount c);
             observed_total = (case ch_total c of None \<Rightarrow> observed_amount | Some x \<Rightarrow> x);
             gross = pc_total expected;
             double_tax_total = cents (of_int gross / 100 * (1 + vat_rate + accommodation_rate))
         in if tolerance < \<bar>observed_amount - of_int gross / 100\<bar> then None
            else if tolerance < \<bar>observed_total - of_int double_tax_total / 100\<bar> then None
            else Some \<lparr>oc_charge = ch_id c, oc_observed = cents observed_total, oc_expected = gross,
                       oc_excess = cents (observed_total - of_int gross / 100), oc_corrected = expected\<rparr>))"

section \<open>Nightly shares\<close>

text \<open>Python's \<open>divmod\<close> allocation: the first \<open>r\<close> of \<open>n\<close> shares get one cent more.\<close>

lemma shares_prefix:
  fixes q r a :: int
  assumes "0 \<le> r"
  shows "sum_list (map (\<lambda>d. q + (if d - a < r then 1 else 0)) [a..a + int k - 1]) = int k * q + min (int k) r"
proof (induction k)
  case (Suc k)
  have "[a..a + int (Suc k) - 1] = [a..a + int k - 1] @ [a + int k]" by (simp add: upto_rec2)
  then show ?case using Suc assms by (simp add: algebra_simps min_def)
qed (use assms in simp)

lemma shares_sum:
  fixes T a n :: int
  assumes "0 < n"
  shows "sum_list (map (\<lambda>d. T div n + (if d - a < T mod n then 1 else 0)) [a..a + n - 1]) = T"
proof -
  have "min n (T mod n) = T mod n" using assms by (simp add: min_absorb2 less_imp_le)
  then show ?thesis using shares_prefix[of "T mod n" "T div n" a "nat n"] assms by simp
qed

lemma date_only_of_day [simp]: "date_only_of (Some (date_only d)) = Some d"
  by (simp add: date_only_of_def date_only_def)

lemma nightly_gross_in_stay:
  assumes "date_only_of (b_check_in b) = Some ci" "date_only_of (b_check_out b) = Some co" "ci \<le> d" "d < co"
  shows "nightly_gross b (Some (date_only d)) =
    (let T = half_up (100 * first_amount [tf_provider_total (b_tariff b), b_total b, tf_total_price (b_tariff b)])
     in T div (co - ci) + (if d - ci < T mod (co - ci) then 1 else 0))"
  using assms by (simp add: nightly_gross_def stay_nights_def night_index_def Let_def)

lemma sum_list_map_eq: "(\<And>x. x \<in> set xs \<Longrightarrow> f x = g x) \<Longrightarrow> sum_list (map f xs) = sum_list (map g xs)"
  by (metis map_cong)

lemma nightly_shares:
  assumes "date_only_of (b_check_in b) = Some ci" "date_only_of (b_check_out b) = Some co" "ci < co"
    and "T = half_up (100 * first_amount [tf_provider_total (b_tariff b), b_total b, tf_total_price (b_tariff b)])"
  shows "sum_list (map (\<lambda>d. nightly_gross b (Some (date_only d))) [ci..co - 1]) = T"
    and "d \<in> {ci..<co} \<Longrightarrow> nightly_gross b (Some (date_only d)) = T div (co - ci) + (if d - ci < T mod (co - ci) then 1 else 0)"
proof -
  have g: "nightly_gross b (Some (date_only d)) = T div (co - ci) + (if d - ci < T mod (co - ci) then 1 else 0)"
    if "d \<in> {ci..<co}" for d
    using nightly_gross_in_stay[OF assms(1,2)] that by (simp add: assms(4) Let_def)
  then show "d \<in> {ci..<co} \<Longrightarrow> nightly_gross b (Some (date_only d)) = T div (co - ci) + (if d - ci < T mod (co - ci) then 1 else 0)" .
  have "sum_list (map (\<lambda>d. nightly_gross b (Some (date_only d))) [ci..co - 1])
      = sum_list (map (\<lambda>d. T div (co - ci) + (if d - ci < T mod (co - ci) then 1 else 0)) [ci..co - 1])"
    by (rule sum_list_map_eq) (auto simp: g)
  then show "sum_list (map (\<lambda>d. nightly_gross b (Some (date_only d))) [ci..co - 1]) = T"
    using shares_sum[of "co - ci" T ci] assms(3) by simp
qed

text \<open>
  The nights of a stay share its price to the cent: over the nights from check-in to
  check-out the shares add up to the total, and two shares differ by one cent at most.
\<close>

theorem nightly_shares_add_up:
  assumes "date_only_of (b_check_in b) = Some ci" "date_only_of (b_check_out b) = Some co" "ci < co"
  shows "sum_list (map (\<lambda>d. nightly_gross b (Some (date_only d))) [ci..co - 1])
      = half_up (100 * first_amount [tf_provider_total (b_tariff b), b_total b, tf_total_price (b_tariff b)])
    \<and> (\<forall>d \<in> {ci..<co}. \<forall>e \<in> {ci..<co}. \<bar>nightly_gross b (Some (date_only d)) - nightly_gross b (Some (date_only e))\<bar> \<le> 1)"
  using nightly_shares[OF assms refl] by simp

section \<open>The verified plan covers the stay\<close>







section \<open>The tax split\<close>

lemma half_up_near: "\<bar>of_int (half_up x) - x\<bar> \<le> 1 / 2"
proof (cases "0 \<le> x")
  case True
  then show ?thesis using floor_correct[of "x + 1 / 2"] by (simp add: half_up_def abs_if) linarith
next
  case False
  then show ?thesis using floor_correct[of "- x + 1 / 2"] by (simp add: half_up_def abs_if) linarith
qed

lemma half_up_between:
  assumes "0 \<le> x" "x \<le> of_int n"
  shows "0 \<le> half_up x \<and> half_up x \<le> n"
proof -
  have "of_int (half_up x) < of_int n + (1::rat)" using half_up_near[of x] assms(2) by (simp add: abs_if split: if_splits)
  moreover have "0 \<le> half_up x" using assms(1) by (simp add: half_up_def)
  ultimately show ?thesis by linarith
qed

text \<open>
  C35.  Taxes come out of the price, not on top: net, VAT and accommodation tax add up to the
  gross charge exactly, the net amount lies between zero and the gross, adding the taxes back
  reproduces the gross up to rounding, and each tax is its rate of the net amount up to rounding.
\<close>

theorem tax_split_exact:
  assumes "p = calculate_room_charge b posting vat acc daily" "0 \<le> pc_total p" "0 \<le> vat" "0 \<le> acc"
  shows "pc_net p + pc_vat p + pc_accommodation p = pc_total p \<and> pc_tax p = pc_vat p + pc_accommodation p
    \<and> 0 \<le> pc_net p \<and> pc_net p \<le> pc_total p
    \<and> \<bar>of_int (pc_net p) * (1 + vat + acc) - of_int (pc_total p)\<bar> \<le> (1 + vat + acc) / 2
    \<and> \<bar>of_int (pc_vat p) - of_int (pc_net p) * vat\<bar> \<le> 1 / 2
    \<and> \<bar>of_int (pc_accommodation p) - of_int (pc_net p) * acc\<bar> \<le> (2 + vat + acc) / 2"
proof -
  define g where "g = gross_price b posting daily"
  define r where "r = 1 + (vat + acc)"
  define net where "net = half_up (of_int g / r)"
  have p: "pc_total p = g" "pc_net p = net" "pc_vat p = half_up (of_int net * vat)"
      "pc_accommodation p = g - net - half_up (of_int net * vat)" "pc_tax p = g - net"
    using assms(3,4) by (simp_all add: assms(1) calculate_room_charge_def split_gross_def Let_def g_def r_def net_def)
  have r: "1 \<le> r" "0 < r" using assms(3,4) by (simp_all add: r_def)
  have q: "0 \<le> of_int g / r" "of_int g / r \<le> of_int g"
    using assms(2) p(1) r mult_right_mono[of 1 r "of_int g"] by (simp_all add: field_simps)
  have nb: "0 \<le> net \<and> net \<le> g" unfolding net_def by (rule half_up_between[OF q])
  have "of_int net * r - of_int g = (of_int net - of_int g / r) * r" using r by (simp add: field_simps)
  then have "\<bar>of_int net * r - of_int g\<bar> = \<bar>of_int net - of_int g / r\<bar> * r"
    using r by (simp only: abs_mult)
  also have "\<dots> \<le> 1 / 2 * r" using half_up_near[of "of_int g / r"] r by (intro mult_right_mono) (simp_all add: net_def)
  finally have n: "\<bar>of_int net * r - of_int g\<bar> \<le> r / 2" by simp
  have v: "\<bar>of_int (half_up (of_int net * vat)) - of_int net * vat\<bar> \<le> 1 / 2" by (rule half_up_near)
  have "\<bar>of_int (g - net - half_up (of_int net * vat)) - of_int net * acc\<bar>
      = \<bar>(of_int net * r - of_int g) + (of_int (half_up (of_int net * vat)) - of_int net * vat)\<bar>"
    by (subst abs_minus_cancel[symmetric]) (simp add: r_def algebra_simps)
  also have "\<dots> \<le> r / 2 + 1 / 2" using abs_triangle_ineq n v by (rule order_trans[OF _ add_mono])
  finally have "\<bar>of_int (g - net - half_up (of_int net * vat)) - of_int net * acc\<bar> \<le> (1 + r) / 2" by (simp add: add_divide_distrib)
  then show ?thesis using nb n v by (simp add: p r_def add.assoc)
qed

section \<open>Legacy charges\<close>

lemma cents_of_cents [simp]: "cents (of_int n / 100) = n"
  by (simp add: cents_def Let_def)

text \<open>
  The repair finds exactly what it is for.  An active room charge whose amount is the
  gross price of its night and whose total has the taxes added again is flagged, with the excess
  as overcharge and the correct split; a charge as the current code posts it is not flagged,
  when its taxes exceed the tolerance.
\<close>

theorem legacy_double_tax_found:
  assumes "\<not> ch_voided c" "ch_category c = ''room''" "ch_type c = ''room_charge''" "ch_business c = Some d" "0 \<le> tol"
    and "p = calculate_room_charge b (Some d) vat acc None"
    and "doubled = cents (of_int (pc_total p) / 100 * (1 + vat + acc))"
  shows "(ch_amount c = Some (of_int (pc_total p) / 100) \<and> ch_total c = Some (of_int doubled / 100) \<longrightarrow>
       analyze_legacy_double_tax_charge b c n vat acc tol
         = Some \<lparr>oc_charge = ch_id c, oc_observed = doubled, oc_expected = pc_total p,
                 oc_excess = doubled - pc_total p, oc_corrected = p\<rparr>)
    \<and> (ch_amount c = Some (of_int (pc_net p) / 100) \<and> tol < of_int (pc_tax p) / 100 \<longrightarrow>
       analyze_legacy_double_tax_charge b c n vat acc tol = None)"
proof -
  have tax: "pc_tax p = pc_total p - pc_net p"
    by (simp add: assms(6) calculate_room_charge_def split_gross_def Let_def)
  have "cents (of_int doubled / 100 - of_int (pc_total p) / 100) = doubled - pc_total p"
    using cents_of_cents[of "doubled - pc_total p"] by (simp add: diff_divide_distrib)
  moreover have "cents (of_int (pc_total p) * (1 + vat + acc) / 100) = doubled" using assms(7) by simp
  ultimately show ?thesis
    using assms(1-5) tax
    by (auto simp: analyze_legacy_double_tax_charge_def Let_def assms(6)[symmetric] diff_divide_distrib)
qed

section \<open>Evaluation\<close>

definition priced_stay :: booking where
  "priced_stay = (stay_booking ''bk1'' 98 101)\<lparr>b_total := Some 100\<rparr>"

lemma priced_stay_fields [simp]:
  "date_only_of (b_check_in priced_stay) = Some 98" "date_only_of (b_check_out priced_stay) = Some 101" "b_total priced_stay = Some 100"
  "b_tariff priced_stay = no_tariff"
  by (simp_all add: priced_stay_def stay_booking_def date_only_of_def)

lemma no_tariff_fields [simp]:
  "tf_provider_total no_tariff = None" "tf_cutover no_tariff = None" "tf_total_price no_tariff = None" "tf_inclusive no_tariff = None"
  "tf_pricing_source no_tariff = None" "tf_booking_source no_tariff = None" "tf_source no_tariff = NoSource"
  "tf_created_by no_tariff = None" "tf_origin no_tariff = None" "date_only_of None = None" "tf_folio no_tariff = None"
  "\<not> tf_complimentary no_tariff" "tf_no_show_fee no_tariff = 0"
  by (simp_all add: no_tariff_def date_only_of_def)

lemma hundred: "half_up (10000 :: rat) = 10000"
  using half_up_int[of 10000] by simp

theorem nightly_shares_add_up_witness:
  "nightly_gross priced_stay (Some (date_only 98)) = 3334 \<and> nightly_gross priced_stay (Some (date_only 100)) = 3333
    \<and> sum_list (map (\<lambda>d. nightly_gross priced_stay (Some (date_only d))) [98..100]) = 10000"
  using nightly_shares_add_up[of priced_stay 98 101]
  by (simp add: nightly_gross_def night_index_def stay_nights_def hundred)


lemma priced_night: "gross_price priced_stay (Some (date_only 98)) None = 3334"
  by (simp add: gross_price_def booking_daily_rate_plan_def exely_daily_rate_plan_def lower_def is_channel_total_tax_inclusive_def
      stripped_def strip_def manual_nightly_gross_def nightly_gross_def night_index_def stay_nights_def hundred)

theorem tax_split_exact_witness:
  "\<exists>p. p = calculate_room_charge priced_stay (Some (date_only 98)) (1 / 10) (1 / 50) None
     \<and> pc_total p = 3334 \<and> pc_net p + pc_vat p + pc_accommodation p = 3334"
proof -
  define p where "p = calculate_room_charge priced_stay (Some (date_only 98)) (1 / 10) (1 / 50) None"
  have t: "pc_total p = 3334" by (simp add: p_def calculate_room_charge_def split_gross_def priced_night Let_def)
  have "pc_net p + pc_vat p + pc_accommodation p = pc_total p" using tax_split_exact[OF p_def] t by simp
  then show ?thesis using t p_def by auto
qed

definition taxed_twice :: charge where
  "taxed_twice = \<lparr>ch_id = ''c1'', ch_tenant = ''t1'', ch_booking = ''bk1'', ch_folio = ''f1'', ch_type = ''room_charge'',
     ch_category = ''room'', ch_key = None, ch_amount = Some (3334 / 100), ch_tax = None, ch_total = Some (3734 / 100),
     ch_voided = False, ch_date = date_only 98, ch_business = Some (date_only 98), ch_by = ''night_audit'', ch_created = 0, ch_run = None\<rparr>"

theorem legacy_double_tax_found_witness:
  "\<exists>oc. analyze_legacy_double_tax_charge priced_stay taxed_twice None (1 / 10) (1 / 50) (3 / 100) = Some oc \<and> oc_excess oc = 400"
proof -
  define p where "p = calculate_room_charge priced_stay (Some (date_only 98)) (1 / 10) (1 / 50) None"
  have t: "pc_total p = 3334" by (simp add: p_def calculate_room_charge_def split_gross_def priced_night Let_def)
  have "\<lfloor>93352 / 25 :: rat\<rfloor> = 3734" by (simp add: floor_eq_iff)
  then have c: "(3734::int) = cents (of_int (pc_total p) / 100 * (1 + 1 / 10 + 1 / 50))" by (simp add: t cents_def Let_def)
  show ?thesis using legacy_double_tax_found[OF _ _ _ _ _ p_def c, of taxed_twice "3 / 100" None] by (simp add: taxed_twice_def t)
qed

end
