(* ===== verification/AuditRules.thy ===== *)
theory AuditRules
  imports RoomPricing
begin

text \<open>
  What the night audit decides before it posts (core/night_audit_hardened.py,
  core/channel_mapping_issues.py, and the tax rate of
  routers/finance/konaklama_vergisi_core.py): which bookings are due, which stays are billed for
  a business date, which channel reservations still wait for a room mapping, and the tax rate.

  A business date is a date-only string, represented by its day.  The display fields of a
  mapping issue (guest, room codes, links) are left out.
\<close>

section \<open>Due bookings and billable stays\<close>

definition partition_due_bookings ::
  "(booking \<Rightarrow> iso option) \<Rightarrow> day \<Rightarrow> bool \<Rightarrow> booking list \<Rightarrow> booking list \<times> booking list" where
  "partition_due_bookings field bd include_bd bs =
     (filter (\<lambda>b. case date_only_of (field b) of None \<Rightarrow> False | Some d \<Rightarrow> d < bd \<or> include_bd \<and> d = bd) bs,
      filter (\<lambda>b. date_only_of (field b) = None) bs)"

definition split_pending_arrivals :: "booking list \<Rightarrow> booking list \<times> booking list" where
  "split_pending_arrivals bs = (filter (\<lambda>b. truthy (b_room b)) bs, filter (\<lambda>b. \<not> truthy (b_room b)) bs)"

datatype stay_class = ActiveStay | FutureStay | EndedStay | InvalidStay

definition classify_stay :: "day \<Rightarrow> booking \<Rightarrow> stay_class" where
  "classify_stay bd b =
     (case (date_only_of (b_check_in b), date_only_of (b_check_out b)) of
        (Some ci, Some co) \<Rightarrow>
          if co \<le> ci then InvalidStay else if bd < ci then FutureStay else if co \<le> bd then EndedStay else ActiveStay
      | _ \<Rightarrow> InvalidStay)"

definition partition_stays ::
  "day \<Rightarrow> booking list \<Rightarrow> booking list \<times> booking list \<times> booking list \<times> booking list" where
  "partition_stays bd bs =
     (filter (\<lambda>b. classify_stay bd b = ActiveStay) bs, filter (\<lambda>b. classify_stay bd b = FutureStay) bs,
      filter (\<lambda>b. classify_stay bd b = EndedStay) bs, filter (\<lambda>b. classify_stay bd b = InvalidStay) bs)"

definition load_bookings_for_date_check :: "string \<Rightarrow> string list \<Rightarrow> db \<Rightarrow> booking list" where
  "load_bookings_for_date_check tenant statuses d =
     find_many (\<lambda>b. b_tenant b = tenant \<and> (\<exists>s \<in> set statuses. b_status b = Some s)) (bookings d)"

section \<open>Reservations waiting for a room mapping\<close>

text \<open>
  The projection of the four collections (\<open>mp_origin\<close> names the collection);
  \<open>mp_arrivals\<close> are \<open>check_in\<close>, \<open>checkin_date\<close>, \<open>arrival_date\<close>, and \<open>mp_archived\<close> is
  \<open>is_archived_demo\<close>.
\<close>

record mapping_record =
  mp_origin :: string
  mp_tenant :: string
  mp_id :: string
  mp_status :: "string option"
  mp_state :: "string option"
  mp_pms_status :: "string option"
  mp_import_status :: "string option"
  mp_review_reason :: "string option"
  mp_booking_source :: "string option"
  mp_source_kind :: "string option"
  mp_allocation :: "string option"
  mp_hold :: bool
  mp_provider :: "string option"
  mp_source_provider :: "string option"
  mp_top_provider :: "string option"
  mp_external :: "string option list"
  mp_property :: "string option"
  mp_arrivals :: "iso option list"
  mp_archived :: bool

definition terminal_mapping :: "string list" where
  "terminal_mapping = [''cancelled'', ''canceled'', ''checked_out'', ''no_show'', ''resolved'']"

definition hold_source :: string where "hold_source = ''ota_unmatched_hold''"

definition not_terminal :: "string option \<Rightarrow> bool" where
  "not_terminal v \<longleftrightarrow> (case v of None \<Rightarrow> True | Some s \<Rightarrow> s \<notin> set terminal_mapping)"

text \<open>The queries of the four collections, in their order.\<close>

definition mapping_query :: "string \<Rightarrow> string \<Rightarrow> mapping_record \<Rightarrow> bool" where
  "mapping_query collection tenant r \<longleftrightarrow>
     mp_origin r = collection \<and> mp_tenant r = tenant \<and>
     (if collection = ''bookings'' then
        not_terminal (mp_status r) \<and>
        (mp_status r = Some ''pending_mapping'' \<or> mp_booking_source r = Some hold_source
         \<or> mp_source_kind r = Some hold_source \<or> mp_allocation r = Some hold_source \<or> mp_hold r)
      else if collection = ''imported_reservations'' then
        mp_import_status r = Some ''review_required''
        \<and> mp_review_reason r \<in> {Some ''unmapped_room_type'', Some ''unmapped_rate_plan''} \<and> not_terminal (mp_status r)
      else mp_pms_status r = Some ''pending_mapping'' \<and> not_terminal (mp_state r))"

definition mapping_collections :: "string list" where
  "mapping_collections = [''bookings'', ''exely_reservations'', ''hotelrunner_reservations'', ''imported_reservations'']"

text \<open>\<open>a or b or ...\<close> on optional strings and on optional dates.\<close>

fun first_text :: "string option list \<Rightarrow> string \<Rightarrow> string" where
  "first_text [] d = d"
| "first_text (v # vs) d = (case v of None \<Rightarrow> first_text vs d | Some s \<Rightarrow> if s = [] then first_text vs d else s)"

fun first_date :: "iso option list \<Rightarrow> iso option" where
  "first_date [] = None"
| "first_date (v # vs) = (case v of None \<Rightarrow> first_date vs | Some s \<Rightarrow> Some s)"

definition mapping_key :: "mapping_record \<Rightarrow> string \<times> string \<times> string" where
  "mapping_key r =
     (first_text [mp_property r, Some (mp_tenant r)] '''',
      lower (first_text [mp_provider r, mp_source_provider r, mp_top_provider r] ''unknown''),
      first_text (mp_external r) (mp_origin r @ '':'' @ mp_id r))"

record mapping_issue =
  mi_key :: "string \<times> string \<times> string"
  mi_check_in :: "iso option"
  mi_bookings :: "string list"
  mi_sources :: "(string \<times> string) list"

definition merge_record :: "mapping_record \<Rightarrow> mapping_issue \<Rightarrow> mapping_issue" where
  "merge_record r g =
     (let arrival = first_date (mp_arrivals r);
          candidate_day = date_only_of arrival;
          prior_day = date_only_of (mi_check_in g);
          earlier = (case (candidate_day, prior_day) of
                       (None, _) \<Rightarrow> True | (Some c, Some p) \<Rightarrow> c < p | (Some _, None) \<Rightarrow> False)
      in g\<lparr>mi_sources := mi_sources g @ [(mp_origin r, mp_id r)],
           mi_bookings := (if mp_origin r = ''bookings'' \<and> mp_id r \<notin> set (mi_bookings g)
                           then mi_bookings g @ [mp_id r] else mi_bookings g),
           mi_check_in := (if earlier then arrival else mi_check_in g)\<rparr>)"

definition ignored_record :: "mapping_record \<Rightarrow> bool" where
  "ignored_record r \<longleftrightarrow> mp_archived r \<or> lower (first_text [mp_status r, mp_state r] '''') \<in> set terminal_mapping"

text \<open>\<open>groups.setdefault(key, ...)\<close> and the updates of the group.\<close>

definition group_record :: "mapping_record \<Rightarrow> mapping_issue list \<Rightarrow> mapping_issue list" where
  "group_record r gs =
     (if ignored_record r then gs
      else if list_ex (\<lambda>g. mi_key g = mapping_key r) gs
      then update_one (\<lambda>g. mi_key g = mapping_key r) (merge_record r) gs
      else gs @ [merge_record r \<lparr>mi_key = mapping_key r, mi_check_in = first_date (mp_arrivals r), mi_bookings = [], mi_sources = []\<rparr>])"

definition group_mapping_issues :: "mapping_record list \<Rightarrow> mapping_issue list" where
  "group_mapping_issues rs = fold group_record rs []"

definition load_mapping_issues :: "string \<Rightarrow> mapping_record list \<Rightarrow> mapping_issue list" where
  "load_mapping_issues tenant rs =
     group_mapping_issues (concat (map (\<lambda>c. filter (mapping_query c tenant) rs) mapping_collections))"

definition blocks_close :: "day \<Rightarrow> mapping_issue \<Rightarrow> bool" where
  "blocks_close bd g = (case date_only_of (mi_check_in g) of None \<Rightarrow> True | Some d \<Rightarrow> d \<le> bd)"

definition duplicate_hold_count :: "mapping_issue \<Rightarrow> nat" where
  "duplicate_hold_count g = length (mi_bookings g) - 1"

text \<open>\<open>mapping_close_blocker\<close>: the number of issues that keep the date from closing.\<close>

definition mapping_close_blocker :: "day \<Rightarrow> mapping_issue list \<Rightarrow> nat option" where
  "mapping_close_blocker bd gs =
     (let due = filter (blocks_close bd) gs in if due = [] then None else Some (length due))"

section \<open>The accommodation tax rate\<close>

record tax_rule =
  tx_tenant :: string
  tx_active :: bool
  tx_percent :: "rat option"
  tx_legacy :: "rat option"
  tx_from :: "iso option"

definition round6 :: "rat \<Rightarrow> rat" where
  "round6 x = of_int (cents (10000 * x)) / 1000000"

definition get_accommodation_tax_rate :: "string \<Rightarrow> day \<Rightarrow> tax_rule list \<Rightarrow> rat" where
  "get_accommodation_tax_rate tenant bd rules =
     (case find_one (\<lambda>r. tx_tenant r = tenant \<and> tx_active r) rules of
        None \<Rightarrow> round6 (2 / 100)
      | Some r \<Rightarrow>
          (let percent = (case tx_percent r of Some p \<Rightarrow> p | None \<Rightarrow> get_default 2 (tx_legacy r)) in
           case Option.bind (tx_from r) iso_date of
             Some d \<Rightarrow> if bd < d then 0 else round6 (percent / 100)
           | None \<Rightarrow> round6 (percent / 100)))"

section \<open>The blocker sees every waiting reservation\<close>

definition waits :: "day \<Rightarrow> mapping_record \<Rightarrow> bool" where
  "waits bd r \<longleftrightarrow> \<not> ignored_record r \<and> (case date_only_of (first_date (mp_arrivals r)) of None \<Rightarrow> True | Some d \<Rightarrow> d \<le> bd)"

lemma merge_blocks:
  "\<not> ignored_record r \<Longrightarrow> blocks_close bd (merge_record r g) \<longleftrightarrow> blocks_close bd g \<or> waits bd r"
  by (auto simp: merge_record_def blocks_close_def waits_def Let_def split: option.splits)

lemma merge_key [simp]: "mi_key (merge_record r g) = mi_key g"
  by (simp add: merge_record_def Let_def)

lemma update_one_ex:
  assumes "\<exists>g \<in> set gs. p g" "\<And>g. p g \<Longrightarrow> q (f g) \<longleftrightarrow> q g \<or> c"
  shows "(\<exists>g \<in> set (update_one p f gs). q g) \<longleftrightarrow> (\<exists>g \<in> set gs. q g) \<or> c"
  using assms by (induction gs) auto

lemma group_record_blocks:
  "(\<exists>g \<in> set (group_record r gs). blocks_close bd g) \<longleftrightarrow> (\<exists>g \<in> set gs. blocks_close bd g) \<or> waits bd r"
proof (cases "ignored_record r")
  case True
  then show ?thesis by (simp add: group_record_def waits_def)
next
  case False
  have new: "blocks_close bd (merge_record r \<lparr>mi_key = k, mi_check_in = first_date (mp_arrivals r), mi_bookings = bs, mi_sources = ss\<rparr>)
      \<longleftrightarrow> waits bd r" for k bs ss
    unfolding merge_blocks[OF False] using False by (auto simp: blocks_close_def waits_def)
  show ?thesis
  proof (cases "list_ex (\<lambda>g. mi_key g = mapping_key r) gs")
    case True
    then have "\<exists>g \<in> set gs. mi_key g = mapping_key r" by (simp add: list_ex_iff)
    from update_one_ex[OF this, of "blocks_close bd" "merge_record r" "waits bd r"] show ?thesis
      using True False by (simp add: group_record_def merge_blocks)
  qed (use False new in \<open>auto simp: group_record_def\<close>)
qed

lemma group_record_keys:
  "distinct (map mi_key gs) \<Longrightarrow> distinct (map mi_key (group_record r gs))"
  by (auto simp: group_record_def map_update_one list_ex_iff)

lemma fold_group_blocks:
  "(\<exists>g \<in> set (fold group_record rs gs). blocks_close bd g) \<longleftrightarrow> (\<exists>g \<in> set gs. blocks_close bd g) \<or> (\<exists>r \<in> set rs. waits bd r)"
  by (induction rs arbitrary: gs) (auto simp: group_record_blocks)

lemma fold_group_keys: "distinct (map mi_key gs) \<Longrightarrow> distinct (map mi_key (fold group_record rs gs))"
  by (induction rs arbitrary: gs) (auto simp: group_record_keys)

text \<open>
  A date cannot close over a channel reservation that still waits for its room: the
  blocker is raised exactly when some record of the tenant's four queues, neither archived nor
  ended, has an arrival on or before the date or no readable arrival, however the records are
  grouped and ordered; and one reservation is one issue.
\<close>

theorem mapping_blocker_exact:
  "(mapping_close_blocker bd (load_mapping_issues t rs) \<noteq> None \<longleftrightarrow>
      (\<exists>r \<in> set rs. (\<exists>c \<in> set mapping_collections. mapping_query c t r) \<and> \<not> ignored_record r
         \<and> (case date_only_of (first_date (mp_arrivals r)) of None \<Rightarrow> True | Some d \<Rightarrow> d \<le> bd)))
    \<and> distinct (map mi_key (load_mapping_issues t rs))"
proof -
  have "mapping_close_blocker bd (load_mapping_issues t rs) \<noteq> None \<longleftrightarrow> (\<exists>g \<in> set (load_mapping_issues t rs). blocks_close bd g)"
    by (auto simp: mapping_close_blocker_def Let_def filter_empty_conv)
  also have "\<dots> \<longleftrightarrow> (\<exists>r \<in> set rs. (\<exists>c \<in> set mapping_collections. mapping_query c t r) \<and> waits bd r)"
    unfolding load_mapping_issues_def group_mapping_issues_def fold_group_blocks by auto
  finally show ?thesis
    using fold_group_keys[of "[]"] by (auto simp: waits_def load_mapping_issues_def group_mapping_issues_def)
qed

end
