(* ===== verification/NightAudit.thy ===== *)
theory NightAudit
  imports AuditRules
begin

text \<open>
  The night audit (core/night_audit_hardened.py): a run closes one business date.  It validates
  the day, builds one item per billable stay and per no-show, posts every pending item in a
  transaction of its own, reconciles the items, and only then rolls the date.

  The state is the house of CheckInOut with the runs, the run items, the channel queues, the
  nightly rates, the tax rules and the audit schedules.  \<open>ae_fails\<close> says which item
  transactions raise, \<open>ae_down\<close> in which stage the driver fails (before the stage writes its
  result; \<open>''mapping''\<close> is the query before posting),
  \<open>ae_order\<close> in which order the eight workers commit the items, \<open>ae_inbox\<close> what reaches the
  channel queues before the date is rolled, and \<open>ae_pos\<close> how many point-of-sale transactions
  are open (\<open>None\<close> when the query fails).  One reading of the clock stands for the several of
  a run, and the amount in the metadata of the trail row is left out.  The derived payment fields of a booking, the ledger
  bridge and the task snapshot after the close are not part of this theory.
\<close>

section \<open>Data\<close>

record run_item =
  ri_id :: string
  ri_run :: string
  ri_tenant :: string
  ri_booking :: string
  ri_folio :: "string option"
  ri_room :: "string option"
  ri_type :: string
  ri_date :: day
  ri_amount :: rat
  ri_tax :: rat
  ri_total :: rat
  ri_currency :: string
  ri_status :: string
  ri_reason :: "string option"

datatype na_note =
  OtherActiveRun | NoRoomAssigned nat | NoOpenFolio nat | OverdueCheckouts nat | InvalidCheckouts nat | InvalidStays nat
| FutureStays nat | PendingArrivals nat | PendingWithoutRoom nat | InvalidArrivals nat | OpenPos nat | CleaningInProgress nat
| MappingPending nat | ValidationsSkipped | StageFailed string | ItemsFailed nat | ItemsRemain nat | StaleRun | AbortedBy string

record na_run =
  ru_id :: string
  ru_tenant :: string
  ru_property :: "string option"
  ru_date :: day
  ru_status :: string
  ru_stage :: string
  ru_trigger :: string
  ru_actor :: string
  ru_dry :: bool
  ru_candidates :: nat
  ru_processed :: nat
  ru_failed :: nat
  ru_skipped :: nat
  ru_warnings :: "na_note list"
  ru_errors :: "na_note list"
  ru_started :: instant
  ru_completed :: "instant option"
  ru_heartbeat :: "instant option"
  ru_superseded :: "string option"

record daily_rate =
  dr_id :: string
  dr_tenant :: string
  dr_booking :: string
  dr_date :: iso
  dr_rate :: rat
  dr_updated :: instant

record audit_house =
  ah_house :: house
  ah_runs :: "na_run list"
  ah_items :: "run_item list"
  ah_mapping :: "mapping_record list"
  ah_rates :: "daily_rate list"
  ah_rules :: "tax_rule list"
  ah_schedules :: "(string \<times> string option) list"

record audit_env =
  ae_now :: instant
  ae_zones :: zones
  ae_run_id :: string
  ae_item_id :: "nat \<Rightarrow> string"
  ae_charge_id :: "run_item \<Rightarrow> string"
  ae_tax_up :: bool
  ae_pos :: "nat option"
  ae_down :: "string \<Rightarrow> bool"
  ae_fails :: "run_item \<Rightarrow> bool"
  ae_order :: "run_item list \<Rightarrow> run_item list"
  ae_inbox :: "mapping_record list \<Rightarrow> mapping_record list"

datatype audit_code =
  BusinessDateUnknown | BusinessDateNotReady | ValidationBlocked | ValidationError | CandidateError | PostingError
| ReconciliationFailed | ReconciliationError | DateRollError | AlreadyCompleted | RunBlocked | AlreadyRunning | StaleRecovered
| NeedsResume | Conflict | Unexpected | RetryAfterDryRun | RunNotFound | Raised | InvalidRunState | DryRunNotResumable | StillBlocked

definition stale_threshold_seconds :: int where "stale_threshold_seconds = 900"

definition default_property :: string where "default_property = ''default''"

definition default_currency :: string where "default_currency = ''TRY''"

definition vat_rate :: rat where "vat_rate = 1 / 10"

definition accommodation_tax_rate :: rat where "accommodation_tax_rate = 1 / 50"

section \<open>Runs\<close>

definition on_house :: "(house \<Rightarrow> house) \<Rightarrow> audit_house \<Rightarrow> audit_house" where
  "on_house f a = a\<lparr>ah_house := f (ah_house a)\<rparr>"

definition set_run :: "string \<Rightarrow> (na_run \<Rightarrow> na_run) \<Rightarrow> audit_house \<Rightarrow> audit_house" where
  "set_run i f a = a\<lparr>ah_runs := update_one (\<lambda>r. ru_id r = i) f (ah_runs a)\<rparr>"

definition set_item :: "string \<Rightarrow> (run_item \<Rightarrow> run_item) \<Rightarrow> audit_house \<Rightarrow> audit_house" where
  "set_item i f a = a\<lparr>ah_items := update_one (\<lambda>x. ri_id x = i) f (ah_items a)\<rparr>"

definition set_stage :: "audit_env \<Rightarrow> string \<Rightarrow> string \<Rightarrow> audit_house \<Rightarrow> audit_house" where
  "set_stage ae i stage = set_run i (\<lambda>r. r\<lparr>ru_stage := stage, ru_heartbeat := Some (ae_now ae)\<rparr>)"

definition fail_run :: "audit_env \<Rightarrow> string \<Rightarrow> string \<Rightarrow> na_note \<Rightarrow> string \<Rightarrow> audit_house \<Rightarrow> audit_house" where
  "fail_run ae i stage msg status =
     set_run i (\<lambda>r. r\<lparr>ru_status := status, ru_stage := stage, ru_errors := ru_errors r @ [msg], ru_completed := Some (ae_now ae)\<rparr>)"

definition block_run :: "audit_env \<Rightarrow> string \<Rightarrow> na_note list \<Rightarrow> audit_house \<Rightarrow> audit_house" where
  "block_run ae i errors =
     set_run i (\<lambda>r. r\<lparr>ru_status := ''blocked'', ru_stage := ''validating'', ru_errors := errors, ru_completed := Some (ae_now ae)\<rparr>)"

text \<open>The unique index on tenant, property and date, for runs that have a property.\<close>

definition run_slot :: "na_run \<Rightarrow> string \<times> string option \<times> day" where
  "run_slot r = (ru_tenant r, ru_property r, ru_date r)"

definition insert_run :: "na_run \<Rightarrow> audit_house \<Rightarrow> audit_house option" where
  "insert_run r a =
     (if list_ex (\<lambda>x. ru_property x \<noteq> None \<and> run_slot x = run_slot r) (ah_runs a) then None
      else Some (a\<lparr>ah_runs := ah_runs a @ [r]\<rparr>))"

definition supersede :: "string option \<Rightarrow> na_run \<Rightarrow> na_run" where
  "supersede by_run r = r\<lparr>ru_status := ''rerun_superseded'', ru_property := None, ru_superseded := by_run\<rparr>"

definition find_run :: "string \<Rightarrow> string \<Rightarrow> day \<Rightarrow> audit_house \<Rightarrow> na_run option" where
  "find_run tenant prop bd a = find_one (\<lambda>r. run_slot r = (tenant, Some prop, bd)) (ah_runs a)"

definition handle_duplicate_run :: "audit_env \<Rightarrow> string \<Rightarrow> string \<Rightarrow> day \<Rightarrow> audit_house \<Rightarrow> audit_house \<times> audit_code" where
  "handle_duplicate_run ae tenant prop bd a =
     (case find_run tenant prop bd a of
        None \<Rightarrow> (a, Conflict)
      | Some r \<Rightarrow>
          (let st = ru_status r in
           if st = ''dry_run_completed'' \<or> ru_dry r \<and> st \<in> {''blocked'', ''failed'', ''partial_recovery_required''}
           then (set_run (ru_id r) (supersede None) a, RetryAfterDryRun)
           else if st = ''completed'' then (a, AlreadyCompleted)
           else if st = ''blocked'' then (a, RunBlocked)
           else if st = ''running'' then
             (case ru_heartbeat r of
                None \<Rightarrow> (a, AlreadyRunning)
              | Some hb \<Rightarrow>
                  if stale_threshold_seconds < ae_now ae - hb
                  then (fail_run ae (ru_id r) (ru_stage r) StaleRun ''partial_recovery_required'' a, StaleRecovered)
                  else (a, AlreadyRunning))
           else if st \<in> {''failed'', ''partial_recovery_required''} then (a, NeedsResume)
           else (a, Unexpected)))"

section \<open>Validation\<close>

definition open_folio_for :: "string \<Rightarrow> folio list \<Rightarrow> booking \<Rightarrow> bool" where
  "open_folio_for tenant fs b =
     (case tf_folio (b_tariff b) of
        Some i \<Rightarrow> if i = [] then list_ex (\<lambda>f. fo_tenant f = tenant \<and> fo_status f = ''open'' \<and> fo_booking f = b_id b) fs
                  else list_ex (\<lambda>f. fo_tenant f = tenant \<and> fo_status f = ''open'' \<and> fo_id f = i) fs
      | None \<Rightarrow> list_ex (\<lambda>f. fo_tenant f = tenant \<and> fo_status f = ''open'' \<and> fo_booking f = b_id b) fs)"

definition counted :: "(nat \<Rightarrow> na_note) \<Rightarrow> 'a list \<Rightarrow> na_note list" where
  "counted note xs = (if xs = [] then [] else [note (length xs)])"

definition validate_preconditions :: "audit_env \<Rightarrow> string \<Rightarrow> day \<Rightarrow> audit_house \<Rightarrow> na_note list \<times> na_note list" where
  "validate_preconditions ae tenant bd a =
     (let d = hs_db (ah_house a);
          checked_in = load_bookings_for_date_check tenant [''checked_in''] d;
          (active, future, ended, invalid) = partition_stays bd checked_in;
          active_ids = filter (\<lambda>i. i \<noteq> []) (map b_id active);
          rows = to_list 2000 (find_many (\<lambda>b. b_tenant b = tenant \<and> b_id b \<in> set active_ids) (bookings d));
          (overdue, bad_checkout) = partition_due_bookings b_check_out bd True checked_in;
          (due, bad_arrival) = partition_due_bookings b_check_in bd True
                                 (load_bookings_for_date_check tenant [''confirmed'', ''guaranteed''] d);
          (with_room, without_room) = split_pending_arrivals due;
          cleaning = filter (\<lambda>k. hk_tenant k = tenant \<and> hk_status k = ''in_progress'') (hs_tasks (ah_house a))
      in ((if list_ex (\<lambda>r. ru_tenant r = tenant \<and> ru_status r \<in> {''running'', ''blocked'', ''partial_recovery_required''}
                            \<and> ru_date r \<noteq> bd) (ah_runs a) then [OtherActiveRun] else [])
          @ counted NoRoomAssigned (filter (\<lambda>b. \<not> truthy (b_room b)) active)
          @ counted NoOpenFolio (filter (\<lambda>b. \<not> open_folio_for tenant (lg_folios (hs_ledger (ah_house a))) b) rows)
          @ counted OverdueCheckouts overdue @ counted InvalidCheckouts bad_checkout @ counted InvalidStays invalid
          @ counted PendingArrivals with_room @ counted PendingWithoutRoom without_room @ counted InvalidArrivals bad_arrival
          @ (case mapping_close_blocker bd (load_mapping_issues tenant (ah_mapping a)) of None \<Rightarrow> [] | Some n \<Rightarrow> [MappingPending n]),
          counted FutureStays future
          @ (case ae_pos ae of None \<Rightarrow> [] | Some n \<Rightarrow> if 0 < n then [OpenPos n] else [])
          @ counted CleaningInProgress cleaning))"

section \<open>Candidates\<close>

text \<open>The fields of a booking that the candidate query reads; the rest is absent in its result.\<close>

definition candidate_projection :: "booking \<Rightarrow> booking" where
  "candidate_projection b =
     b\<lparr>b_tariff := (b_tariff b)\<lparr>tf_total_price := None, tf_rate_per_night := None, tf_base_rate := None,
                                tf_daily_rates := None, tf_quote := None\<rparr>\<rparr>"

text \<open>The open folio of a booking without one of its own: the last of the cursor wins.\<close>

definition folio_by_booking :: "string \<Rightarrow> string \<Rightarrow> folio list \<Rightarrow> string option" where
  "folio_by_booking tenant i fs =
     map_option fo_id (find_one (\<lambda>f. fo_booking f = i \<and> fo_tenant f = tenant \<and> fo_status f = ''open'') (rev fs))"

text \<open>The order of strings, and the most recently updated daily rate of the date (ties: largest id).\<close>

fun str_less :: "string \<Rightarrow> string \<Rightarrow> bool" where
  "str_less xs [] = False"
| "str_less [] (y # ys) = True"
| "str_less (x # xs) (y # ys) = ((of_char x :: nat) < of_char y \<or> x = y \<and> str_less xs ys)"

definition rate_before :: "daily_rate \<Rightarrow> daily_rate \<Rightarrow> bool" where
  "rate_before r q \<longleftrightarrow> dr_updated r < dr_updated q \<or> dr_updated r = dr_updated q \<and> str_less (dr_id r) (dr_id q)"

fun latest_rate :: "daily_rate list \<Rightarrow> daily_rate option" where
  "latest_rate [] = None"
| "latest_rate (r # rs) =
     (case latest_rate rs of None \<Rightarrow> Some r | Some q \<Rightarrow> if rate_before r q then Some q else Some r)"

definition daily_rate_of :: "string \<Rightarrow> string \<Rightarrow> day \<Rightarrow> daily_rate list \<Rightarrow> rat option" where
  "daily_rate_of tenant i bd rs =
     map_option dr_rate (latest_rate (find_many (\<lambda>r. dr_booking r = i \<and> dr_tenant r = tenant \<and> fst (iso_key (dr_date r)) = bd) rs))"

definition already_posted :: "string \<Rightarrow> day \<Rightarrow> charge list \<Rightarrow> string \<Rightarrow> bool" where
  "already_posted tenant bd cs i =
     list_ex (\<lambda>c. ch_tenant c = tenant \<and> ch_booking c = i \<and> ch_business c = Some (date_only bd) \<and> ch_type c = ''room_charge'') cs"

definition room_item :: "audit_env \<Rightarrow> string \<Rightarrow> day \<Rightarrow> string \<Rightarrow> rat \<Rightarrow> audit_house \<Rightarrow> nat \<Rightarrow> booking \<Rightarrow> run_item" where
  "room_item ae tenant bd run tax_rate a n b =
     (let p = calculate_room_charge b (Some (date_only bd)) vat_rate tax_rate (daily_rate_of tenant (b_id b) bd (ah_rates a));
          folio = (if truthy (tf_folio (b_tariff b)) then tf_folio (b_tariff b)
                   else folio_by_booking tenant (b_id b) (lg_folios (hs_ledger (ah_house a))));
          (status, reason) =
            (if tf_complimentary (b_tariff b) then (''skipped'', Some ''complimentary_accommodation'')
             else if pc_net p \<le> 0 then (''skipped'', Some ''zero_or_missing_rate'')
             else if \<not> truthy folio then (''skipped'', Some ''no_open_folio'')
             else if already_posted tenant bd (hs_charges (ah_house a)) (b_id b)
             then (''skipped'', Some ''already_posted_for_business_date'')
             else (''pending'', None))
      in \<lparr>ri_id = ae_item_id ae n, ri_run = run, ri_tenant = tenant, ri_booking = b_id b, ri_folio = folio, ri_room = b_room b,
          ri_type = ''room_charge'', ri_date = bd, ri_amount = of_int (pc_net p) / 100, ri_tax = of_int (pc_tax p) / 100,
          ri_total = of_int (pc_total p) / 100, ri_currency = str_or (tf_currency (b_tariff b)) default_currency,
          ri_status = status, ri_reason = reason\<rparr>)"

definition no_show_item :: "audit_env \<Rightarrow> string \<Rightarrow> day \<Rightarrow> string \<Rightarrow> nat \<Rightarrow> booking \<Rightarrow> run_item" where
  "no_show_item ae tenant bd run n b =
     \<lparr>ri_id = ae_item_id ae n, ri_run = run, ri_tenant = tenant, ri_booking = b_id b, ri_folio = tf_folio (b_tariff b),
      ri_room = b_room b, ri_type = ''no_show'', ri_date = bd, ri_amount = tf_no_show_fee (b_tariff b), ri_tax = 0,
      ri_total = tf_no_show_fee (b_tariff b), ri_currency = str_or (tf_currency (b_tariff b)) default_currency,
      ri_status = ''pending'', ri_reason = None\<rparr>"

text \<open>Arrivals are compared with the date as strings.\<close>

definition no_show_candidates :: "string \<Rightarrow> day \<Rightarrow> db \<Rightarrow> booking list" where
  "no_show_candidates tenant bd d =
     find_many (\<lambda>b. b_tenant b = tenant \<and> b_status b \<in> {Some ''confirmed'', Some ''guaranteed''}
                  \<and> (case b_check_in b of None \<Rightarrow> False | Some ci \<Rightarrow> iso_le ci (date_only bd))) (bookings d)"

definition billable_stays :: "string \<Rightarrow> day \<Rightarrow> db \<Rightarrow> booking list" where
  "billable_stays tenant bd d =
     fst (partition_stays bd (map candidate_projection (to_list 5000
       (find_many (\<lambda>b. b_tenant b = tenant \<and> b_status b = Some ''checked_in'') (bookings d)))))"

definition numbered :: "(nat \<Rightarrow> 'a \<Rightarrow> 'b) \<Rightarrow> nat \<Rightarrow> 'a list \<Rightarrow> 'b list" where
  "numbered f n xs = map (\<lambda>(i, x). f i x) (zip [n..<n + length xs] xs)"

definition build_candidate_set :: "audit_env \<Rightarrow> string \<Rightarrow> day \<Rightarrow> string \<Rightarrow> audit_house \<Rightarrow> audit_house \<times> nat" where
  "build_candidate_set ae tenant bd run a =
     (let d = hs_db (ah_house a);
          tax_rate = (if ae_tax_up ae then get_accommodation_tax_rate tenant bd (ah_rules a) else accommodation_tax_rate);
          stays = billable_stays tenant bd d;
          items = numbered (room_item ae tenant bd run tax_rate a) 0 stays
                  @ numbered (no_show_item ae tenant bd run) (length stays) (no_show_candidates tenant bd d)
      in (a\<lparr>ah_items := ah_items a @ items\<rparr>, length items))"

section \<open>Posting one item\<close>

definition with_status :: "string \<Rightarrow> string option \<Rightarrow> run_item \<Rightarrow> run_item" where
  "with_status status reason x = x\<lparr>ri_status := status, ri_reason := reason\<rparr>"

definition fail_item :: "run_item \<Rightarrow> audit_house \<Rightarrow> audit_house" where
  "fail_item x = set_item (ri_id x) (with_status ''failed'' (Some ''error''))"

definition posting_charge ::
  "audit_env \<Rightarrow> string \<Rightarrow> string \<Rightarrow> run_item \<Rightarrow> string \<Rightarrow> string \<Rightarrow> rat \<Rightarrow> rat \<Rightarrow> charge" where
  "posting_charge ae tenant run x kind category tax gross =
     \<lparr>ch_id = ae_charge_id ae x, ch_tenant = tenant, ch_booking = ri_booking x, ch_folio = get_default '''' (ri_folio x),
      ch_type = kind, ch_category = category, ch_key = None, ch_amount = Some (ri_amount x), ch_tax = Some tax,
      ch_total = Some gross, ch_voided = False, ch_date = Iso (ae_now ae div 86400) (ae_now ae mod 86400),
      ch_business = Some (date_only (ri_date x)), ch_by = ''night_audit'', ch_created = ae_now ae, ch_run = Some run\<rparr>"

definition room_charge_of :: "audit_env \<Rightarrow> string \<Rightarrow> string \<Rightarrow> run_item \<Rightarrow> charge" where
  "room_charge_of ae tenant run x = posting_charge ae tenant run x ''room_charge'' ''room'' (ri_tax x) (ri_total x)"

definition no_show_fee_of :: "audit_env \<Rightarrow> string \<Rightarrow> string \<Rightarrow> run_item \<Rightarrow> charge" where
  "no_show_fee_of ae tenant run x = posting_charge ae tenant run x ''no_show_fee'' ''no_show_fee'' 0 (ri_amount x)"

definition is_pending :: "string \<Rightarrow> run_item \<Rightarrow> bool" where
  "is_pending i x \<longleftrightarrow> ri_id x = i \<and> ri_status x = ''pending''"

definition add_to_balance :: "string \<Rightarrow> string \<Rightarrow> rat \<Rightarrow> house \<Rightarrow> house" where
  "add_to_balance tenant folio_id amount h =
     h\<lparr>hs_ledger := (hs_ledger h)\<lparr>lg_folios := update_one (\<lambda>f. fo_id f = folio_id \<and> fo_tenant f = tenant)
        (\<lambda>f. f\<lparr>fo_balance := Some (get_default 0 (fo_balance f) + amount)\<rparr>) (lg_folios (hs_ledger h))\<rparr>\<rparr>"

definition add_charge :: "charge \<Rightarrow> house \<Rightarrow> house" where
  "add_charge c h = h\<lparr>hs_charges := hs_charges h @ [c]\<rparr>"

definition audit_trail :: "string \<Rightarrow> string \<Rightarrow> metadata \<Rightarrow> house \<Rightarrow> house" where
  "audit_trail tenant entity meta h =
     h\<lparr>hs_db := (hs_db h)\<lparr>pms_audit := pms_audit (hs_db h) @
        [\<lparr>a_tenant = tenant, a_user = ''night_audit'', a_action = ''night_audit_room_charge'', a_entity_type = ''folio_charge'',
          a_entity = entity, a_changes = meta\<rparr>]\<rparr>\<rparr>"

text \<open>The writes of a room charge: the charge, the folio balance, the trail.\<close>

definition room_posting :: "audit_env \<Rightarrow> string \<Rightarrow> string \<Rightarrow> run_item \<Rightarrow> house \<Rightarrow> house" where
  "room_posting ae tenant run x h =
     (let c = room_charge_of ae tenant run x;
          h1 = add_charge c h;
          h2 = (if truthy (ri_folio x) then add_to_balance tenant (get_default '''' (ri_folio x)) (ri_total x) h1 else h1)
      in audit_trail tenant (ch_id c)
           [(''run_id'', JStr run), (''booking_id'', JStr (ri_booking x)), (''folio_id'', jopt (ri_folio x)),
            (''business_date'', JDay (ri_date x))] h2)"

text \<open>
  One transaction: claim the item, insert the charge, move the folio balance, write the trail,
  mark the item.  A raise undoes it and marks the item failed; a duplicate key marks it skipped
  and counts as success.
\<close>

definition post_room_charge_item :: "audit_env \<Rightarrow> string \<Rightarrow> string \<Rightarrow> run_item \<Rightarrow> audit_house \<Rightarrow> audit_house \<times> bool" where
  "post_room_charge_item ae tenant run x a =
     (if ae_fails ae x then (fail_item x a, False)
      else if find_one (is_pending (ri_id x)) (ah_items a) = None then (a, False)
      else if charge_clash (room_charge_of ae tenant run x) (hs_charges (ah_house a))
      then (set_item (ri_id x) (with_status ''skipped'' (Some ''duplicate_charge_prevented'')) a, True)
      else (set_item (ri_id x) (\<lambda>y. y\<lparr>ri_status := ''posted''\<rparr>) (on_house (room_posting ae tenant run x) a), True))"

definition mark_no_show :: "audit_env \<Rightarrow> booking \<Rightarrow> booking" where
  "mark_no_show ae b =
     b\<lparr>b_status := Some ''no_show'',
       b_marks := dict_set ''no_show_processed_by'' (JStr ''night_audit'') (dict_set ''no_show_date'' (JTime (ae_now ae)) (b_marks b))\<rparr>"

definition charges_fee :: "run_item \<Rightarrow> bool" where
  "charges_fee x \<longleftrightarrow> 0 < ri_amount x \<and> truthy (ri_folio x)"

text \<open>The writes of a no-show: booking, room, fee.\<close>

definition no_show_posting :: "audit_env \<Rightarrow> string \<Rightarrow> string \<Rightarrow> run_item \<Rightarrow> house \<Rightarrow> house" where
  "no_show_posting ae tenant run x h =
     (let h1 = on_bookings (update_one (\<lambda>b. booking_key b = (tenant, ri_booking x)) (mark_no_show ae)) h;
          h2 = (if truthy (ri_room x)
                then on_rooms (update_one (is_room tenant (get_default '''' (ri_room x)))
                       (\<lambda>r. r\<lparr>r_status := ''available'', r_current := None\<rparr>)) h1
                else h1)
      in if charges_fee x then add_charge (no_show_fee_of ae tenant run x) h2 else h2)"

text \<open>The no-show transaction.  Here a duplicate key is a failure.\<close>

definition post_no_show_item :: "audit_env \<Rightarrow> string \<Rightarrow> string \<Rightarrow> run_item \<Rightarrow> audit_house \<Rightarrow> audit_house \<times> bool" where
  "post_no_show_item ae tenant run x a =
     (if ae_fails ae x then (fail_item x a, False)
      else if find_one (is_pending (ri_id x)) (ah_items a) = None then (a, False)
      else if charges_fee x \<and> charge_clash (no_show_fee_of ae tenant run x) (hs_charges (ah_house a))
      then (fail_item x a, False)
      else (set_item (ri_id x) (\<lambda>y. y\<lparr>ri_status := ''posted''\<rparr>) (on_house (no_show_posting ae tenant run x) a), True))"

definition post_item :: "audit_env \<Rightarrow> string \<Rightarrow> string \<Rightarrow> run_item \<Rightarrow> audit_house \<Rightarrow> audit_house \<times> bool" where
  "post_item ae tenant run x a =
     (if ri_type x = ''room_charge'' then post_room_charge_item ae tenant run x a
      else if ri_type x = ''no_show'' then post_no_show_item ae tenant run x a
      else (a, False))"

fun post_items :: "audit_env \<Rightarrow> string \<Rightarrow> string \<Rightarrow> run_item list \<Rightarrow> audit_house \<Rightarrow> audit_house \<times> nat \<times> nat" where
  "post_items ae tenant run [] a = (a, 0, 0)"
| "post_items ae tenant run (x # xs) a =
     (let (a1, ok) = post_item ae tenant run x a; (a2, posted, failed) = post_items ae tenant run xs a1
      in (a2, (if ok then Suc posted else posted), (if ok then failed else Suc failed)))"

definition item_count :: "string \<Rightarrow> string \<Rightarrow> audit_house \<Rightarrow> nat" where
  "item_count run status a = count_documents (\<lambda>x. ri_run x = run \<and> ri_status x = status) (ah_items a)"

definition post_charges :: "audit_env \<Rightarrow> string \<Rightarrow> string \<Rightarrow> audit_house \<Rightarrow> audit_house \<times> nat \<times> nat \<times> nat" where
  "post_charges ae tenant run a =
     (let items = to_list 20000 (find_many (\<lambda>x. ri_run x = run \<and> ri_status x = ''pending'') (ah_items a));
          (a1, posted, failed) = post_items ae tenant run (ae_order ae items) a
      in (a1, posted, failed, item_count run ''skipped'' a1))"

section \<open>Closing the date\<close>

text \<open>\<open>_reconcile\<close>: \<open>None\<close> when it passes, else the status the run gets and the reason.\<close>

definition reconcile_run :: "string \<Rightarrow> audit_house \<Rightarrow> (string \<times> na_note) option" where
  "reconcile_run run a =
     (let failed = item_count run ''failed'' a;
          open_items = item_count run ''pending'' a + item_count run ''processing'' a
      in if 0 < failed then Some (''partial_recovery_required'', ItemsFailed failed)
         else if 0 < open_items then Some (''failed'', ItemsRemain open_items)
         else None)"

definition roll_settings :: "audit_env \<Rightarrow> day \<Rightarrow> string \<Rightarrow> string \<Rightarrow> string \<Rightarrow> tenant_settings \<Rightarrow> tenant_settings" where
  "roll_settings ae bd run actor trigger s =
     s\<lparr>st_date := Some (date_only (bd + 1)), st_previous := Some (date_only bd), st_updated := Some (ae_now ae),
       st_source := Some ''night_audit'', st_by := Some actor, st_run := Some run, st_trigger := Some trigger\<rparr>"

definition upsert_settings :: "string \<Rightarrow> (tenant_settings \<Rightarrow> tenant_settings) \<Rightarrow> tenant_settings list \<Rightarrow> tenant_settings list" where
  "upsert_settings tenant f ss =
     (if settings_of tenant ss = None then ss @ [f (blank_settings tenant)] else update_one (\<lambda>s. st_tenant s = tenant) f ss)"

definition on_settings :: "(tenant_settings list \<Rightarrow> tenant_settings list) \<Rightarrow> audit_house \<Rightarrow> audit_house" where
  "on_settings f = on_house (\<lambda>h. h\<lparr>hs_ledger := (hs_ledger h)\<lparr>lg_settings := f (lg_settings (hs_ledger h))\<rparr>\<rparr>)"

definition mapping_blocked :: "string \<Rightarrow> day \<Rightarrow> audit_house \<Rightarrow> nat option" where
  "mapping_blocked tenant bd a = mapping_close_blocker bd (load_mapping_issues tenant (ah_mapping a))"

definition roll_business_date :: "audit_env \<Rightarrow> string \<Rightarrow> day \<Rightarrow> string \<Rightarrow> audit_house \<Rightarrow> audit_house option" where
  "roll_business_date ae tenant bd run a =
     (case mapping_blocked tenant bd a of
        Some _ \<Rightarrow> None
      | None \<Rightarrow>
          (let r = find_one (\<lambda>r. ru_tenant r = tenant \<and> ru_id r = run) (ah_runs a);
               actor = str_or (map_option ru_actor r) ''system'';
               trigger = str_or (map_option ru_trigger r) ''manual''
           in Some (on_settings (upsert_settings tenant (roll_settings ae bd run actor trigger)) a)))"

definition complete_run :: "audit_env \<Rightarrow> string \<Rightarrow> audit_house \<Rightarrow> audit_house" where
  "complete_run ae run =
     set_run run (\<lambda>r. r\<lparr>ru_status := ''completed'', ru_stage := ''completed'', ru_completed := Some (ae_now ae)\<rparr>)"

text \<open>The stages after posting: reconcile, then roll the date and complete the run.\<close>

definition reconcile_and_roll :: "audit_env \<Rightarrow> string \<Rightarrow> string \<Rightarrow> day \<Rightarrow> audit_house \<Rightarrow> audit_house \<times> audit_code option" where
  "reconcile_and_roll ae run tenant bd a =
     (let a4 = set_stage ae run ''reconciling'' a in
      if ae_down ae ''reconciling''
      then (fail_run ae run ''reconciling'' (StageFailed ''reconciliation'') ''failed'' a4, Some ReconciliationError)
      else (case reconcile_run run a4 of
        Some (status, reason) \<Rightarrow> (fail_run ae run ''reconciling'' reason status a4, Some ReconciliationFailed)
      | None \<Rightarrow>
          (let a5 = set_stage ae run ''rolling_date'' a4;
               a6 = a5\<lparr>ah_mapping := ae_inbox ae (ah_mapping a5)\<rparr>
           in case (if ae_down ae ''rolling_date'' then None else roll_business_date ae tenant bd run a6) of
                None \<Rightarrow> (fail_run ae run ''rolling_date'' (StageFailed ''date roll'') ''failed'' a6, Some DateRollError)
              | Some a7 \<Rightarrow> (complete_run ae run a7, None))))"

definition posting_and_close :: "audit_env \<Rightarrow> string \<Rightarrow> string \<Rightarrow> day \<Rightarrow> audit_house \<Rightarrow> audit_house \<times> audit_code option" where
  "posting_and_close ae run tenant bd a =
     (if ae_down ae ''mapping''
      then (fail_run ae run ''validating'' (StageFailed ''mapping validation'') ''failed'' a, Some ValidationError)
      else case mapping_blocked tenant bd a of
        Some n \<Rightarrow> (block_run ae run [MappingPending n] a, Some ValidationBlocked)
      | None \<Rightarrow>
          (let a1 = set_stage ae run ''posting_charges'' a in
           if ae_down ae ''posting_charges''
           then (fail_run ae run ''posting_charges'' (StageFailed ''posting'') ''failed'' a1, Some PostingError)
           else
             (let (a2, posted, failed, skipped) = post_charges ae tenant run a1
              in reconcile_and_roll ae run tenant bd
                   (set_run run (\<lambda>r. r\<lparr>ru_processed := posted, ru_failed := failed, ru_skipped := skipped\<rparr>) a2))))"

section \<open>Starting a run\<close>

text \<open>The result: \<open>Inl\<close> a refusal or failure, \<open>Inr True\<close> a closed date, \<open>Inr False\<close> a finished simulation.\<close>

definition finish_dry_run :: "audit_env \<Rightarrow> string \<Rightarrow> audit_house \<Rightarrow> audit_house" where
  "finish_dry_run ae run a =
     (let skipped = length (filter (\<lambda>x. ri_status x = ''skipped'') (to_list 20000 (find_many (\<lambda>x. ri_run x = run) (ah_items a))))
      in set_run run (\<lambda>r. r\<lparr>ru_status := ''dry_run_completed'', ru_stage := ''completed'', ru_processed := 0, ru_failed := 0,
                            ru_skipped := skipped, ru_completed := Some (ae_now ae)\<rparr>) a)"

text \<open>The validation stage of the pipeline; a code ends the run.\<close>

definition validation_stage ::
  "audit_env \<Rightarrow> string \<Rightarrow> string \<Rightarrow> day \<Rightarrow> bool \<Rightarrow> bool \<Rightarrow> audit_house \<Rightarrow> audit_house \<times> audit_code option" where
  "validation_stage ae run tenant bd skip dry a =
     (if ae_down ae ''validating'' then (fail_run ae run ''validating'' (StageFailed ''validation'') ''failed'' a, Some ValidationError)
      else if skip then
        (case mapping_blocked tenant bd a of
           Some n \<Rightarrow> if dry then (set_run run (\<lambda>r. r\<lparr>ru_warnings := [ValidationsSkipped]\<rparr>) a, None)
                     else (block_run ae run [MappingPending n] a, Some ValidationBlocked)
         | None \<Rightarrow> (set_run run (\<lambda>r. r\<lparr>ru_warnings := [ValidationsSkipped]\<rparr>) a, None))
      else
        (let (blocking, warnings) = validate_preconditions ae tenant bd a;
             a1 = (if blocking = [] then a
                   else set_run run (\<lambda>r. r\<lparr>ru_status := (if dry then ''running'' else ''blocked''), ru_stage := ''validating'',
                          ru_errors := blocking, ru_warnings := warnings,
                          ru_completed := (if dry then None else Some (ae_now ae))\<rparr>) a)
         in if blocking \<noteq> [] \<and> \<not> dry then (a1, Some ValidationBlocked)
            else ((if warnings = [] then a1 else set_run run (\<lambda>r. r\<lparr>ru_warnings := warnings\<rparr>) a1), None)))"

definition execute_pipeline ::
  "audit_env \<Rightarrow> string \<Rightarrow> string \<Rightarrow> day \<Rightarrow> bool \<Rightarrow> bool \<Rightarrow> audit_house \<Rightarrow> audit_house \<times> (audit_code + bool)" where
  "execute_pipeline ae run tenant bd skip dry a =
     (case validation_stage ae run tenant bd skip dry a of
        (a1, Some code) \<Rightarrow> (a1, Inl code)
      | (a1, None) \<Rightarrow>
          (let a2 = set_stage ae run ''candidate_build'' a1 in
           if ae_down ae ''candidate_build''
           then (fail_run ae run ''candidate_build'' (StageFailed ''candidate build'') ''failed'' a2, Inl CandidateError)
           else
             (let (a3, n) = build_candidate_set ae tenant bd run a2;
                  a4 = set_run run (\<lambda>r. r\<lparr>ru_candidates := n\<rparr>) a3
              in if dry then (finish_dry_run ae run a4, Inr False)
                 else (case posting_and_close ae run tenant bd a4 of
                         (a5, Some code) \<Rightarrow> (a5, Inl code) | (a5, None) \<Rightarrow> (a5, Inr True)))))"

definition new_run :: "audit_env \<Rightarrow> string \<Rightarrow> string \<Rightarrow> day \<Rightarrow> string \<Rightarrow> string \<Rightarrow> bool \<Rightarrow> na_run" where
  "new_run ae tenant prop bd trigger actor dry =
     \<lparr>ru_id = ae_run_id ae, ru_tenant = tenant, ru_property = Some prop, ru_date = bd, ru_status = ''running'',
      ru_stage = ''validating'', ru_trigger = trigger, ru_actor = actor, ru_dry = dry, ru_candidates = 0, ru_processed = 0,
      ru_failed = 0, ru_skipped = 0, ru_warnings = [], ru_errors = [], ru_started = ae_now ae, ru_completed = None,
      ru_heartbeat = Some (ae_now ae), ru_superseded = None\<rparr>"

definition refuse :: "audit_env \<Rightarrow> na_run \<Rightarrow> string \<Rightarrow> audit_house \<Rightarrow> audit_house \<times> audit_code option" where
  "refuse ae r prop a = apsnd Some (handle_duplicate_run ae (ru_tenant r) prop (ru_date r) a)"

definition insert_or_refuse :: "audit_env \<Rightarrow> na_run \<Rightarrow> string \<Rightarrow> audit_house \<Rightarrow> audit_house \<times> audit_code option" where
  "insert_or_refuse ae r prop a = (case insert_run r a of Some a1 \<Rightarrow> (a1, None) | None \<Rightarrow> refuse ae r prop a)"

definition rerun_statuses :: "string list" where
  "rerun_statuses = [''completed'', ''failed'', ''partial_recovery_required'', ''blocked'', ''rerun_superseded'', ''dry_run_completed'']"

definition create_run :: "audit_env \<Rightarrow> na_run \<Rightarrow> string \<Rightarrow> bool \<Rightarrow> audit_house \<Rightarrow> audit_house \<times> audit_code option" where
  "create_run ae r prop force a =
     (case insert_run r a of
        Some a1 \<Rightarrow> (a1, None)
      | None \<Rightarrow>
          if force then
            (case find_run (ru_tenant r) prop (ru_date r) a of
               Some old \<Rightarrow>
                 if ru_status old \<in> set rerun_statuses
                 then insert_or_refuse ae r prop (set_run (ru_id old) (supersede (Some (ru_id r))) a)
                 else refuse ae r prop a
             | None \<Rightarrow> refuse ae r prop a)
          else
            (case refuse ae r prop a of
               (a1, Some RetryAfterDryRun) \<Rightarrow> insert_or_refuse ae r prop a1
             | (a1, code) \<Rightarrow> (a1, code)))"

definition closed_runs :: "na_run list \<Rightarrow> audit_run list" where
  "closed_runs rs = map (\<lambda>r. \<lparr>nr_tenant = ru_tenant r, nr_status = ru_status r, nr_date = Some (date_only (ru_date r)),
      nr_completed = get_default 0 (ru_completed r)\<rparr>) rs"

definition open_business_date :: "audit_env \<Rightarrow> string \<Rightarrow> audit_house \<Rightarrow> audit_house \<times> day option" where
  "open_business_date ae tenant a =
     (let (ss, state) = ensure_business_date_initialized (ae_zones ae) (ae_now ae) tenant None ''system_business_date_bootstrap''
                          (closed_runs (ah_runs a)) (hs_db (ah_house a)) (lg_settings (hs_ledger (ah_house a)))
      in (on_settings (\<lambda>_. ss) a, Option.bind state (\<lambda>s. date_only_of (st_date s))))"

definition local_today :: "audit_env \<Rightarrow> string \<Rightarrow> audit_house \<Rightarrow> day option" where
  "local_today ae tenant a =
     local_calendar_date (ae_zones ae) (str_or (get_default None (map_of (ah_schedules a) tenant)) istanbul) (ae_now ae)"

definition start_night_audit ::
  "audit_env \<Rightarrow> string \<Rightarrow> string option \<Rightarrow> day option \<Rightarrow> string \<Rightarrow> string \<Rightarrow> bool \<Rightarrow> bool \<Rightarrow> bool \<Rightarrow> audit_house \<Rightarrow>
   audit_house \<times> (audit_code + bool)" where
  "start_night_audit ae tenant property_id business_date trigger actor skip dry force a =
     (let prop = str_or property_id default_property;
          (a0, date) = (case business_date of Some d \<Rightarrow> (a, Some d) | None \<Rightarrow> open_business_date ae tenant a)
      in case date of
           None \<Rightarrow> (a0, Inl BusinessDateUnknown)
         | Some bd \<Rightarrow>
             (case (if dry then Some False else map_option (\<lambda>today. today \<le> bd) (local_today ae tenant a0)) of
                None \<Rightarrow> (a0, Inl BusinessDateUnknown)
              | Some too_early \<Rightarrow>
                  if too_early then (a0, Inl BusinessDateNotReady)
                  else
                    (let r = new_run ae tenant prop bd trigger actor dry in
                     case create_run ae r prop force a0 of
                       (a1, Some code) \<Rightarrow> (a1, Inl code)
                     | (a1, None) \<Rightarrow> execute_pipeline ae (ru_id r) tenant bd skip dry a1)))"

section \<open>Resuming and aborting\<close>

definition restart_run :: "audit_env \<Rightarrow> na_run \<Rightarrow> na_run" where
  "restart_run ae x = x\<lparr>ru_status := ''running'', ru_errors := [], ru_completed := None, ru_heartbeat := Some (ae_now ae)\<rparr>"

definition reset_failed :: "string \<Rightarrow> audit_house \<Rightarrow> audit_house" where
  "reset_failed run a =
     a\<lparr>ah_items := update_many (\<lambda>x. ri_run x = run \<and> ri_status x = ''failed'') (with_status ''pending'' None) (ah_items a)\<rparr>"

text \<open>A blocked run is validated again.\<close>

definition reopen_run :: "audit_env \<Rightarrow> string \<Rightarrow> na_run \<Rightarrow> audit_house \<Rightarrow> audit_house" where
  "reopen_run ae run r a =
     (if ru_status r = ''blocked'' then set_run run (\<lambda>x. (restart_run ae x)\<lparr>ru_stage := ''validating''\<rparr>) a else a)"

definition resume_blockers :: "audit_env \<Rightarrow> string \<Rightarrow> na_run \<Rightarrow> audit_house \<Rightarrow> na_note list" where
  "resume_blockers ae tenant r a = (if ru_status r = ''blocked'' then fst (validate_preconditions ae tenant (ru_date r) a) else [])"

definition resume_night_audit :: "audit_env \<Rightarrow> string \<Rightarrow> string \<Rightarrow> audit_house \<Rightarrow> audit_house \<times> (audit_code + bool)" where
  "resume_night_audit ae tenant run a =
     (case find_one (\<lambda>r. ru_id r = run \<and> ru_tenant r = tenant) (ah_runs a) of
        None \<Rightarrow> (a, Inl RunNotFound)
      | Some r \<Rightarrow>
          if ru_status r \<notin> {''failed'', ''partial_recovery_required'', ''blocked''} then (a, Inl InvalidRunState)
          else if ru_dry r then (a, Inl DryRunNotResumable)
          else
            (let a1 = reopen_run ae run r (reset_failed run a); blocking = resume_blockers ae tenant r a1
             in if ru_status r = ''blocked'' \<and> ae_down ae ''validating'' then (a1, Inl Raised)
                else if blocking \<noteq> []
                then (set_run run (\<lambda>x. x\<lparr>ru_status := ''blocked'', ru_errors := blocking, ru_completed := Some (ae_now ae)\<rparr>) a1, Inl StillBlocked)
                else (case posting_and_close ae run tenant (ru_date r) (set_run run (restart_run ae) a1) of
                        (a2, Some code) \<Rightarrow> (a2, Inl code) | (a2, None) \<Rightarrow> (a2, Inr True))))"

definition abort_night_audit :: "audit_env \<Rightarrow> string \<Rightarrow> string \<Rightarrow> string \<Rightarrow> audit_house \<Rightarrow> audit_house \<times> audit_code option" where
  "abort_night_audit ae tenant run actor a =
     (case find_one (\<lambda>r. ru_id r = run \<and> ru_tenant r = tenant) (ah_runs a) of
        None \<Rightarrow> (a, Some RunNotFound)
      | Some r \<Rightarrow>
          if ru_status r = ''completed'' then (a, Some AlreadyCompleted)
          else
            (let a1 = set_run run (\<lambda>x. x\<lparr>ru_status := ''failed'', ru_completed := Some (ae_now ae),
                        ru_errors := ru_errors r @ [AbortedBy actor]\<rparr>) a
             in (a1\<lparr>ah_items := update_many (\<lambda>x. ri_run x = run \<and> ri_status x \<in> {''pending'', ''processing''})
                                 (with_status ''skipped'' (Some ''run_aborted'')) (ah_items a1)\<rparr>, None)))"

definition detect_stale_runs :: "audit_env \<Rightarrow> audit_house \<Rightarrow> na_run list" where
  "detect_stale_runs ae a =
     to_list 100 (find_many (\<lambda>r. ru_status r = ''running'' \<and>
       (case ru_heartbeat r of None \<Rightarrow> False | Some hb \<Rightarrow> hb < ae_now ae - stale_threshold_seconds)) (ah_runs a))"

end
