(* ===== verification/AuditInvariant.thy ===== *)
theory AuditInvariant
  imports NightAudit
begin

text \<open>
  What holds after every step of every night audit: one active room charge per booking and date,
  one run per property and date, and only the statuses the code names.  The steps (start,
  resume, abort, and the rest of the hotel in between) are a step relation, and its runs an
  interpretation of \<open>invariant_system\<close>.
\<close>

section \<open>Frames\<close>

lemma set_run_frame [simp]:
  "ah_house (set_run i f a) = ah_house a" "ah_items (set_run i f a) = ah_items a" "ah_mapping (set_run i f a) = ah_mapping a"
  "ah_rates (set_run i f a) = ah_rates a" "ah_rules (set_run i f a) = ah_rules a" "ah_schedules (set_run i f a) = ah_schedules a"
  by (simp_all add: set_run_def)

lemma set_item_frame [simp]:
  "ah_house (set_item i f a) = ah_house a" "ah_runs (set_item i f a) = ah_runs a" "ah_mapping (set_item i f a) = ah_mapping a"
  by (simp_all add: set_item_def)

lemmas run_updates = set_stage_def fail_run_def block_run_def complete_run_def finish_dry_run_def

lemma run_updates_frame [simp]:
  "ah_house (set_stage ae i st a) = ah_house a" "ah_items (set_stage ae i st a) = ah_items a" "ah_mapping (set_stage ae i st a) = ah_mapping a"
  "ah_house (fail_run ae i st m s a) = ah_house a" "ah_items (fail_run ae i st m s a) = ah_items a" "ah_mapping (fail_run ae i st m s a) = ah_mapping a"
  "ah_house (block_run ae i es a) = ah_house a" "ah_items (block_run ae i es a) = ah_items a" "ah_mapping (block_run ae i es a) = ah_mapping a"
  "ah_house (complete_run ae i a) = ah_house a" "ah_items (complete_run ae i a) = ah_items a" "ah_mapping (complete_run ae i a) = ah_mapping a"
  "ah_house (finish_dry_run ae i a) = ah_house a" "ah_items (finish_dry_run ae i a) = ah_items a" "ah_mapping (finish_dry_run ae i a) = ah_mapping a"
  by (simp_all add: run_updates Let_def)

lemma mapping_blocked_cong: "ah_mapping a = ah_mapping a' \<Longrightarrow> mapping_blocked t bd a = mapping_blocked t bd a'"
  by (simp add: mapping_blocked_def)

lemma house_changes [simp]:
  "hs_charges (add_to_balance t i x h) = hs_charges h" "hs_db (add_to_balance t i x h) = hs_db h"
  "hs_charges (audit_trail t i m h) = hs_charges h" "hs_ledger (audit_trail t i m h) = hs_ledger h"
  "bookings (hs_db (audit_trail t i m h)) = bookings (hs_db h)" "rooms (hs_db (audit_trail t i m h)) = rooms (hs_db h)"
  "locks (hs_db (audit_trail t i m h)) = locks (hs_db h)"
  "hs_charges (add_charge c h) = hs_charges h @ [c]" "hs_db (add_charge c h) = hs_db h" "hs_ledger (add_charge c h) = hs_ledger h"
  "hs_charges (on_bookings g h) = hs_charges h" "hs_charges (on_rooms k h) = hs_charges h"
  "lg_settings (hs_ledger (add_to_balance t i x h)) = lg_settings (hs_ledger h)"
  by (simp_all add: add_to_balance_def audit_trail_def add_charge_def on_bookings_def on_rooms_def)

lemma posting_charge_simps [simp]:
  "ch_tenant (room_charge_of ae t run x) = t" "ch_booking (room_charge_of ae t run x) = ri_booking x"
  "ch_business (room_charge_of ae t run x) = Some (date_only (ri_date x))" "ch_type (room_charge_of ae t run x) = ''room_charge''"
  "\<not> ch_voided (room_charge_of ae t run x)" "ch_run (room_charge_of ae t run x) = Some run"
  "ch_total (room_charge_of ae t run x) = Some (ri_total x)"
  "ch_tenant (no_show_fee_of ae t run x) = t" "ch_booking (no_show_fee_of ae t run x) = ri_booking x"
  "ch_business (no_show_fee_of ae t run x) = Some (date_only (ri_date x))" "ch_type (no_show_fee_of ae t run x) = ''no_show_fee''"
  "\<not> ch_voided (no_show_fee_of ae t run x)" "ch_run (no_show_fee_of ae t run x) = Some run"
  by (simp_all add: room_charge_of_def no_show_fee_of_def posting_charge_def)

section \<open>One item\<close>

definition settled :: "string \<Rightarrow> bool" where
  "settled s \<longleftrightarrow> s = ''posted'' \<or> s = ''skipped''"

text \<open>
  What a transaction does: nothing when the item is no longer pending, else it settles or fails
  its own item, and it adds at most the one charge that does not clash; a failure leaves the
  house untouched.
\<close>

lemma post_item_cases:
  assumes "post_item ae t run x a = (a', ok)"
  obtains (idle) "a' = a" "\<not> ok"
      "ri_type x \<in> {''room_charge'', ''no_show''} \<longrightarrow> find_one (is_pending (ri_id x)) (ah_items a) = None"
  | (failed) "a' = fail_item x a" "\<not> ok"
  | (duplicate) "a' = set_item (ri_id x) (with_status ''skipped'' (Some ''duplicate_charge_prevented'')) a" "ok"
      "ri_type x = ''room_charge''" "charge_clash (room_charge_of ae t run x) (hs_charges (ah_house a))"
      "find_one (is_pending (ri_id x)) (ah_items a) \<noteq> None"
  | (room) "a' = set_item (ri_id x) (\<lambda>y. y\<lparr>ri_status := ''posted''\<rparr>) (on_house (room_posting ae t run x) a)" "ok"
      "ri_type x = ''room_charge''" "\<not> charge_clash (room_charge_of ae t run x) (hs_charges (ah_house a))"
  | (no_show) "a' = set_item (ri_id x) (\<lambda>y. y\<lparr>ri_status := ''posted''\<rparr>) (on_house (no_show_posting ae t run x) a)" "ok"
      "ri_type x = ''no_show''" "charges_fee x \<longrightarrow> \<not> charge_clash (no_show_fee_of ae t run x) (hs_charges (ah_house a))"
proof -
  consider "ri_type x = ''room_charge''" | "ri_type x = ''no_show''" | "ri_type x \<notin> {''room_charge'', ''no_show''}" by auto
  then show thesis
  proof cases
    case 1
    then have "post_room_charge_item ae t run x a = (a', ok)" using assms by (simp add: post_item_def)
    then show thesis
      using 1 idle failed duplicate room by (simp add: post_room_charge_item_def split: if_splits)
  next
    case 2
    then have "post_no_show_item ae t run x a = (a', ok)" using assms by (simp add: post_item_def)
    then show thesis
      using 2 idle failed no_show by (simp add: post_no_show_item_def split: if_splits)
  next
    case 3
    then show thesis using assms idle by (simp add: post_item_def)
  qed
qed

lemma room_posting_frame [simp]:
  "hs_charges (room_posting ae t run x h) = hs_charges h @ [room_charge_of ae t run x]"
  "bookings (hs_db (room_posting ae t run x h)) = bookings (hs_db h)" "rooms (hs_db (room_posting ae t run x h)) = rooms (hs_db h)"
  "locks (hs_db (room_posting ae t run x h)) = locks (hs_db h)"
  "lg_settings (hs_ledger (room_posting ae t run x h)) = lg_settings (hs_ledger h)"
  by (simp_all add: room_posting_def Let_def)

lemma no_show_posting_frame [simp]:
  "hs_charges (no_show_posting ae t run x h) = hs_charges h @ (if charges_fee x then [no_show_fee_of ae t run x] else [])"
  "bookings (hs_db (no_show_posting ae t run x h)) = update_one (\<lambda>b. booking_key b = (t, ri_booking x)) (mark_no_show ae) (bookings (hs_db h))"
  "locks (hs_db (no_show_posting ae t run x h)) = locks (hs_db h)"
  "lg_settings (hs_ledger (no_show_posting ae t run x h)) = lg_settings (hs_ledger h)"
  by (simp_all add: no_show_posting_def Let_def)

lemma on_house_frame [simp]:
  "ah_house (on_house f a) = f (ah_house a)" "ah_runs (on_house f a) = ah_runs a" "ah_items (on_house f a) = ah_items a"
  "ah_mapping (on_house f a) = ah_mapping a"
  by (simp_all add: on_house_def)

section \<open>The invariant of the audit\<close>

text \<open>
  One active room charge and one active no-show fee per booking and date, one run per property
  and date outside the superseded ones, and only the statuses the code names.
\<close>

definition charges_ok :: "charge list \<Rightarrow> bool" where
  "charges_ok cs \<longleftrightarrow> distinct (map charge_key (filter indexed_charge cs))"

definition run_statuses :: "string list" where
  "run_statuses = [''running'', ''blocked'', ''failed'', ''completed'', ''partial_recovery_required'', ''dry_run_completed'', ''rerun_superseded'']"

definition run_stages :: "string list" where
  "run_stages = [''validating'', ''candidate_build'', ''posting_charges'', ''reconciling'', ''rolling_date'', ''completed'']"

definition item_statuses :: "string list" where
  "item_statuses = [''pending'', ''posted'', ''skipped'', ''failed'']"

definition legal_run :: "na_run \<Rightarrow> bool" where
  "legal_run r \<longleftrightarrow> ru_status r \<in> set run_statuses \<and> ru_stage r \<in> set run_stages"

definition legal_item :: "run_item \<Rightarrow> bool" where
  "legal_item x \<longleftrightarrow> ri_status x \<in> set item_statuses \<and> ri_type x \<in> {''room_charge'', ''no_show''}"

definition runs_ok :: "na_run list \<Rightarrow> bool" where
  "runs_ok rs \<longleftrightarrow> distinct (map run_slot (filter (\<lambda>r. ru_property r \<noteq> None) rs)) \<and> (\<forall>r \<in> set rs. legal_run r)"

definition audit_ok :: "audit_house \<Rightarrow> bool" where
  "audit_ok a \<longleftrightarrow> charges_ok (hs_charges (ah_house a)) \<and> runs_ok (ah_runs a) \<and> (\<forall>x \<in> set (ah_items a). legal_item x)"

lemma charges_ok_snoc: "charges_ok cs \<Longrightarrow> \<not> charge_clash c cs \<Longrightarrow> charges_ok (cs @ [c])"
  by (auto simp: charges_ok_def charge_clash_def list_ex_iff)

lemma runs_ok_update:
  assumes "runs_ok rs" "\<And>r. r \<in> set rs \<Longrightarrow> p r \<Longrightarrow> legal_run (f r) \<and> (run_slot (f r) = run_slot r \<or> ru_property (f r) = None)"
  shows "runs_ok (update_one p f rs)"
  using assms
proof (induction rs)
  case (Cons r rs)
  have rest: "runs_ok rs" using Cons.prems(1) by (simp add: runs_ok_def split: if_splits)
  have new: "run_slot r \<notin> run_slot ` {x \<in> set rs. ru_property x \<noteq> None}" if "ru_property r \<noteq> None"
    using Cons.prems(1) that by (auto simp: runs_ok_def)
  show ?case
  proof (cases "p r")
    case True
    then have "legal_run (f r)" "run_slot (f r) = run_slot r \<or> ru_property (f r) = None" using Cons.prems(2)[of r] by auto
    moreover have "run_slot (f r) \<notin> run_slot ` {x \<in> set rs. ru_property x \<noteq> None}" if "ru_property (f r) \<noteq> None"
    proof -
      have "run_slot (f r) = run_slot r" using that calculation by auto
      then show ?thesis using new that by (simp add: run_slot_def)
    qed
    ultimately show ?thesis using True rest by (auto simp: runs_ok_def)
  next
    case False
    have IH: "runs_ok (update_one p f rs)" by (rule Cons.IH[OF rest]) (use Cons.prems(2) in auto)
    have "run_slot y \<in> run_slot ` {x \<in> set rs. ru_property x \<noteq> None}"
      if "y \<in> set (update_one p f rs)" "ru_property y \<noteq> None" for y
    proof (rule disjE[OF set_update_one_cases[OF that(1)]])
      assume "y \<in> set rs" then show ?thesis using that(2) by auto
    next
      assume "\<exists>e\<in>set rs. p e \<and> y = f e"
      then obtain e where e: "e \<in> set rs" "p e" "y = f e" by auto
      with Cons.prems(2)[of e] that(2) have "run_slot y = run_slot e" by auto
      moreover from this that(2) have "ru_property e \<noteq> None" by (simp add: run_slot_def)
      ultimately show ?thesis using e(1) by auto
    qed
    then show ?thesis using False IH new Cons.prems(1) by (auto simp: runs_ok_def)
  qed
qed simp


lemma set_run_ok:
  assumes "audit_ok a" "\<And>r. r \<in> set (ah_runs a) \<Longrightarrow> legal_run r \<Longrightarrow> legal_run (f r) \<and> (run_slot (f r) = run_slot r \<or> ru_property (f r) = None)"
  shows "audit_ok (set_run i f a)"
proof -
  have "runs_ok (update_one (\<lambda>r. ru_id r = i) f (ah_runs a))"
    using assms by (intro runs_ok_update) (auto simp: audit_ok_def runs_ok_def)
  then show ?thesis using assms(1) by (simp add: audit_ok_def set_run_def)
qed

lemma legal_stages:
  "''validating'' \<in> set run_stages" "''candidate_build'' \<in> set run_stages" "''posting_charges'' \<in> set run_stages"
  "''reconciling'' \<in> set run_stages" "''rolling_date'' \<in> set run_stages" "''completed'' \<in> set run_stages"
  "''running'' \<in> set run_statuses" "''blocked'' \<in> set run_statuses" "''failed'' \<in> set run_statuses" "''completed'' \<in> set run_statuses"
  "''partial_recovery_required'' \<in> set run_statuses" "''dry_run_completed'' \<in> set run_statuses" "''rerun_superseded'' \<in> set run_statuses"
  by (simp_all add: run_stages_def run_statuses_def)

lemma stage_updates_ok:
  assumes "audit_ok a"
  shows "st \<in> set run_stages \<Longrightarrow> audit_ok (set_stage ae i st a)"
    and "st \<in> set run_stages \<Longrightarrow> s \<in> set run_statuses \<Longrightarrow> audit_ok (fail_run ae i st m s a)"
    and "audit_ok (block_run ae i es a)" and "audit_ok (complete_run ae i a)" and "audit_ok (finish_dry_run ae i a)"
  unfolding run_updates Let_def
  by (rule set_run_ok[OF assms]; auto simp: legal_run_def run_slot_def legal_stages)+

lemma set_item_ok:
  assumes "audit_ok a" "\<And>x. legal_item x \<Longrightarrow> legal_item (f x)"
  shows "audit_ok (set_item i f a)"
  using assms by (auto simp: audit_ok_def set_item_def dest!: set_update_one_cases)

lemma legal_item_status [simp]:
  "legal_item x \<Longrightarrow> s \<in> set item_statuses \<Longrightarrow> legal_item (with_status s r x)"
  "legal_item x \<Longrightarrow> s \<in> set item_statuses \<Longrightarrow> legal_item (x\<lparr>ri_status := s\<rparr>)"
  by (simp_all add: legal_item_def with_status_def)

lemma item_statuses_mem [simp]:
  "''pending'' \<in> set item_statuses" "''posted'' \<in> set item_statuses" "''skipped'' \<in> set item_statuses" "''failed'' \<in> set item_statuses"
  by (simp_all add: item_statuses_def)

lemma on_house_ok: "audit_ok a \<Longrightarrow> charges_ok (hs_charges (f (ah_house a))) \<Longrightarrow> audit_ok (on_house f a)"
  by (simp add: audit_ok_def)

lemma post_item_ok:
  assumes "audit_ok a" "post_item ae t run x a = (a', ok)"
  shows "audit_ok a'"
  using assms(2)
proof (cases rule: post_item_cases)
  case room
  have "audit_ok (on_house (room_posting ae t run x) a)"
    using assms(1) room(4) by (intro on_house_ok) (auto simp: audit_ok_def intro: charges_ok_snoc)
  then show ?thesis using room(1) set_item_ok by simp
next
  case no_show
  have "audit_ok (on_house (no_show_posting ae t run x) a)"
    using assms(1) no_show(4) by (intro on_house_ok) (auto simp: audit_ok_def intro: charges_ok_snoc)
  then show ?thesis using no_show(1) set_item_ok by simp
qed (use assms(1) in \<open>auto simp: fail_item_def intro!: set_item_ok\<close>)

lemma post_items_ok: "audit_ok a \<Longrightarrow> post_items ae t run xs a = (a', n, m) \<Longrightarrow> audit_ok a'"
proof (induction xs arbitrary: a n m)
  case (Cons x xs)
  obtain a1 ok where 1: "post_item ae t run x a = (a1, ok)" by fastforce
  obtain n1 m1 where "post_items ae t run xs a1 = (a', n1, m1)"
    using Cons.prems(2) 1 by (auto split: prod.splits)
  then show ?case using Cons.IH post_item_ok[OF Cons.prems(1) 1] by blast
qed simp

lemma post_items_frame:
  "post_items ae t run xs a = (a', n, m) \<Longrightarrow> ah_runs a' = ah_runs a \<and> ah_mapping a' = ah_mapping a
     \<and> lg_settings (hs_ledger (ah_house a')) = lg_settings (hs_ledger (ah_house a)) \<and> locks (hs_db (ah_house a')) = locks (hs_db (ah_house a))"
proof (induction xs arbitrary: a n m)
  case (Cons x xs)
  obtain a1 ok where 1: "post_item ae t run x a = (a1, ok)" by fastforce
  obtain n1 m1 where 2: "post_items ae t run xs a1 = (a', n1, m1)"
    using Cons.prems 1 by (auto split: prod.splits)
  have "ah_runs a1 = ah_runs a \<and> ah_mapping a1 = ah_mapping a \<and> lg_settings (hs_ledger (ah_house a1)) = lg_settings (hs_ledger (ah_house a))
      \<and> locks (hs_db (ah_house a1)) = locks (hs_db (ah_house a))"
    using 1 by (cases rule: post_item_cases) (simp_all add: fail_item_def)
  then show ?case using Cons.IH[OF 2] by simp
qed simp

text \<open>Posting and closing: the branches.\<close>

lemma roll_business_date_Some:
  assumes "roll_business_date ae t bd run a = Some a'"
  shows "\<exists>actor trigger. a' = on_settings (upsert_settings t (roll_settings ae bd run actor trigger)) a"
  using assms by (auto simp: roll_business_date_def Let_def split: option.splits)

lemma audit_ok_settings [simp]: "audit_ok (on_settings f a) = audit_ok a"
  by (simp add: audit_ok_def on_settings_def)

lemma audit_ok_mapping [simp]: "audit_ok (a\<lparr>ah_mapping := m\<rparr>) = audit_ok a"
  by (simp add: audit_ok_def)

lemma reconcile_and_roll_ok:
  assumes "audit_ok a" "reconcile_and_roll ae run t bd a = (a', c)"
  shows "audit_ok a'"
proof -
  have st: "status \<in> set run_statuses" if "reconcile_run run b = Some (status, r)" for b status r
    using that by (auto simp: reconcile_run_def Let_def legal_stages split: if_splits)
  have ok4: "audit_ok (set_stage ae run ''reconciling'' a)" by (rule stage_updates_ok(1)[OF assms(1) legal_stages(4)])
  define a6 where "a6 = (set_stage ae run ''rolling_date'' (set_stage ae run ''reconciling'' a))\<lparr>ah_mapping := ae_inbox ae (ah_mapping a)\<rparr>"
  have ok6: "audit_ok a6" unfolding a6_def audit_ok_mapping by (rule stage_updates_ok(1)[OF ok4 legal_stages(5)])
  show ?thesis
    using assms(2) ok4 ok6
    by (auto simp: reconcile_and_roll_def Let_def a6_def[symmetric] legal_stages split: if_splits option.splits prod.splits
        intro!: stage_updates_ok dest!: roll_business_date_Some intro: st)
qed

lemma posting_and_close_ok:
  assumes "audit_ok a" "posting_and_close ae run t bd a = (a', c)"
  shows "audit_ok a'"
proof -
  have ok1: "audit_ok (set_stage ae run ''posting_charges'' a)" by (rule stage_updates_ok(1)[OF assms(1) legal_stages(3)])
  obtain a2 p f s where pc: "post_charges ae t run (set_stage ae run ''posting_charges'' a) = (a2, p, f, s)" by (metis prod_cases4)
  then have ok2: "audit_ok a2" using post_items_ok[OF ok1] by (auto simp: post_charges_def Let_def split: prod.splits)
  have "audit_ok (set_run run (\<lambda>r. r\<lparr>ru_processed := p, ru_failed := f, ru_skipped := s\<rparr>) a2)"
    by (rule set_run_ok[OF ok2]) (auto simp: legal_run_def run_slot_def)
  then show ?thesis
    using assms pc ok1 reconcile_and_roll_ok
    by (auto simp: posting_and_close_def Let_def legal_stages split: if_splits option.splits intro!: stage_updates_ok)
qed

lemma validation_stage_ok:
  assumes "audit_ok a" "validation_stage ae run t bd skip dry a = (a', c)"
  shows "audit_ok a'"
proof -
  have plain: "audit_ok (set_run run f b)"
    if "audit_ok b" "\<And>r. ru_status (f r) = ru_status r \<and> ru_stage (f r) = ru_stage r \<and> run_slot (f r) = run_slot r" for f b
    by (rule set_run_ok[OF that(1)]) (use that(2) in \<open>auto simp: legal_run_def\<close>)
  have w: "audit_ok (set_run run (\<lambda>r. r\<lparr>ru_warnings := ws\<rparr>) b)" if "audit_ok b" for ws b
    by (rule plain[OF that]) (simp add: run_slot_def)
  have b: "audit_ok (set_run run (\<lambda>r. r\<lparr>ru_status := s, ru_stage := ''validating'',
                          ru_errors := es, ru_warnings := ws, ru_completed := x\<rparr>) a)" if "s \<in> set run_statuses" for s es ws x
    by (rule set_run_ok[OF assms(1)]) (use that in \<open>simp add: legal_run_def run_slot_def legal_stages\<close>)
  show ?thesis
    using assms
    by (auto simp: validation_stage_def Let_def legal_stages split: if_splits option.splits prod.splits
        intro!: w b stage_updates_ok)
qed

lemma build_candidate_set_ok:
  assumes "audit_ok a" "build_candidate_set ae t bd run a = (a', n)"
  shows "audit_ok a'"
proof -
  have r: "legal_item (room_item ae t bd run rate a i b)" for rate i b
    by (auto simp: room_item_def legal_item_def item_statuses_def Let_def)
  have s: "legal_item (no_show_item ae t bd run i b)" for i b
    by (simp add: no_show_item_def legal_item_def item_statuses_def)
  show ?thesis
    using assms by (auto simp: build_candidate_set_def Let_def audit_ok_def numbered_def r s)
qed

lemma execute_pipeline_ok:
  assumes "audit_ok a" "execute_pipeline ae run t bd skip dry a = (a', c)"
  shows "audit_ok a'"
proof -
  obtain a1 v where 1: "validation_stage ae run t bd skip dry a = (a1, v)" by fastforce
  have ok1: "audit_ok a1" by (rule validation_stage_ok[OF assms(1) 1])
  have ok2: "audit_ok (set_stage ae run ''candidate_build'' a1)" by (rule stage_updates_ok(1)[OF ok1 legal_stages(2)])
  obtain a3 n where 3: "build_candidate_set ae t bd run (set_stage ae run ''candidate_build'' a1) = (a3, n)" by fastforce
  have ok3: "audit_ok a3" by (rule build_candidate_set_ok[OF ok2 3])
  have ok4: "audit_ok (set_run run (\<lambda>r. r\<lparr>ru_candidates := n\<rparr>) a3)"
    by (rule set_run_ok[OF ok3]) (simp add: legal_run_def run_slot_def)
  show ?thesis
    using assms(2) 1 3 ok1 ok2 ok4 posting_and_close_ok[OF ok4]
    by (auto simp: execute_pipeline_def Let_def legal_stages split: if_splits option.splits prod.splits
        intro!: stage_updates_ok)
qed

lemma insert_run_ok:
  assumes "audit_ok a" "legal_run r" "insert_run r a = Some a'"
  shows "audit_ok a'"
  using assms by (fastforce simp: insert_run_def audit_ok_def runs_ok_def list_ex_iff split: if_splits)

lemma handle_duplicate_run_ok:
  assumes "audit_ok a" "handle_duplicate_run ae t p bd a = (a', c)"
  shows "audit_ok a'"
proof -
  have s: "audit_ok (set_run i (supersede None) a)" for i
    by (rule set_run_ok[OF assms(1)]) (simp add: supersede_def legal_run_def legal_stages)
  have f: "audit_ok (fail_run ae (ru_id r) (ru_stage r) StaleRun ''partial_recovery_required'' a)" if "find_run t p bd a = Some r" for r
  proof -
    have "r \<in> set (ah_runs a)" using that find_Some_iff_first by (fastforce simp: find_run_def find_one_def)
    then show ?thesis using assms(1) by (intro stage_updates_ok(2)) (auto simp: audit_ok_def runs_ok_def legal_run_def legal_stages)
  qed
  show ?thesis
    using assms s f by (auto simp: handle_duplicate_run_def Let_def split: option.splits if_splits)
qed

lemma create_run_ok:
  assumes "audit_ok a" "legal_run r" "create_run ae r p force a = (a', c)"
  shows "audit_ok a'"
proof -
  have refuse: "audit_ok b'" if "audit_ok b" "refuse ae r p b = (b', c')" for b b' c'
    using handle_duplicate_run_ok[OF that(1)] that(2) by (cases "handle_duplicate_run ae (ru_tenant r) p (ru_date r) b") (auto simp: refuse_def)
  have ior: "audit_ok b'" if "audit_ok b" "insert_or_refuse ae r p b = (b', c')" for b b' c'
  proof (cases "insert_run r b")
    case None
    then show ?thesis using refuse[OF that(1)] that(2) by (simp add: insert_or_refuse_def)
  next
    case (Some b1)
    then show ?thesis using insert_run_ok[OF that(1) assms(2)] that(2) by (simp add: insert_or_refuse_def)
  qed
  have s: "audit_ok (set_run i (supersede x) a)" for i x
    by (rule set_run_ok[OF assms(1)]) (simp add: supersede_def legal_run_def legal_stages)
  obtain b d where rf: "refuse ae r p a = (b, d)" by fastforce
  have okb: "audit_ok b" by (rule refuse[OF assms(1) rf])
  consider (ins) "insert_run r a = Some a'"
    | (force) old :: na_run where "insert_or_refuse ae r p (set_run (ru_id old) (supersede (Some (ru_id r))) a) = (a', c)"
    | (retry) "insert_or_refuse ae r p b = (a', c)" | (stay) "a' = b"
    using assms(3) rf by (auto simp: create_run_def split: option.splits if_splits audit_code.splits)
  then show ?thesis
    by cases (use assms(1,2) okb in \<open>blast intro: insert_run_ok ior[OF s] ior\<close>)+
qed

lemma start_night_audit_ok:
  assumes "audit_ok a" "start_night_audit ae t prop date trigger actor skip dry force a = (a', c)"
  shows "audit_ok a'"
proof -
  define opened where "opened = (case date of Some d \<Rightarrow> (a, Some d) | None \<Rightarrow> open_business_date ae t a)"
  have ok0: "audit_ok (fst opened)"
    using assms(1) by (auto simp: opened_def open_business_date_def split: option.splits prod.splits)
  have legal: "legal_run (new_run ae t p bd trigger actor dry)" for p bd
    by (simp add: new_run_def legal_run_def legal_stages)
  have run: "audit_ok b'"
    if "create_run ae (new_run ae t p bd trigger actor dry) p force (fst opened) = (b, None)"
      "execute_pipeline ae i t bd skip dry b = (b', d)" for p bd b b' d i
    using execute_pipeline_ok[OF create_run_ok[OF ok0 legal that(1)] that(2)] .
  show ?thesis
    using assms(2) ok0 create_run_ok[OF ok0 legal] run
    unfolding start_night_audit_def opened_def[symmetric]
    by (auto simp: Let_def split: option.splits if_splits prod.splits)
qed

lemma update_items_ok:
  assumes "audit_ok a" "s \<in> set item_statuses"
  shows "audit_ok (a\<lparr>ah_items := update_many p (with_status s r) (ah_items a)\<rparr>)"
  using assms by (auto simp: audit_ok_def update_many_def)

lemma reset_failed_frame [simp]:
  "ah_house (reset_failed run a) = ah_house a" "ah_runs (reset_failed run a) = ah_runs a" "ah_mapping (reset_failed run a) = ah_mapping a"
  by (simp_all add: reset_failed_def)

lemma reopened_ok:
  assumes "audit_ok a"
  shows "audit_ok (reopen_run ae run r (reset_failed run a))" (is "audit_ok ?a1")
    and "audit_ok (set_run run (restart_run ae) (reopen_run ae run r (reset_failed run a)))"
proof -
  have 1: "audit_ok (reset_failed run a)" unfolding reset_failed_def by (rule update_items_ok[OF assms]) simp
  then show 2: "audit_ok ?a1"
    by (auto intro!: set_run_ok simp: reopen_run_def restart_run_def legal_run_def run_slot_def legal_stages)
  show "audit_ok (set_run run (restart_run ae) ?a1)"
    by (rule set_run_ok[OF 2]) (simp add: restart_run_def legal_run_def run_slot_def legal_stages)
qed

lemma resume_night_audit_ok:
  assumes "audit_ok a" "resume_night_audit ae t run a = (a', c)"
  shows "audit_ok a'"
proof (cases "find_one (\<lambda>r. ru_id r = run \<and> ru_tenant r = t) (ah_runs a)")
  case None
  then show ?thesis using assms by (simp add: resume_night_audit_def)
next
  case (Some r)
  let ?a1 = "reopen_run ae run r (reset_failed run a)"
  have "audit_ok (set_run run (\<lambda>x. x\<lparr>ru_status := ''blocked'', ru_errors := es, ru_completed := Some (ae_now ae)\<rparr>) ?a1)" for es
    by (rule set_run_ok[OF reopened_ok(1)[OF assms(1)]]) (simp add: legal_run_def run_slot_def legal_stages)
  then show ?thesis
    using assms Some reopened_ok(1)[OF assms(1), of ae run r] posting_and_close_ok[OF reopened_ok(2)[OF assms(1)]]
    by (auto simp: resume_night_audit_def Let_def split: if_splits prod.splits option.splits)
qed

lemma abort_night_audit_ok:
  assumes "audit_ok a" "abort_night_audit ae t run actor a = (a', c)"
  shows "audit_ok a'"
proof -
  have "audit_ok (set_run run (\<lambda>x. x\<lparr>ru_status := ''failed'', ru_completed := Some (ae_now ae), ru_errors := es\<rparr>) a)" for es
    by (rule set_run_ok[OF assms(1)]) (simp add: legal_run_def run_slot_def legal_stages)
  from update_items_ok[OF this] show ?thesis
    using assms by (auto simp: abort_night_audit_def Let_def split: option.splits if_splits)
qed

section \<open>Every run of the audit\<close>

text \<open>
  Starts, resumes and aborts of any tenant, and what the rest of the hotel does in between: it
  keeps the unique index of the charges.
\<close>

inductive audit_step :: "audit_house \<Rightarrow> audit_house \<Rightarrow> bool" where
  start: "start_night_audit ae t prop date trigger actor skip dry force a = (a', c) \<Longrightarrow> audit_step a a'"
| resume: "resume_night_audit ae t run a = (a', c) \<Longrightarrow> audit_step a a'"
| abort: "abort_night_audit ae t run actor a = (a', d) \<Longrightarrow> audit_step a a'"
| hotel: "charges_ok (hs_charges h) \<Longrightarrow> audit_step a (a\<lparr>ah_house := h, ah_mapping := m, ah_rates := ds, ah_rules := ts\<rparr>)"

inductive_cases audit_stepE: "audit_step a a'"

lemma audit_step_ok:
  assumes "audit_ok a" "audit_step a a'"
  shows "audit_ok a'"
  using assms(2)
proof (cases rule: audit_step.cases)
  case start
  then show ?thesis using start_night_audit_ok[OF assms(1)] by blast
next
  case resume
  then show ?thesis using resume_night_audit_ok[OF assms(1)] by blast
next
  case abort
  then show ?thesis using abort_night_audit_ok[OF assms(1)] by blast
next
  case hotel
  then show ?thesis using assms(1) by (simp add: audit_ok_def)
qed

interpretation audits: invariant_system
  "\<lambda>a. ah_runs a = [] \<and> ah_items a = [] \<and> charges_ok (hs_charges (ah_house a))" audit_step audit_ok
  by (unfold_locales, simp add: audit_ok_def runs_ok_def, rule audit_step_ok)

end
