(* ===== verification/AuditClose.thy ===== *)
theory AuditClose
  imports AuditInvariant "HOL-Library.Multiset"
begin

text \<open>
  What closing a business date means: when the date rolls, that a closed date has charged
  exactly its stays, that a simulation changes nothing, and how a resumed run can lose a night.

  \<open>posting_inv\<close> relates the items and charges during posting to those at its start; it does not
  depend on the order in which the workers commit.
\<close>

section \<open>When the date rolls\<close>

definition run_ident :: "na_run \<Rightarrow> string \<times> string \<times> day" where
  "run_ident r = (ru_id r, ru_tenant r, ru_date r)"

abbreviation settings :: "audit_house \<Rightarrow> tenant_settings list" where
  "settings a \<equiv> lg_settings (hs_ledger (ah_house a))"

lemma on_settings_frame [simp]:
  "ah_runs (on_settings f a) = ah_runs a" "ah_items (on_settings f a) = ah_items a" "ah_mapping (on_settings f a) = ah_mapping a"
  "ah_rates (on_settings f a) = ah_rates a" "ah_rules (on_settings f a) = ah_rules a" "ah_schedules (on_settings f a) = ah_schedules a"
  "settings (on_settings f a) = f (settings a)" "hs_charges (ah_house (on_settings f a)) = hs_charges (ah_house a)"
  "hs_db (ah_house (on_settings f a)) = hs_db (ah_house a)"
  by (simp_all add: on_settings_def on_house_def)

lemma set_run_ident: "(\<And>r. run_ident (f r) = run_ident r) \<Longrightarrow> map run_ident (ah_runs (set_run i f a)) = map run_ident (ah_runs a)"
  by (simp add: set_run_def map_update_one)

lemma run_updates_ident [simp]:
  "map run_ident (ah_runs (set_stage ae i st a)) = map run_ident (ah_runs a)"
  "map run_ident (ah_runs (complete_run ae i a)) = map run_ident (ah_runs a)"
  by (simp_all add: run_updates set_run_ident run_ident_def)


lemma reconcile_settled:
  assumes "reconcile_run run a = None" "\<forall>x \<in> set (ah_items a). legal_item x" "x \<in> set (ah_items a)" "ri_run x = run"
  shows "settled (ri_status x)"
proof -
  have "ri_status x \<noteq> ''failed'' \<and> ri_status x \<noteq> ''pending''"
    using assms by (auto simp: reconcile_run_def item_count_def count_documents_def Let_def filter_empty_conv split: if_splits)
  then show ?thesis using assms(2,3) by (auto simp: legal_item_def item_statuses_def settled_def)
qed

lemma reconcile_run_cong: "ah_items a = ah_items b \<Longrightarrow> reconcile_run run a = reconcile_run run b"
  by (simp add: reconcile_run_def item_count_def)

lemma reconcile_and_roll_result:
  assumes "reconcile_and_roll ae run t bd a = (a', c)"
  shows "c \<noteq> None \<Longrightarrow> settings a' = settings a"
    and "c = None \<Longrightarrow> reconcile_run run a = None \<and> mapping_blocked t bd a' = None \<and> ah_items a' = ah_items a
        \<and> hs_charges (ah_house a') = hs_charges (ah_house a)
        \<and> (\<exists>actor trigger. settings a' = upsert_settings t (roll_settings ae bd run actor trigger) (settings a))
        \<and> (\<exists>b. map run_ident (ah_runs b) = map run_ident (ah_runs a) \<and> ah_runs a' = ah_runs (complete_run ae run b))"
proof -
  define a4 where "a4 = set_stage ae run ''reconciling'' a"
  define a6 where "a6 = (set_stage ae run ''rolling_date'' a4)\<lparr>ah_mapping := ae_inbox ae (ah_mapping a4)\<rparr>"
  have frame: "settings a4 = settings a" "settings a6 = settings a" "ah_items a6 = ah_items a" "ah_items a4 = ah_items a"
    "map run_ident (ah_runs a6) = map run_ident (ah_runs a)"
    by (simp_all add: a4_def a6_def)
  have rr: "reconcile_run run a4 = reconcile_run run a" by (rule reconcile_run_cong) (simp add: frame)
  show "settings a' = settings a" if "c \<noteq> None"
    using assms that frame by (auto simp: reconcile_and_roll_def a4_def[symmetric] Let_def a6_def[symmetric] split: if_splits option.splits prod.splits)
  show "reconcile_run run a = None \<and> mapping_blocked t bd a' = None \<and> ah_items a' = ah_items a
        \<and> hs_charges (ah_house a') = hs_charges (ah_house a)
        \<and> (\<exists>actor trigger. settings a' = upsert_settings t (roll_settings ae bd run actor trigger) (settings a))
        \<and> (\<exists>b. map run_ident (ah_runs b) = map run_ident (ah_runs a) \<and> ah_runs a' = ah_runs (complete_run ae run b))"
    if none: "c = None"
  proof -
    obtain a7 where 7: "roll_business_date ae t bd run a6 = Some a7" "a' = complete_run ae run a7" "reconcile_run run a = None"
      using assms none rr by (auto simp: reconcile_and_roll_def a4_def[symmetric] Let_def a6_def[symmetric] split: if_splits option.splits prod.splits)
    from 7(1) obtain actor trigger where a7: "a7 = on_settings (upsert_settings t (roll_settings ae bd run actor trigger)) a6"
      by (auto dest: roll_business_date_Some)
    have "mapping_blocked t bd a6 = None" using 7(1) by (simp add: roll_business_date_def split: option.splits)
    then have "mapping_blocked t bd a' = None" using 7(2) a7 mapping_blocked_cong[of a' a6] by simp
    moreover have "settings a' = upsert_settings t (roll_settings ae bd run actor trigger) (settings a)" "ah_items a' = ah_items a"
      "hs_charges (ah_house a') = hs_charges (ah_house a)"
      using 7(2) a7 frame by (simp_all add: a6_def a4_def)
    moreover have "map run_ident (ah_runs a7) = map run_ident (ah_runs a)" using a7 frame by simp
    ultimately show ?thesis using 7(2,3) by blast
  qed
qed


lemma upsert_settings_result:
  "\<exists>s. settings_of t (upsert_settings t (roll_settings ae bd run actor trigger) ss) = Some s
     \<and> st_date s = Some (date_only (bd + 1)) \<and> st_previous s = Some (date_only bd) \<and> st_run s = Some run"
proof (cases "settings_of t ss")
  case None
  then show ?thesis
    by (simp add: upsert_settings_def settings_of_append roll_settings_def blank_settings_def)
next
  case (Some s)
  then show ?thesis
    using settings_of_update[of "roll_settings ae bd run actor trigger" t t ss] by (simp add: upsert_settings_def roll_settings_def)
qed


text \<open>Steps that write nothing but runs, and keep which runs there are.\<close>

definition runs_only :: "audit_house \<Rightarrow> audit_house \<Rightarrow> bool" where
  "runs_only a b \<longleftrightarrow> b = a\<lparr>ah_runs := ah_runs b\<rparr> \<and> map run_ident (ah_runs b) = map run_ident (ah_runs a)"

lemma runs_only_refl [simp, intro]: "runs_only a a"
  by (simp add: runs_only_def)

lemma runs_only_trans [trans]: "runs_only a b \<Longrightarrow> runs_only b c \<Longrightarrow> runs_only a c"
  unfolding runs_only_def by (metis audit_house.select_convs(2) audit_house.surjective audit_house.update_convs(2))

lemma runs_only_set_run: "(\<And>r. run_ident (f r) = run_ident r) \<Longrightarrow> runs_only a (set_run i f a)"
  unfolding runs_only_def set_run_ident by (simp add: set_run_def map_update_one)

lemma runs_only_after: "runs_only a b \<Longrightarrow> (\<And>r. run_ident (f r) = run_ident r) \<Longrightarrow> runs_only a (set_run i f b)"
  using runs_only_trans runs_only_set_run by blast

lemma runs_only_frame:
  assumes "runs_only a b"
  shows "ah_house b = ah_house a" "ah_items b = ah_items a" "ah_mapping b = ah_mapping a" "ah_rates b = ah_rates a"
    "ah_rules b = ah_rules a" "ah_schedules b = ah_schedules a" "map run_ident (ah_runs b) = map run_ident (ah_runs a)"
  using assms unfolding runs_only_def
  by (metis audit_house.select_convs audit_house.surjective audit_house.update_convs(2))+

lemma runs_only_updates [intro]:
  "runs_only a (set_stage ae i st a)" "runs_only a (fail_run ae i st m s a)" "runs_only a (block_run ae i es a)"
  "runs_only a (complete_run ae i a)" "runs_only a (finish_dry_run ae i a)"
  by (simp_all add: run_updates Let_def runs_only_set_run run_ident_def)

lemma validation_stage_runs:
  assumes "validation_stage ae run t bd skip dry a = (a', c)"
  shows "runs_only a a'"
proof -
  have w: "runs_only a b \<Longrightarrow> runs_only a (set_run run (\<lambda>r. r\<lparr>ru_warnings := ws\<rparr>) b)" for ws b
    by (rule runs_only_after) (simp_all add: run_ident_def)
  have b: "runs_only a (set_run run (\<lambda>r. r\<lparr>ru_status := s, ru_stage := ''validating'',
                          ru_errors := es, ru_warnings := ws, ru_completed := x\<rparr>) a)" for s es ws x
    by (rule runs_only_set_run) (simp add: run_ident_def)
  show ?thesis
    using assms by (auto simp: validation_stage_def Let_def split: if_splits option.splits prod.splits intro!: w b)
qed

lemma handle_duplicate_runs:
  assumes "handle_duplicate_run ae t p bd a = (a', c)"
  shows "runs_only a a'"
  using assms
  by (auto simp: handle_duplicate_run_def Let_def supersede_def run_ident_def split: option.splits if_splits intro!: runs_only_set_run)

lemma refuse_runs: "refuse ae r p a = (a', c) \<Longrightarrow> runs_only a a'"
  by (cases "handle_duplicate_run ae (ru_tenant r) p (ru_date r) a") (auto simp: refuse_def intro: handle_duplicate_runs)

lemma create_run_result:
  assumes "create_run ae r p force a = (a', c)"
  shows "c \<noteq> None \<Longrightarrow> runs_only a a'" and "c = None \<Longrightarrow> \<exists>b. runs_only a b \<and> insert_run r b = Some a'"
proof -
  have ior: "(c \<noteq> None \<longrightarrow> runs_only a a') \<and> (c = None \<longrightarrow> (\<exists>b. runs_only a b \<and> insert_run r b = Some a'))"
    if "insert_or_refuse ae r p b = (a', c)" "runs_only a b" for b
  proof (cases "insert_run r b")
    case None
    then have r: "refuse ae r p b = (a', c)" using that(1) by (simp add: insert_or_refuse_def)
    then have "c \<noteq> None" by (cases "handle_duplicate_run ae (ru_tenant r) p (ru_date r) b") (auto simp: refuse_def)
    then show ?thesis using runs_only_trans[OF that(2) refuse_runs[OF r]] by blast
  next
    case (Some b1)
    then show ?thesis using that by (auto simp: insert_or_refuse_def)
  qed
  have s: "runs_only a (set_run i (supersede x) a)" for i x
    by (rule runs_only_set_run) (simp add: supersede_def run_ident_def)
  obtain b d where rf: "refuse ae r p a = (b, Some d)"
    by (cases "handle_duplicate_run ae (ru_tenant r) p (ru_date r) a") (auto simp: refuse_def)
  consider (ins) "insert_run r a = Some a'" "c = None"
    | (force) old :: na_run where "insert_or_refuse ae r p (set_run (ru_id old) (supersede (Some (ru_id r))) a) = (a', c)"
    | (retry) "insert_or_refuse ae r p b = (a', c)" | (stay) "a' = b" "c = Some d"
  proof (cases "insert_run r a")
    case None
    note no_insert = this
    show ?thesis
    proof (cases "force \<and> (\<exists>old. find_run (ru_tenant r) p (ru_date r) a = Some old \<and> ru_status old \<in> set rerun_statuses)")
      case True
      then obtain old where "find_run (ru_tenant r) p (ru_date r) a = Some old" "ru_status old \<in> set rerun_statuses" by blast
      then show ?thesis using assms no_insert True that(2)[of old] by (simp add: create_run_def)
    next
      case False
      then have "create_run ae r p force a = (if \<not> force \<and> d = RetryAfterDryRun then insert_or_refuse ae r p b else (b, Some d))"
        using no_insert rf by (cases d) (auto simp: create_run_def split: option.splits)
      then show ?thesis using assms that(3,4) by (auto split: if_splits)
    qed
  next
    case (Some a1)
    then show ?thesis using assms that(1) by (simp add: create_run_def)
  qed
  then have "(c \<noteq> None \<longrightarrow> runs_only a a') \<and> (c = None \<longrightarrow> (\<exists>b. runs_only a b \<and> insert_run r b = Some a'))"
  proof cases
    case ins
    then show ?thesis using runs_only_refl by blast
  next
    case (force old)
    show ?thesis by (rule ior[OF force s])
  next
    case retry
    show ?thesis by (rule ior[OF retry refuse_runs[OF rf]])
  next
    case stay
    then show ?thesis using refuse_runs[OF rf] by simp
  qed
  then show "c \<noteq> None \<Longrightarrow> runs_only a a'" "c = None \<Longrightarrow> \<exists>b. runs_only a b \<and> insert_run r b = Some a'" by auto
qed


lemma post_charges_ok:
  assumes "audit_ok a" "post_charges ae t run a = (a', p, f, s)"
  shows "audit_ok a'"
  using assms post_items_ok by (auto simp: post_charges_def Let_def split: prod.splits)

lemma posting_and_close_cases:
  assumes "posting_and_close ae run t bd a = (a', c)"
  obtains (stopped) "runs_only a a'" "c \<noteq> None"
  | (posted) a1 a2 p f s a3 where "a1 = set_stage ae run ''posting_charges'' a" "post_charges ae t run a1 = (a2, p, f, s)" "runs_only a2 a3"
      "reconcile_and_roll ae run t bd a3 = (a', c)" "mapping_blocked t bd a = None"
proof -
  obtain a2 p f s where pc: "post_charges ae t run (set_stage ae run ''posting_charges'' a) = (a2, p, f, s)" by (metis prod_cases4)
  have a3: "runs_only a2 (set_run run (\<lambda>r. r\<lparr>ru_processed := p, ru_failed := f, ru_skipped := s\<rparr>) a2)"
    by (rule runs_only_set_run) (simp add: run_ident_def)
  show thesis
    using assms pc stopped posted[OF refl pc a3] runs_only_trans[OF runs_only_updates(1) runs_only_updates(2)]
    by (auto simp: posting_and_close_def Let_def split: if_splits option.splits)
qed




lemma build_candidate_set_frame:
  assumes "build_candidate_set ae t bd run a = (a', n)"
  shows "ah_house a' = ah_house a \<and> ah_runs a' = ah_runs a \<and> ah_mapping a' = ah_mapping a \<and> ah_rates a' = ah_rates a
    \<and> (\<exists>xs. ah_items a' = ah_items a @ xs \<and> (\<forall>x \<in> set xs. ri_run x = run))"
  using assms by (auto simp: build_candidate_set_def Let_def numbered_def room_item_def no_show_item_def)

lemma execute_pipeline_cases:
  assumes "execute_pipeline ae run t bd skip dry a = (a', c)"
  obtains (stopped) e where "runs_only a a'" "c = Inl e"
  | (simulated) a1 a2 a3 n where "validation_stage ae run t bd skip dry a = (a1, None)" "a2 = set_stage ae run ''candidate_build'' a1"
      "build_candidate_set ae t bd run a2 = (a3, n)" "runs_only a3 a'" "c = Inr False" "dry"
  | (closing) a1 a2 a3 n d where "validation_stage ae run t bd skip dry a = (a1, None)" "a2 = set_stage ae run ''candidate_build'' a1"
      "build_candidate_set ae t bd run a2 = (a3, n)"
      "posting_and_close ae run t bd (set_run run (\<lambda>r. r\<lparr>ru_candidates := n\<rparr>) a3) = (a', d)"
      "c = (case d of None \<Rightarrow> Inr True | Some e \<Rightarrow> Inl e)" "\<not> dry"
      "audit_ok a \<Longrightarrow> audit_ok (set_run run (\<lambda>r. r\<lparr>ru_candidates := n\<rparr>) a3)"
proof -
  obtain a1 v where 1: "validation_stage ae run t bd skip dry a = (a1, v)" by fastforce
  note r1 = validation_stage_runs[OF 1]
  show thesis
  proof (cases v)
    case (Some e)
    then show thesis using assms 1 r1 stopped by (auto simp: execute_pipeline_def)
  next
    case None
    define a2 where "a2 = set_stage ae run ''candidate_build'' a1"
    have r2: "runs_only a a2" unfolding a2_def by (rule runs_only_trans[OF r1]) auto
    show thesis
    proof (cases "ae_down ae ''candidate_build''")
      case True
      then show thesis
        using assms 1 None stopped runs_only_trans[OF r2 runs_only_updates(2)]
        by (auto simp: execute_pipeline_def Let_def a2_def)
    next
      case False
      obtain a3 n where 3: "build_candidate_set ae t bd run a2 = (a3, n)" by fastforce
      obtain a5 d where 5: "posting_and_close ae run t bd (set_run run (\<lambda>r. r\<lparr>ru_candidates := n\<rparr>) a3) = (a5, d)" by fastforce
      have r4: "runs_only a3 (finish_dry_run ae run (set_run run (\<lambda>r. r\<lparr>ru_candidates := n\<rparr>) a3))"
        by (rule runs_only_trans[OF runs_only_set_run runs_only_updates(5)]) (simp add: run_ident_def)
      have e: "execute_pipeline ae run t bd skip dry a
          = (if dry then (finish_dry_run ae run (set_run run (\<lambda>r. r\<lparr>ru_candidates := n\<rparr>) a3), Inr False)
             else (a5, case d of None \<Rightarrow> Inr True | Some e \<Rightarrow> Inl e))"
        using 1 None False 3 5 by (simp add: execute_pipeline_def Let_def a2_def[symmetric] split: option.splits)
      have ok: "audit_ok (set_run run (\<lambda>r. r\<lparr>ru_candidates := n\<rparr>) a3)" if "audit_ok a"
      proof -
        have "audit_ok a2" unfolding a2_def
          by (rule stage_updates_ok(1)[OF validation_stage_ok[OF that 1] legal_stages(2)])
        then have "audit_ok a3" by (rule build_candidate_set_ok[OF _ 3])
        then show ?thesis by (rule set_run_ok) (simp add: legal_run_def run_slot_def)
      qed
      show thesis
      proof (cases dry)
        case True
        then show thesis using assms e simulated[OF 1[unfolded None] a2_def 3] r4 by simp
      next
        case False
        then show thesis using assms e closing[OF 1[unfolded None] a2_def 3 _ _ _ ok] 5 by simp
      qed
    qed
  qed
qed

lemma open_established:
  assumes "Option.bind (settings_of t (settings a)) st_date = Some x"
  shows "open_business_date ae t a = (a, date_only_of (Some x))"
  using assms
  by (auto simp: open_business_date_def ensure_established on_settings_def on_house_def bind_eq_Some_conv date_only_of_def Let_def)

lemma start_cases:
  assumes "start_night_audit ae t prop date trigger actor skip dry force a = (a', c)"
    "Option.bind (settings_of t (settings a)) st_date = Some x"
  obtains (refused) e where "runs_only a a'" "c = Inl e"
  | (ran) bd b a1 where "date = Some bd \<or> date = None \<and> prefix_date x = Some bd" "dry \<or> (\<exists>today. local_today ae t a = Some today \<and> bd < today)"
      "runs_only a b" "insert_run (new_run ae t (str_or prop default_property) bd trigger actor dry) b = Some a1"
      "execute_pipeline ae (ae_run_id ae) t bd skip dry a1 = (a', c)" "audit_ok a \<Longrightarrow> audit_ok a1"
proof -
  define date' where "date' = (case date of Some d \<Rightarrow> Some d | None \<Rightarrow> prefix_date x)"
  have opened: "(case date of Some d \<Rightarrow> (a, Some d) | None \<Rightarrow> open_business_date ae t a) = (a, date')"
    using open_established[OF assms(2)] by (simp add: date'_def date_only_of_def split: option.splits)
  show thesis
  proof (cases date')
    case None
    then show thesis using assms(1) refused by (auto simp: start_night_audit_def opened)
  next
    case (Some bd)
    then have bd: "date = Some bd \<or> date = None \<and> prefix_date x = Some bd" by (simp add: date'_def split: option.splits)
    let ?r = "new_run ae t (str_or prop default_property) bd trigger actor dry"
    show thesis
    proof (cases "dry \<or> (\<exists>today. local_today ae t a = Some today \<and> bd < today)")
      case False
      then show thesis using assms(1) Some refused
        by (cases "local_today ae t a") (auto simp: start_night_audit_def opened)
    next
      case True
      obtain a1 d where 1: "create_run ae ?r (str_or prop default_property) force a = (a1, d)" by fastforce
      have id: "ru_id ?r = ae_run_id ae" by (simp add: new_run_def)
      have s: "start_night_audit ae t prop date trigger actor skip dry force a
          = (case d of Some e \<Rightarrow> (a1, Inl e) | None \<Rightarrow> execute_pipeline ae (ae_run_id ae) t bd skip dry a1)"
        using True Some 1 id by (auto simp: start_night_audit_def opened Let_def split: option.splits)
      show thesis
      proof (cases d)
        case (Some e)
        then show thesis using assms(1) s refused create_run_result(1)[OF 1] by auto
      next
        case None
        then obtain b where b: "runs_only a b" "insert_run ?r b = Some a1" using create_run_result(2)[OF 1] by blast
        have e: "execute_pipeline ae (ae_run_id ae) t bd skip dry a1 = (a', c)" using assms(1) s None by simp
        have "legal_run ?r" by (simp add: new_run_def legal_run_def legal_stages)
        then show thesis by (intro ran[OF bd True b e] create_run_ok[OF _ _ 1])
      qed
    qed
  qed
qed

lemma reopened_runs:
  "runs_only (reset_failed run a) (reopen_run ae run r (reset_failed run a))"
  "runs_only (reset_failed run a) (set_run run (restart_run ae) (reopen_run ae run r (reset_failed run a)))"
proof -
  show 1: "runs_only (reset_failed run a) (reopen_run ae run r (reset_failed run a))"
    by (auto intro!: runs_only_set_run simp: reopen_run_def restart_run_def run_ident_def)
  show "runs_only (reset_failed run a) (set_run run (restart_run ae) (reopen_run ae run r (reset_failed run a)))"
    by (rule runs_only_after[OF 1]) (simp add: restart_run_def run_ident_def)
qed


section \<open>What posting does to the charges\<close>

definition static :: "run_item \<Rightarrow> run_item" where
  "static x = with_status '''' None x"

definition charge_from :: "string \<Rightarrow> string \<Rightarrow> charge \<Rightarrow> run_item \<Rightarrow> bool" where
  "charge_from t run c x \<longleftrightarrow>
     ch_run c = Some run \<and> ch_tenant c = t \<and> ch_booking c = ri_booking x \<and> ch_business c = Some (date_only (ri_date x))
     \<and> \<not> ch_voided c
     \<and> (ri_type x = ''room_charge'' \<and> ch_type c = ''room_charge'' \<and> ch_total c = Some (ri_total x)
        \<or> ri_type x = ''no_show'' \<and> ch_type c = ''no_show_fee'')"

definition charged_before :: "string \<Rightarrow> charge list \<Rightarrow> run_item \<Rightarrow> bool" where
  "charged_before t old x \<longleftrightarrow>
     (\<exists>c \<in> set old. ch_tenant c = t \<and> ch_booking c = ri_booking x \<and> ch_business c = Some (date_only (ri_date x)) \<and> ch_type c = ''room_charge'')"

definition posting_inv :: "string \<Rightarrow> string \<Rightarrow> run_item list \<Rightarrow> run_item set \<Rightarrow> charge list \<Rightarrow> audit_house \<Rightarrow> bool" where
  "posting_inv t run xs todo old a \<longleftrightarrow>
     map static (ah_items a) = map static xs
     \<and> (\<exists>new. hs_charges (ah_house a) = old @ new
         \<and> (\<forall>c \<in> set new. \<exists>x \<in> set (ah_items a). ri_run x = run \<and> ri_status x = ''posted'' \<and> charge_from t run c x))
     \<and> (\<forall>x \<in> set (ah_items a). x \<in> set xs \<or> ri_run x = run \<and> static x \<in> static ` todo \<and>
          (ri_status x = ''failed''
           \<or> ri_status x = ''posted'' \<and> (ri_type x = ''room_charge'' \<longrightarrow> (\<exists>c \<in> set (hs_charges (ah_house a)). charge_from t run c x))
           \<or> ri_status x = ''skipped'' \<and> ri_type x = ''room_charge'' \<and> charged_before t old x))"

lemma static_fields:
  assumes "static x = static y"
  shows "ri_id x = ri_id y" "ri_run x = ri_run y" "ri_booking x = ri_booking y" "ri_type x = ri_type y" "ri_date x = ri_date y"
    "ri_total x = ri_total y"
  using assms by (cases x; cases y; simp add: static_def with_status_def)+

lemma static_with [simp]: "static (with_status s r x) = static x" "static (x\<lparr>ri_status := s\<rparr>) = static x"
  by (simp_all add: static_def with_status_def)

lemma with_status_fields [simp]: "ri_status (with_status s r x) = s" "ri_id (with_status s r x) = ri_id x"
  by (simp_all add: with_status_def)

lemma static_ids:
  assumes "map static xs = map static ys"
  shows "map ri_id xs = map ri_id ys"
proof -
  have "map ri_id zs = map ri_id (map static zs)" for zs by (simp add: static_def with_status_def)
  then show ?thesis using assms by metis
qed

lemma charge_from_static: "static x = static y \<Longrightarrow> charge_from t run c x = charge_from t run c y"
  using static_fields[of x y] by (simp add: charge_from_def)

lemma charged_before_static: "static x = static y \<Longrightarrow> charged_before t old x = charged_before t old y"
  using static_fields[of x y] by (simp add: charged_before_def)

text \<open>One item settles: its record changes, and at most one charge that comes from it is added.\<close>

lemma posting_inv_settle:
  assumes inv: "posting_inv t run xs todo old a" and ids: "distinct (map ri_id xs)"
    and x: "static x \<in> static ` set xs" "ri_run x = run" "static x \<in> static ` todo"
    and f: "\<And>y. static (f y) = static y"
    and a': "ah_items a' = update_one (\<lambda>y. ri_id y = ri_id x) f (ah_items a)" "hs_charges (ah_house a') = hs_charges (ah_house a) @ new"
    and new: "\<forall>c \<in> set new. charge_from t run c x" "new \<noteq> [] \<Longrightarrow> \<forall>y. ri_status (f y) = ''posted''"
    and st: "\<And>y. static y = static x \<Longrightarrow> ri_status (f y) = ''failed''
        \<or> ri_status (f y) = ''posted'' \<and> (ri_type x = ''room_charge'' \<longrightarrow> (\<exists>c \<in> set new. charge_from t run c x))
        \<or> ri_status (f y) = ''skipped'' \<and> ri_type x = ''room_charge'' \<and> charged_before t old x"
    and keep: "\<And>y. y \<in> set (ah_items a) \<Longrightarrow> ri_id y = ri_id x \<Longrightarrow> ri_status y \<noteq> ''posted''"
  shows "posting_inv t run xs todo old a'"
proof -
  have stat: "map static (ah_items a) = map static xs" using inv by (simp add: posting_inv_def)
  have d: "distinct (map ri_id (ah_items a))" using static_ids[OF stat] ids by simp
  obtain e where e: "e \<in> set (ah_items a)" "static e = static x"
    using x(1) stat by (metis (no_types, lifting) image_iff list.set_map)
  have eid: "ri_id e = ri_id x" using static_fields[OF e(2)] by simp
  have upd: "ah_items a' = update_many (\<lambda>y. ri_id y = ri_id x) f (ah_items a)"
    unfolding a'(1) by (rule update_one_is_many[OF d])
  have only: "y = e" if "y \<in> set (ah_items a)" "ri_id y = ri_id x" for y
    using distinct_map_key_eq[OF d that(1) e(1)] that(2) eid by simp
  have fe: "f e \<in> set (ah_items a')" unfolding upd by (rule update_many_hit[OF e(1)]) (rule eid)
  have stay: "y \<in> set (ah_items a')" if "y \<in> set (ah_items a)" "y \<noteq> e" for y
    using that only unfolding upd update_many_def by (force simp: image_iff)
  have mem: "y = f e \<or> y \<in> set (ah_items a) \<and> y \<noteq> e" if "y \<in> set (ah_items a')" for y
    using that only eid unfolding upd update_many_def by (auto split: if_splits)
  have sfe: "static (f e) = static x" using f e(2) by simp
  have run_fe: "ri_run (f e) = run" "ri_type (f e) = ri_type x" using static_fields[OF sfe] x(2) by simp_all
  have cf: "charge_from t run c (f e) = charge_from t run c x" for c by (rule charge_from_static[OF sfe])
  obtain n where n: "hs_charges (ah_house a) = old @ n"
      "\<forall>c \<in> set n. \<exists>x \<in> set (ah_items a). ri_run x = run \<and> ri_status x = ''posted'' \<and> charge_from t run c x"
    using inv by (auto simp: posting_inv_def)
  have 1: "map static (ah_items a') = map static xs" unfolding a'(1) using f stat by (simp add: map_update_one)
  have 2: "\<exists>x \<in> set (ah_items a'). ri_run x = run \<and> ri_status x = ''posted'' \<and> charge_from t run c x" if cn: "c \<in> set (n @ new)" for c
  proof (cases "c \<in> set new")
    case True
    then have "new \<noteq> []" by auto
    then have "ri_status (f e) = ''posted''" "charge_from t run c (f e)" using new cf True by auto
    then show ?thesis using fe run_fe(1) by blast
  next
    case False
    then obtain z where "z \<in> set (ah_items a)" "ri_run z = run" "ri_status z = ''posted''" "charge_from t run c z" using n(2) cn by auto
    then show ?thesis using stay[of z] keep[OF e(1) eid] by metis
  qed
  have 3: "y \<in> set xs \<or> ri_run y = run \<and> static y \<in> static ` todo \<and>
          (ri_status y = ''failed''
           \<or> ri_status y = ''posted'' \<and> (ri_type y = ''room_charge'' \<longrightarrow> (\<exists>c \<in> set (hs_charges (ah_house a')). charge_from t run c y))
           \<or> ri_status y = ''skipped'' \<and> ri_type y = ''room_charge'' \<and> charged_before t old y)" if "y \<in> set (ah_items a')" for y
  proof (cases "y = f e")
    case True
    then show ?thesis using st[OF e(2)] cf run_fe a'(2) charged_before_static[OF sfe] x(3) sfe by auto
  next
    case False
    then have "y \<in> set (ah_items a)" using mem[OF that] by simp
    then show ?thesis using inv a'(2) by (auto simp: posting_inv_def)
  qed
  show ?thesis unfolding posting_inv_def using 1 2 3 n(1) a'(2) by auto
qed

lemma posting_inv_item:
  assumes inv: "posting_inv t run xs todo old a" and ids: "distinct (map ri_id xs)"
    and uniq: "\<And>x y. x \<in> set xs \<Longrightarrow> y \<in> set xs \<Longrightarrow> ri_run x = run \<Longrightarrow> ri_run y = run \<Longrightarrow> ri_type x = ''room_charge''
      \<Longrightarrow> ri_type y = ''room_charge'' \<Longrightarrow> ri_booking x = ri_booking y \<Longrightarrow> ri_id x = ri_id y"
    and x: "static x \<in> static ` set xs" "ri_run x = run" "static x \<in> static ` todo"
    and keep: "\<And>y. y \<in> set (ah_items a) \<Longrightarrow> ri_id y = ri_id x \<Longrightarrow> ri_status y \<noteq> ''posted''"
    and step: "post_item ae t run x a = (a', ok)"
  shows "posting_inv t run xs todo old a'"
  using step
proof (cases rule: post_item_cases)
  case idle
  then show ?thesis using inv by simp
next
  case failed
  then show ?thesis
    by (intro posting_inv_settle[OF inv ids x, of "with_status ''failed'' (Some ''error'')" a' "[]"] keep)
       (auto simp: fail_item_def set_item_def)
next
  case duplicate
  obtain n where n: "hs_charges (ah_house a) = old @ n"
      "\<forall>c \<in> set n. \<exists>x \<in> set (ah_items a). ri_run x = run \<and> ri_status x = ''posted'' \<and> charge_from t run c x"
    using inv by (auto simp: posting_inv_def)
  have stat: "static ` set (ah_items a) = static ` set xs" using inv by (metis posting_inv_def list.set_map)
  obtain c where c: "c \<in> set (old @ n)" "charge_key c = charge_key (room_charge_of ae t run x)"
    using duplicate(4) n(1) by (auto simp: charge_clash_def list_ex_iff)
  have "c \<in> set old"
  proof (rule ccontr)
    assume "c \<notin> set old"
    then obtain z where z: "z \<in> set (ah_items a)" "ri_run z = run" "ri_status z = ''posted''" "charge_from t run c z" using c(1) n(2) by auto
    then have zx: "ri_type z = ''room_charge''" "ri_booking z = ri_booking x" using c(2) by (auto simp: charge_from_def charge_key_def)
    obtain z' x' where zx': "z' \<in> set xs" "static z' = static z" "x' \<in> set xs" "static x' = static x" using stat z(1) x(1) by (metis imageE imageI)
    have "ri_id z' = ri_id x'"
      using uniq[OF zx'(1,3)] static_fields[OF zx'(2)] static_fields[OF zx'(4)] z(2) zx x(2) duplicate(3) by simp
    then have "ri_id z = ri_id x" using static_fields[OF zx'(2)] static_fields[OF zx'(4)] by simp
    then show False using keep[OF z(1)] z(3) by simp
  qed
  then have "charged_before t old x" using c(2) by (auto simp: charged_before_def charge_key_def)
  then show ?thesis using duplicate
    by (intro posting_inv_settle[OF inv ids x, of "with_status ''skipped'' (Some ''duplicate_charge_prevented'')" a' "[]"] keep)
       (auto simp: set_item_def)
next
  case room
  then have "charge_from t run (room_charge_of ae t run x) x" by (simp add: charge_from_def)
  then show ?thesis using room
    by (intro posting_inv_settle[OF inv ids x, of "\<lambda>y. y\<lparr>ri_status := ''posted''\<rparr>" a' "[room_charge_of ae t run x]"] keep)
       (auto simp: set_item_def)
next
  case no_show
  then have "charge_from t run (no_show_fee_of ae t run x) x" by (simp add: charge_from_def)
  then show ?thesis using no_show
    by (intro posting_inv_settle[OF inv ids x, of "\<lambda>y. y\<lparr>ri_status := ''posted''\<rparr>" a'
          "if charges_fee x then [no_show_fee_of ae t run x] else []"] keep)
       (auto simp: set_item_def)
qed

lemma post_item_others:
  assumes "post_item ae t run x a = (a', ok)" "y \<in> set (ah_items a')" "ri_id y \<noteq> ri_id x"
  shows "y \<in> set (ah_items a)"
  using assms(1)
  by (cases rule: post_item_cases) (use assms(2,3) in \<open>auto simp: fail_item_def set_item_def with_status_def dest!: set_update_one_cases\<close>)

lemma posting_inv_items:
  assumes ids: "distinct (map ri_id xs)"
    and uniq: "\<And>x y. x \<in> set xs \<Longrightarrow> y \<in> set xs \<Longrightarrow> ri_run x = run \<Longrightarrow> ri_run y = run \<Longrightarrow> ri_type x = ''room_charge''
      \<Longrightarrow> ri_type y = ''room_charge'' \<Longrightarrow> ri_booking x = ri_booking y \<Longrightarrow> ri_id x = ri_id y"
  shows "posting_inv t run xs todo old a \<Longrightarrow> distinct (map ri_id ys) \<Longrightarrow> \<forall>y \<in> set ys. static y \<in> static ` set xs \<and> ri_run y = run \<and> static y \<in> static ` todo
      \<Longrightarrow> \<forall>y \<in> set (ah_items a). ri_id y \<in> ri_id ` set ys \<longrightarrow> ri_status y \<noteq> ''posted''
      \<Longrightarrow> post_items ae t run ys a = (a', p, f) \<Longrightarrow> posting_inv t run xs todo old a'"
proof (induction ys arbitrary: a p f)
  case (Cons y ys)
  obtain a1 ok where 1: "post_item ae t run y a = (a1, ok)" by fastforce
  obtain p1 f1 where 2: "post_items ae t run ys a1 = (a', p1, f1)"
    using Cons.prems(5) 1 by (auto split: prod.splits)
  have inv1: "posting_inv t run xs todo old a1"
    by (rule posting_inv_item[OF Cons.prems(1) ids uniq _ _ _ _ 1]) (use Cons.prems(3,4) in auto)
  have "ri_status z \<noteq> ''posted''" if "z \<in> set (ah_items a1)" "ri_id z \<in> ri_id ` set ys" for z
  proof -
    have "ri_id z \<noteq> ri_id y" using Cons.prems(2) that(2) by (auto simp: image_iff)
    then show ?thesis using post_item_others[OF 1 that(1)] Cons.prems(4) that(2) by auto
  qed
  then show ?case using Cons.IH[OF inv1 _ _ _ 2] Cons.prems(2,3) by auto
qed simp

section \<open>The candidate set\<close>

definition night_rate :: "audit_env \<Rightarrow> string \<Rightarrow> day \<Rightarrow> audit_house \<Rightarrow> rat" where
  "night_rate ae t bd a = (if ae_tax_up ae then get_accommodation_tax_rate t bd (ah_rules a) else accommodation_tax_rate)"

text \<open>What the audit asks for one night of a booking, and where it books it.\<close>

definition stay_price :: "audit_env \<Rightarrow> string \<Rightarrow> day \<Rightarrow> audit_house \<Rightarrow> booking \<Rightarrow> room_price" where
  "stay_price ae t bd a b =
     calculate_room_charge (candidate_projection b) (Some (date_only bd)) vat_rate (night_rate ae t bd a)
       (daily_rate_of t (b_id b) bd (ah_rates a))"

definition stay_folio :: "string \<Rightarrow> audit_house \<Rightarrow> booking \<Rightarrow> string option" where
  "stay_folio t a b =
     (if truthy (tf_folio (b_tariff b)) then tf_folio (b_tariff b)
      else folio_by_booking t (b_id b) (lg_folios (hs_ledger (ah_house a))))"

definition sleeps_in :: "string \<Rightarrow> day \<Rightarrow> booking \<Rightarrow> bool" where
  "sleeps_in t bd b \<longleftrightarrow> b_tenant b = t \<and> b_status b = Some ''checked_in'' \<and> classify_stay bd b = ActiveStay"

definition chargeable :: "audit_env \<Rightarrow> string \<Rightarrow> day \<Rightarrow> audit_house \<Rightarrow> booking \<Rightarrow> bool" where
  "chargeable ae t bd a b \<longleftrightarrow>
     sleeps_in t bd b \<and> \<not> tf_complimentary (b_tariff b) \<and> 0 < pc_net (stay_price ae t bd a b) \<and> truthy (stay_folio t a b)"

lemma candidate_projection_simps [simp]:
  "b_id (candidate_projection b) = b_id b" "b_tenant (candidate_projection b) = b_tenant b"
  "b_status (candidate_projection b) = b_status b" "tf_complimentary (b_tariff (candidate_projection b)) = tf_complimentary (b_tariff b)"
  "tf_folio (b_tariff (candidate_projection b)) = tf_folio (b_tariff b)"
  "classify_stay bd (candidate_projection b) = classify_stay bd b"
  by (simp_all add: candidate_projection_def classify_stay_def)

lemma room_item_of:
  fixes ae t bd run a n b
  defines "x \<equiv> room_item ae t bd run (night_rate ae t bd a) a n (candidate_projection b)"
  shows "ri_id x = ae_item_id ae n" "ri_run x = run" "ri_booking x = b_id b" "ri_type x = ''room_charge''" "ri_date x = bd"
    "ri_total x = of_int (pc_total (stay_price ae t bd a b)) / 100" "ri_status x = ''pending'' \<or> ri_status x = ''skipped''"
    "ri_status x = ''pending'' \<longleftrightarrow> \<not> tf_complimentary (b_tariff b) \<and> 0 < pc_net (stay_price ae t bd a b) \<and> truthy (stay_folio t a b)
       \<and> \<not> already_posted t bd (hs_charges (ah_house a)) (b_id b)"
  by (auto simp: x_def room_item_def Let_def stay_price_def stay_folio_def)

lemma no_show_item_of [simp]:
  "ri_id (no_show_item ae t bd run n b) = ae_item_id ae n" "ri_run (no_show_item ae t bd run n b) = run"
  "ri_booking (no_show_item ae t bd run n b) = b_id b" "ri_type (no_show_item ae t bd run n b) = ''no_show''"
  "ri_date (no_show_item ae t bd run n b) = bd" "ri_status (no_show_item ae t bd run n b) = ''pending''"
  by (simp_all add: no_show_item_def)

lemma billable_stays_set:
  assumes "length (find_many (\<lambda>b. b_tenant b = t \<and> b_status b = Some ''checked_in'') (bookings d)) \<le> 5000"
  shows "billable_stays t bd d = map candidate_projection (filter (sleeps_in t bd) (bookings d))"
proof -
  have "billable_stays t bd d = filter (\<lambda>b. classify_stay bd b = ActiveStay)
      (map candidate_projection (filter (\<lambda>b. b_tenant b = t \<and> b_status b = Some ''checked_in'') (bookings d)))"
    using assms by (simp add: billable_stays_def partition_stays_def to_list_def find_many_def)
  also have "\<dots> = map candidate_projection (filter (sleeps_in t bd) (bookings d))"
    unfolding sleeps_in_def by (simp add: filter_map comp_def conj_assoc)
  finally show ?thesis .
qed

lemma numbered_Nil [simp]: "numbered f n [] = []"
  by (simp add: numbered_def)

lemma upt_start: "[n..<n + Suc m] = n # [Suc n..<Suc n + m]"
  by (simp add: upt_conv_Cons del: upt_Suc)

lemma numbered_Cons [simp]: "numbered f n (x # xs) = f n x # numbered f (Suc n) xs"
  using upt_start[of n "length xs"] by (simp add: numbered_def del: upt_Suc)

lemma set_numbered: "y \<in> set (numbered f n xs) \<Longrightarrow> \<exists>i. \<exists>x \<in> set xs. y = f i x"
  by (induction xs arbitrary: n) (simp, fastforce)

lemma numbered_mem: "x \<in> set xs \<Longrightarrow> \<exists>i. f i x \<in> set (numbered f n xs)"
  by (induction xs arbitrary: n) auto

lemma map_numbered_left: "(\<And>i x. g (f i x) = h i) \<Longrightarrow> map g (numbered f n xs) = map h [n..<n + length xs]"
  by (induction xs arbitrary: n) (simp_all add: upt_conv_Cons del: upt_Suc)

lemma map_numbered_right: "(\<And>i x. g (f i x) = h x) \<Longrightarrow> map g (numbered f n xs) = map h xs"
  by (induction xs arbitrary: n) simp_all

text \<open>The items of a run, when the cursor's limit is not reached.\<close>

lemma build_candidate_set_items:
  assumes "build_candidate_set ae t bd run a = (a', n)"
    "length (find_many (\<lambda>b. b_tenant b = t \<and> b_status b = Some ''checked_in'') (bookings (hs_db (ah_house a)))) \<le> 5000"
    "distinct (map booking_key (bookings (hs_db (ah_house a))))" "inj (ae_item_id ae)"
  obtains rs ns where "ah_items a' = ah_items a @ rs @ ns" "distinct (map ri_id (rs @ ns))"
    "ri_id ` set (rs @ ns) \<subseteq> range (ae_item_id ae)" "distinct (map ri_booking rs)"
    "\<And>x. x \<in> set rs \<Longrightarrow> \<exists>b \<in> set (bookings (hs_db (ah_house a))). sleeps_in t bd b
          \<and> (\<exists>i. x = room_item ae t bd run (night_rate ae t bd a) a i (candidate_projection b))"
    "\<And>b. b \<in> set (bookings (hs_db (ah_house a))) \<Longrightarrow> sleeps_in t bd b \<Longrightarrow>
          \<exists>i. room_item ae t bd run (night_rate ae t bd a) a i (candidate_projection b) \<in> set rs"
    "\<And>x. x \<in> set ns \<Longrightarrow> \<exists>b \<in> set (no_show_candidates t bd (hs_db (ah_house a))). \<exists>i. x = no_show_item ae t bd run i b"
proof -
  let ?bs = "filter (sleeps_in t bd) (bookings (hs_db (ah_house a)))"
  let ?stays = "map candidate_projection ?bs"
  let ?f = "room_item ae t bd run (night_rate ae t bd a) a"
  define rs where "rs = numbered ?f 0 ?stays"
  define ns where "ns = numbered (no_show_item ae t bd run) (length ?bs) (no_show_candidates t bd (hs_db (ah_house a)))"
  have items: "ah_items a' = ah_items a @ rs @ ns"
    using assms(1) by (auto simp: build_candidate_set_def Let_def billable_stays_set[OF assms(2)] rs_def ns_def night_rate_def)
  have id: "ri_id (?f i b) = ae_item_id ae i" "ri_booking (?f i b) = b_id b" for i b by (simp_all add: room_item_def Let_def)
  have ids: "map ri_id (rs @ ns) = map (ae_item_id ae) [0..<length ?bs + length (no_show_candidates t bd (hs_db (ah_house a)))]"
    unfolding rs_def ns_def map_append
    using map_numbered_left[of ri_id ?f "ae_item_id ae" 0 ?stays, OF id(1)]
      map_numbered_left[of ri_id "no_show_item ae t bd run" "ae_item_id ae" "length ?bs" "no_show_candidates t bd (hs_db (ah_house a))"]
    by (simp add: upt_add_eq_append[of 0])
  have "distinct (map ri_id (rs @ ns))" unfolding ids using inj_on_subset[OF assms(4) subset_UNIV] by (simp add: distinct_map)
  moreover have "ri_id ` set (rs @ ns) \<subseteq> range (ae_item_id ae)" using ids by (metis image_set image_subset_iff list.set_map rangeI imageE)
  moreover have "distinct (map ri_booking rs)"
  proof -
    have "map ri_booking rs = map b_id ?bs"
      unfolding rs_def by (subst map_numbered_right[where h = b_id]) (simp_all add: id comp_def)
    moreover have "distinct (map b_id ?bs)"
    proof -
      have "distinct (map booking_key ?bs)" by (rule distinct_map_filter_key[OF assms(3)])
      moreover have "map booking_key ?bs = map (Pair t) (map b_id ?bs)" by (simp add: booking_key_def sleeps_in_def)
      ultimately show ?thesis using distinct_map by metis
    qed
    ultimately show ?thesis by simp
  qed
  moreover have "\<exists>b \<in> set (bookings (hs_db (ah_house a))). sleeps_in t bd b \<and> (\<exists>i. x = ?f i (candidate_projection b))" if "x \<in> set rs" for x
    using set_numbered[OF that[unfolded rs_def]] by auto
  moreover have "\<exists>i. ?f i (candidate_projection b) \<in> set rs" if "b \<in> set (bookings (hs_db (ah_house a)))" "sleeps_in t bd b" for b
    unfolding rs_def by (rule numbered_mem) (use that in auto)
  moreover have "\<exists>b \<in> set (no_show_candidates t bd (hs_db (ah_house a))). \<exists>i. x = no_show_item ae t bd run i b" if "x \<in> set ns" for x
    using set_numbered[OF that[unfolded ns_def]] by blast
  ultimately show thesis by (rule that[OF items])
qed

section \<open>A closed date has charged exactly its stays\<close>

lemma posting_exact:
  assumes close: "posting_and_close ae run t bd a = (a', None)" and ok: "audit_ok a"
    and ids: "distinct (map ri_id (ah_items a))"
    and uniq: "\<And>x y. x \<in> set (ah_items a) \<Longrightarrow> y \<in> set (ah_items a) \<Longrightarrow> ri_run x = run \<Longrightarrow> ri_run y = run
      \<Longrightarrow> ri_type x = ''room_charge'' \<Longrightarrow> ri_type y = ''room_charge'' \<Longrightarrow> ri_booking x = ri_booking y \<Longrightarrow> ri_id x = ri_id y"
    and fresh: "\<And>x. x \<in> set (ah_items a) \<Longrightarrow> ri_run x = run \<Longrightarrow> ri_status x = ''pending'' \<or> ri_status x = ''skipped''"
    and order: "\<And>xs. mset (ae_order ae xs) = mset xs"
  shows "\<exists>new. hs_charges (ah_house a') = hs_charges (ah_house a) @ new
    \<and> (\<forall>c \<in> set new. \<exists>x \<in> set (ah_items a). ri_run x = run \<and> ri_status x = ''pending'' \<and> charge_from t run c x)
    \<and> (\<forall>x \<in> set (ah_items a). ri_run x = run \<and> ri_status x = ''pending'' \<and> ri_type x = ''room_charge'' \<longrightarrow>
          (\<exists>c \<in> set new. charge_from t run c x) \<or> charged_before t (hs_charges (ah_house a)) x)"
  using close
proof (cases rule: posting_and_close_cases)
  case stopped
  then show ?thesis by simp
next
  case (posted a1 a2 p f s a3)
  let ?xs = "ah_items a" and ?old = "hs_charges (ah_house a)"
  let ?todo = "set (filter (\<lambda>x. ri_run x = run \<and> ri_status x = ''pending'') ?xs)"
  define items where "items = to_list 20000 (find_many (\<lambda>x. ri_run x = run \<and> ri_status x = ''pending'') (ah_items a1))"
  have a1: "ah_items a1 = ?xs" "hs_charges (ah_house a1) = ?old" using posted(1) by simp_all
  have ok1: "audit_ok a1" using posted(1) stage_updates_ok(1)[OF ok legal_stages(3)] by simp
  have todo: "set items \<subseteq> ?todo" unfolding items_def to_list_def find_many_def a1 by (rule set_take_subset)
  have "distinct (map ri_id items)"
    using distinct_map_filter_key[OF ids] unfolding items_def to_list_def find_many_def a1 by (simp add: take_map[symmetric] distinct_take)
  then have dist: "distinct (map ri_id (ae_order ae items))" using order[of items] by (metis mset_eq_imp_distinct_iff mset_map)
  have ys: "set (ae_order ae items) = set items" using order by (metis set_mset_mset)
  have start: "posting_inv t run ?xs ?todo ?old a1" unfolding posting_inv_def a1 by auto
  obtain a2' q g where pi: "post_items ae t run (ae_order ae items) a1 = (a2', q, g)" by (metis prod_cases3)
  then have a2: "a2' = a2" using posted(2) by (simp add: post_charges_def items_def[symmetric])
  have not_posted: "ri_status y \<noteq> ''posted''" if y: "y \<in> set ?xs" "ri_id y \<in> ri_id ` set items" for y
  proof -
    obtain x where "x \<in> set items" "ri_id x = ri_id y" using y(2) by auto
    with todo have "x = y" "ri_run x = run" using distinct_map_key_eq[OF ids] y(1) by auto
    then show ?thesis using fresh[OF y(1)] by auto
  qed
  have inv: "posting_inv t run ?xs ?todo ?old a2"
    using posting_inv_items[OF ids uniq start dist _ _ pi] todo not_posted by (fastforce simp: a1 ys a2)
  have items: "ah_items a2 = ah_items a'" "hs_charges (ah_house a2) = hs_charges (ah_house a')"
    using reconcile_and_roll_result(2)[OF posted(4) refl] posted(3) by (simp_all add: runs_only_frame)
  have fin: "settled (ri_status z)" if "z \<in> set (ah_items a2)" "ri_run z = run" for z
  proof (rule reconcile_settled)
    show "reconcile_run run a3 = None" using reconcile_and_roll_result(2)[OF posted(4) refl] by simp
    have "audit_ok a2" by (rule post_charges_ok[OF ok1 posted(2)])
    then show "\<forall>x \<in> set (ah_items a3). legal_item x" using posted(3) by (simp add: audit_ok_def runs_only_frame)
    show "z \<in> set (ah_items a3)" using that(1) posted(3) by (simp add: runs_only_frame)
  qed (rule that(2))
  obtain new where new: "hs_charges (ah_house a2) = ?old @ new"
      "\<And>c. c \<in> set new \<Longrightarrow> \<exists>x \<in> set (ah_items a2). ri_run x = run \<and> ri_status x = ''posted'' \<and> charge_from t run c x"
    using inv by (auto simp: posting_inv_def)
  have changed: "z \<in> set ?xs \<or> static z \<in> static ` ?todo \<and>
      (ri_status z = ''failed'' \<or> ri_status z = ''posted'' \<and> (ri_type z = ''room_charge'' \<longrightarrow> (\<exists>c \<in> set (?old @ new). charge_from t run c z))
       \<or> charged_before t ?old z)" if "z \<in> set (ah_items a2)" for z
    using bspec[OF conjunct2[OF conjunct2[OF inv[unfolded posting_inv_def]]] that] unfolding new(1) by blast
  have A: "\<exists>x \<in> set ?xs. ri_run x = run \<and> ri_status x = ''pending'' \<and> charge_from t run c x" if c: "c \<in> set new" for c
  proof -
    obtain z where z: "z \<in> set (ah_items a2)" "ri_run z = run" "ri_status z = ''posted''" "charge_from t run c z" using new(2)[OF c] by blast
    have "z \<notin> set ?xs" using fresh[of z] z(2,3) by auto
    then have "static z \<in> static ` ?todo" using changed[OF z(1)] by (simp only: simp_thms)
    then obtain y where y: "static z = static y" "y \<in> ?todo" by (rule imageE)
    then show ?thesis using z(4) charge_from_static[OF y(1)] by auto
  qed
  have B: "(\<exists>c \<in> set new. charge_from t run c x) \<or> charged_before t ?old x"
    if x: "x \<in> set ?xs" "ri_run x = run" "ri_status x = ''pending''" "ri_type x = ''room_charge''" for x
  proof -
    have "static ` set (ah_items a2) = static ` set ?xs"
      using arg_cong[OF conjunct1[OF inv[unfolded posting_inv_def]], of set] unfolding set_map .
    then have "static x \<in> static ` set (ah_items a2)" using x(1) by simp
    then obtain z where z: "static x = static z" "z \<in> set (ah_items a2)" by (rule imageE)
    note zx = static_fields[OF z(1)[symmetric]] charge_from_static[OF z(1)[symmetric]] charged_before_static[OF z(1)[symmetric]]
    have "settled (ri_status z)" using fin[OF z(2)] zx x(2) by simp
    moreover have "z \<notin> set ?xs \<or> z = x" using distinct_map_key_eq[OF ids _ x(1)] zx by auto
    ultimately have "(\<exists>c \<in> set (?old @ new). charge_from t run c x) \<or> charged_before t ?old x"
      using changed[OF z(2)] zx x(3,4) by (auto simp: settled_def)
    then show ?thesis by (auto simp: charge_from_def charged_before_def x(4))
  qed
  show ?thesis
    by (intro exI[of _ new] conjI ballI impI) (simp add: new(1) items(2)[symmetric], erule A, elim conjE, rule B)
qed

text \<open>
  C3.  A live audit that closes a date has charged exactly its stays.  Every chargeable stay of
  the date (checked in, sleeping in, not complimentary, priced, with a folio) has a room charge
  for it: the one it had, or a new one of the full price.  Every new charge belongs to the run
  and the date, and is the priced room charge of a chargeable stay or the fee of a no-show.
\<close>

theorem close_charges_exactly_the_stays:
  assumes "start_night_audit ae t prop date trigger actor skip dry force a = (a', Inr True)"
    and "Option.bind (settings_of t (settings a)) st_date = Some x" "date = Some bd \<or> date = None \<and> prefix_date x = Some bd"
    and "audit_ok a" "distinct (map booking_key (bookings (hs_db (ah_house a))))" "distinct (map ri_id (ah_items a))"
    and "inj (ae_item_id ae)" "\<forall>y \<in> set (ah_items a). ri_run y \<noteq> ae_run_id ae \<and> ri_id y \<notin> range (ae_item_id ae)"
    and "\<forall>xs. mset (ae_order ae xs) = mset xs"
    and "length (find_many (\<lambda>b. b_tenant b = t \<and> b_status b = Some ''checked_in'') (bookings (hs_db (ah_house a)))) \<le> 5000"
  shows "\<exists>new. hs_charges (ah_house a') = hs_charges (ah_house a) @ new
    \<and> (\<forall>b \<in> set (bookings (hs_db (ah_house a))). chargeable ae t bd a b \<longrightarrow>
         (\<exists>c \<in> set (hs_charges (ah_house a)). ch_tenant c = t \<and> ch_booking c = b_id b \<and> ch_business c = Some (date_only bd)
             \<and> ch_type c = ''room_charge'')
         \<or> (\<exists>c \<in> set new. ch_booking c = b_id b \<and> ch_type c = ''room_charge''
             \<and> ch_total c = Some (of_int (pc_total (stay_price ae t bd a b)) / 100)))
    \<and> (\<forall>c \<in> set new. ch_tenant c = t \<and> ch_run c = Some (ae_run_id ae) \<and> ch_business c = Some (date_only bd) \<and> \<not> ch_voided c
         \<and> (\<exists>b \<in> set (bookings (hs_db (ah_house a))). b_tenant b = t \<and> b_id b = ch_booking c
              \<and> (ch_type c = ''room_charge'' \<and> chargeable ae t bd a b
                   \<and> ch_total c = Some (of_int (pc_total (stay_price ae t bd a b)) / 100)
                 \<or> ch_type c = ''no_show_fee'' \<and> b \<in> set (no_show_candidates t bd (hs_db (ah_house a))))))"
  using assms(1,2)
proof (cases rule: start_cases)
  case (refused e)
  then show ?thesis by simp
next
  case (ran bd' b0 a1)
  have bd: "bd' = bd" using ran(1) assms(3) by auto
  have h1: "ah_house a1 = ah_house a" "ah_items a1 = ah_items a" "ah_rates a1 = ah_rates a" "ah_rules a1 = ah_rules a"
    using ran(4) runs_only_frame[OF ran(3)] by (auto simp: insert_run_def split: if_splits)
  have ok1: "audit_ok a1" by (rule ran(6)[OF assms(4)])
  show ?thesis
    using ran(5)
  proof (cases rule: execute_pipeline_cases)
    case (closing a2 a3 a4 n d)
    let ?run = "ae_run_id ae" and ?d = "hs_db (ah_house a)"
    let ?item = "room_item ae t bd ?run (night_rate ae t bd a) a"
    have a3: "ah_house a3 = ah_house a" "ah_items a3 = ah_items a" "ah_rates a3 = ah_rates a" "ah_rules a3 = ah_rules a"
      using runs_only_frame[OF validation_stage_runs[OF closing(1)]] h1 closing(2) by (simp_all add: set_stage_def)
    have same_item: "room_item ae t bd ?run (night_rate ae t bd a3) a3 i b = ?item i b" for i b
      using a3 by (simp add: room_item_def night_rate_def)
    obtain rs ns where I: "ah_items a4 = ah_items a @ rs @ ns" "distinct (map ri_id (rs @ ns))"
        "ri_id ` set (rs @ ns) \<subseteq> range (ae_item_id ae)" "distinct (map ri_booking rs)"
      and R: "\<And>x. x \<in> set rs \<Longrightarrow> \<exists>b \<in> set (bookings ?d). sleeps_in t bd b \<and> (\<exists>i. x = ?item i (candidate_projection b))"
        "\<And>b. b \<in> set (bookings ?d) \<Longrightarrow> sleeps_in t bd b \<Longrightarrow> \<exists>i. ?item i (candidate_projection b) \<in> set rs"
      and N: "\<And>x. x \<in> set ns \<Longrightarrow> \<exists>b \<in> set (no_show_candidates t bd ?d). \<exists>i. x = no_show_item ae t bd ?run i b"
      by (rule build_candidate_set_items[OF closing(3)[unfolded bd], unfolded a3 same_item, OF assms(10,5,7)]) (rule that)
    have h4: "ah_house a4 = ah_house a" using build_candidate_set_frame[OF closing(3)] a3 by simp
    define a5 where "a5 = set_run ?run (\<lambda>r. r\<lparr>ru_candidates := n\<rparr>) a4"
    have a5: "ah_house a5 = ah_house a" "ah_items a5 = ah_items a @ rs @ ns" using h4 I(1) by (simp_all add: a5_def)
    have "d = None" using closing(5) by (cases d) simp_all
    then have close: "posting_and_close ae ?run t bd a5 = (a', None)" using closing(4) bd by (simp add: a5_def)
    have mine: "x \<in> set rs \<or> x \<in> set ns" if "x \<in> set (ah_items a5)" "ri_run x = ?run" for x
      using that assms(8) a5(2) by auto
    have room: "x \<in> set rs" if "x \<in> set (ah_items a5)" "ri_run x = ?run" "ri_type x = ''room_charge''" for x
      using mine[OF that(1,2)] N that(3) by fastforce
    have ids: "distinct (map ri_id (ah_items a5))" using a5(2) I(2,3) assms(6,8) by auto
    obtain new where new: "hs_charges (ah_house a') = hs_charges (ah_house a5) @ new"
      and A: "\<And>c. c \<in> set new \<Longrightarrow> \<exists>x \<in> set (ah_items a5). ri_run x = ?run \<and> ri_status x = ''pending'' \<and> charge_from t ?run c x"
      and B: "\<And>x. x \<in> set (ah_items a5) \<Longrightarrow> ri_run x = ?run \<Longrightarrow> ri_status x = ''pending'' \<Longrightarrow> ri_type x = ''room_charge''
          \<Longrightarrow> (\<exists>c \<in> set new. charge_from t ?run c x) \<or> charged_before t (hs_charges (ah_house a5)) x"
    proof -
      have "\<exists>new. hs_charges (ah_house a') = hs_charges (ah_house a5) @ new
          \<and> (\<forall>c \<in> set new. \<exists>x \<in> set (ah_items a5). ri_run x = ?run \<and> ri_status x = ''pending'' \<and> charge_from t ?run c x)
          \<and> (\<forall>x \<in> set (ah_items a5). ri_run x = ?run \<and> ri_status x = ''pending'' \<and> ri_type x = ''room_charge'' \<longrightarrow>
                (\<exists>c \<in> set new. charge_from t ?run c x) \<or> charged_before t (hs_charges (ah_house a5)) x)"
      proof (rule posting_exact[OF close _ ids])
        show "audit_ok a5" unfolding a5_def by (rule closing(7)[OF ok1])
        show "ri_id x = ri_id y" if "x \<in> set (ah_items a5)" "y \<in> set (ah_items a5)" "ri_run x = ?run" "ri_run y = ?run"
          "ri_type x = ''room_charge''" "ri_type y = ''room_charge''" "ri_booking x = ri_booking y" for x y
          using distinct_map_key_eq[OF I(4) room[OF that(1,3,5)] room[OF that(2,4,6)] that(7)] by simp
        show "ri_status x = ''pending'' \<or> ri_status x = ''skipped''" if "x \<in> set (ah_items a5)" "ri_run x = ?run" for x
          using mine[OF that] R(1) N room_item_of(7) by fastforce
        show "mset (ae_order ae xs) = mset xs" for xs using assms(9) by simp
      qed
      then show thesis using that by blast
    qed
    have stays: "(\<exists>c \<in> set (hs_charges (ah_house a)). ch_tenant c = t \<and> ch_booking c = b_id b \<and> ch_business c = Some (date_only bd) \<and> ch_type c = ''room_charge'')
         \<or> (\<exists>c \<in> set new. ch_booking c = b_id b \<and> ch_type c = ''room_charge'' \<and> ch_total c = Some (of_int (pc_total (stay_price ae t bd a b)) / 100))"
      if b: "b \<in> set (bookings ?d)" "chargeable ae t bd a b" for b
    proof (cases "already_posted t bd (hs_charges (ah_house a)) (b_id b)")
      case True
      then show ?thesis by (auto simp: already_posted_def list_ex_iff)
    next
      case False
      obtain i where i: "?item i (candidate_projection b) \<in> set rs" using R(2)[OF b(1)] b(2) by (auto simp: chargeable_def)
      note f = room_item_of[of ae t bd ?run a i b]
      have "ri_status (?item i (candidate_projection b)) = ''pending''" using f(8) b(2) False by (simp add: chargeable_def)
      from B[OF _ f(2) this f(4)] i a5(2) have
        "(\<exists>c \<in> set new. charge_from t ?run c (?item i (candidate_projection b))) \<or> charged_before t (hs_charges (ah_house a)) (?item i (candidate_projection b))"
        using a5(1) by simp
      then show ?thesis by (auto simp: charge_from_def charged_before_def f)
    qed
    have nobody_else: "ch_tenant c = t \<and> ch_run c = Some ?run \<and> ch_business c = Some (date_only bd) \<and> \<not> ch_voided c
         \<and> (\<exists>b \<in> set (bookings ?d). b_tenant b = t \<and> b_id b = ch_booking c
              \<and> (ch_type c = ''room_charge'' \<and> chargeable ae t bd a b \<and> ch_total c = Some (of_int (pc_total (stay_price ae t bd a b)) / 100)
                 \<or> ch_type c = ''no_show_fee'' \<and> b \<in> set (no_show_candidates t bd ?d)))" if c: "c \<in> set new" for c
    proof -
      obtain x where x: "x \<in> set (ah_items a5)" "ri_run x = ?run" "ri_status x = ''pending''" "charge_from t ?run c x" using A[OF c] by blast
      show ?thesis
      proof (cases "x \<in> set rs")
        case True
        then obtain b i where b: "b \<in> set (bookings ?d)" "sleeps_in t bd b" "x = ?item i (candidate_projection b)" using R(1) by blast
        note f = room_item_of[of ae t bd ?run a i b]
        have "chargeable ae t bd a b" using x(3) b f(8) by (simp add: chargeable_def)
        then show ?thesis using x(4) b f by (auto simp: charge_from_def sleeps_in_def)
      next
        case False
        then obtain b i where b: "b \<in> set (no_show_candidates t bd ?d)" "x = no_show_item ae t bd ?run i b" using mine[OF x(1,2)] N by blast
        then have "b \<in> set (bookings ?d)" "b_tenant b = t" by (auto simp: no_show_candidates_def find_many_def)
        then show ?thesis using x(4) b by (auto simp: charge_from_def)
      qed
    qed
    show ?thesis using new a5(1) stays nobody_else by (intro exI[of _ new]) auto
  qed auto
qed

lemma pipeline_idents:
  assumes "validation_stage ae run t bd skip dry a = (a1, c)" "a2 = set_stage ae run ''candidate_build'' a1"
    "build_candidate_set ae t bd run a2 = (a3, n)"
  shows "map run_ident (ah_runs (set_run run (\<lambda>r. r\<lparr>ru_candidates := k\<rparr>) a3)) = map run_ident (ah_runs a)"
    and "ah_house a3 = ah_house a" "ah_mapping a3 = ah_mapping a" "ah_rates a3 = ah_rates a"
    "\<exists>xs. ah_items a3 = ah_items a @ xs \<and> (\<forall>x \<in> set xs. ri_run x = run)"
proof -
  have 1: "runs_only a a2" unfolding assms(2) by (rule runs_only_trans[OF validation_stage_runs[OF assms(1)]]) auto
  note 3 = build_candidate_set_frame[OF assms(3)]
  have "map run_ident (ah_runs (set_run run (\<lambda>r. r\<lparr>ru_candidates := k\<rparr>) a3)) = map run_ident (ah_runs a3)"
    by (rule set_run_ident) (simp add: run_ident_def)
  then show "map run_ident (ah_runs (set_run run (\<lambda>r. r\<lparr>ru_candidates := k\<rparr>) a3)) = map run_ident (ah_runs a)"
    using 3 runs_only_frame[OF 1] by simp
  show "ah_house a3 = ah_house a" "ah_mapping a3 = ah_mapping a" "ah_rates a3 = ah_rates a"
    "\<exists>xs. ah_items a3 = ah_items a @ xs \<and> (\<forall>x \<in> set xs. ri_run x = run)"
    using 3 runs_only_frame[OF 1] by simp_all
qed



text \<open>
  A simulation changes nothing but the audit's own records: the house (bookings, rooms,
  locks, folios, charges, settings), the channel queues and the rates are as before, the items
  of earlier runs are kept, every new item belongs to the simulation, and it never reports a
  closed date.
\<close>

theorem simulation_changes_nothing:
  assumes "Option.bind (settings_of t (settings a)) st_date = Some x"
    and "start_night_audit ae t prop date trigger actor skip True force a = (a', c)"
  shows "ah_house a' = ah_house a \<and> ah_mapping a' = ah_mapping a \<and> ah_rates a' = ah_rates a \<and> c \<noteq> Inr True
    \<and> (\<exists>xs. ah_items a' = ah_items a @ xs \<and> (\<forall>x \<in> set xs. ri_run x = ae_run_id ae))"
  using assms(2,1)
proof (cases rule: start_cases)
  case (refused e)
  then show ?thesis by (simp add: runs_only_frame)
next
  case (ran bd b a1)
  have h: "ah_house a1 = ah_house a" "ah_items a1 = ah_items a" "ah_mapping a1 = ah_mapping a" "ah_rates a1 = ah_rates a"
    using ran(4) runs_only_frame[OF ran(3)] by (auto simp: insert_run_def split: if_splits)
  from ran(5) show ?thesis
  proof (cases rule: execute_pipeline_cases)
    case (stopped e)
    then show ?thesis using h by (simp add: runs_only_frame)
  next
    case (simulated a2 a3 a4 n)
    then show ?thesis using h pipeline_idents(2-5)[OF simulated(1-3)] by (simp add: runs_only_frame)
  next
    case closing
    then show ?thesis by simp
  qed
qed

lemma at_most_once: "distinct (map k (filter p ys)) \<Longrightarrow> length (filter (\<lambda>y. p y \<and> k y = v) ys) \<le> 1"
  by (induction ys) (auto simp: filter_empty_conv image_iff split: if_splits)

text \<open>
  C6.  Whatever the audits of all hotels do, in any order and with any failures, with the rest of
  the hotel working in between: no booking has two active room charges (or two active no-show
  fees) for one date, and no property has two runs for one date, superseded ones apart.
\<close>

theorem one_charge_per_night:
  assumes "audit_ok a" "audit_step\<^sup>*\<^sup>* a a'"
  shows "(\<forall>k. length (filter (\<lambda>c. indexed_charge c \<and> charge_key c = k) (hs_charges (ah_house a'))) \<le> 1)
    \<and> (\<forall>k. length (filter (\<lambda>r. ru_property r \<noteq> None \<and> run_slot r = k) (ah_runs a')) \<le> 1)"
proof -
  have ok: "audit_ok a'" by (rule audits.run_inv[OF assms(2,1)])
  then show ?thesis
    using at_most_once[of charge_key indexed_charge] at_most_once[of run_slot "\<lambda>r. ru_property r \<noteq> None"]
    unfolding audit_ok_def charges_ok_def runs_ok_def by blast
qed

lemma settled_posts_nothing:
  assumes "\<forall>x \<in> set (ah_items a). ri_run x = run \<longrightarrow> settled (ri_status x)" "\<And>xs. mset (ae_order ae xs) = mset xs"
  shows "post_charges ae t run a = (a, 0, 0, item_count run ''skipped'' a)" "reconcile_run run a = None" "reset_failed run a = a"
proof -
  have none: "filter (\<lambda>x. ri_run x = run \<and> ri_status x = s) (ah_items a) = []" if "s \<notin> {''posted'', ''skipped''}" for s
    using assms(1) that by (auto simp: filter_empty_conv settled_def)
  have "ae_order ae [] = []" using assms(2)[of "[]"] by simp
  then show "post_charges ae t run a = (a, 0, 0, item_count run ''skipped'' a)"
    using none[of "''pending''"] by (simp add: post_charges_def find_many_def to_list_def)
  show "reconcile_run run a = None"
    using none by (simp add: reconcile_run_def item_count_def count_documents_def Let_def)
  have "\<not> (ri_run x = run \<and> ri_status x = ''failed'')" if "x \<in> set (ah_items a)" for x using assms(1) that by (auto simp: settled_def)
  then have "update_many (\<lambda>x. ri_run x = run \<and> ri_status x = ''failed'') (with_status ''pending'' None) (ah_items a) = ah_items a"
    unfolding update_many_def by (intro map_idI) auto
  then show "reset_failed run a = a" by (simp add: reset_failed_def)
qed

lemma settled_run_rolls:
  assumes "\<forall>x \<in> set (ah_items a). ri_run x = run \<longrightarrow> settled (ri_status x)" "\<And>xs. mset (ae_order ae xs) = mset xs"
    "\<And>s. \<not> ae_down ae s" "\<And>q. ae_inbox ae q = q" "mapping_blocked t bd a = None"
  shows "\<exists>a' actor trigger. posting_and_close ae run t bd a = (a', None) \<and> hs_charges (ah_house a') = hs_charges (ah_house a)
    \<and> settings a' = upsert_settings t (roll_settings ae bd run actor trigger) (settings a)"
proof -
  define a1 where "a1 = set_stage ae run ''posting_charges'' a"
  define a3 where "a3 = set_run run (\<lambda>r. r\<lparr>ru_processed := 0, ru_failed := 0, ru_skipped := item_count run ''skipped'' a1\<rparr>) a1"
  define a6 where "a6 = set_stage ae run ''rolling_date'' (set_stage ae run ''reconciling'' a3)"
  have same: "ah_items a3 = ah_items a" "ah_mapping a6 = ah_mapping a" "ah_house a6 = ah_house a" by (simp_all add: a1_def a3_def a6_def)
  have p: "post_charges ae t run a1 = (a1, 0, 0, item_count run ''skipped'' a1)"
    by (rule settled_posts_nothing(1)[OF _ assms(2)]) (use assms(1) in \<open>simp add: a1_def\<close>)
  have r: "reconcile_run run (set_stage ae run ''reconciling'' a3) = None"
    by (rule settled_posts_nothing(2)[OF _ assms(2)]) (use assms(1) in \<open>simp add: same\<close>)
  have "mapping_blocked t bd a6 = None" using assms(5) mapping_blocked_cong[OF same(2)] by simp
  then obtain a7 where 7: "roll_business_date ae t bd run a6 = Some a7" by (auto simp: roll_business_date_def Let_def)
  then obtain actor trigger where a7: "a7 = on_settings (upsert_settings t (roll_settings ae bd run actor trigger)) a6"
    by (auto dest: roll_business_date_Some)
  have "posting_and_close ae run t bd a = reconcile_and_roll ae run t bd a3"
    using assms(3,5) p by (simp add: posting_and_close_def a1_def[symmetric] a3_def)
  also have "\<dots> = (complete_run ae run a7, None)"
    using assms(3,4) r 7 by (simp add: reconcile_and_roll_def a6_def)
  finally show ?thesis using a7 same(3) by auto
qed

text \<open>
  The way a blocked run resumes loses the night.  A live run stopped by validation has no
  items yet, and an aborted one only settled items; when its blockers are gone and nothing
  fails, resuming it closes the date: the business date moves on, although not one charge was
  posted.
\<close>

theorem blocked_resume_charges_nothing:
  assumes "find_one (\<lambda>r. ru_id r = run \<and> ru_tenant r = t) (ah_runs a) = Some r" "ru_status r \<in> {''blocked'', ''failed''}" "\<not> ru_dry r"
    and "\<forall>x \<in> set (ah_items a). ri_run x = run \<longrightarrow> ri_status x = ''posted'' \<or> ri_status x = ''skipped''"
    and "resume_blockers ae t r (reopen_run ae run r a) = []" "mapping_blocked t (ru_date r) a = None"
    and "\<forall>s. \<not> ae_down ae s" "\<forall>q. ae_inbox ae q = q" "\<forall>xs. mset (ae_order ae xs) = mset xs"
  shows "\<exists>a' s. resume_night_audit ae t run a = (a', Inr True) \<and> hs_charges (ah_house a') = hs_charges (ah_house a)
    \<and> settings_of t (settings a') = Some s \<and> st_date s = Some (date_only (ru_date r + 1))"
proof -
  have set: "\<forall>x \<in> set (ah_items a). ri_run x = run \<longrightarrow> settled (ri_status x)" using assms(4) by (simp add: settled_def)
  have reset: "reset_failed run a = a" by (rule settled_posts_nothing(3)[OF set, of ae]) (use assms(9) in simp)
  let ?a2 = "set_run run (restart_run ae) (reopen_run ae run r a)"
  have ro: "runs_only a ?a2" using reopened_runs(2)[of run a ae r] reset by simp
  have mb: "mapping_blocked t (ru_date r) ?a2 = None" using assms(6) mapping_blocked_cong[OF runs_only_frame(3)[OF ro]] by simp
  obtain a' actor trigger where c: "posting_and_close ae run t (ru_date r) ?a2 = (a', None)"
      "hs_charges (ah_house a') = hs_charges (ah_house ?a2)"
      "settings a' = upsert_settings t (roll_settings ae (ru_date r) run actor trigger) (settings ?a2)"
    using settled_run_rolls[of ?a2 run ae t "ru_date r"] set assms(7-9) mb runs_only_frame[OF ro] by auto
  have "resume_night_audit ae t run a = (a', Inr True)"
    using assms(1-3,5,7) reset c(1) by (auto simp: resume_night_audit_def Let_def)
  then show ?thesis using c(2,3) upsert_settings_result runs_only_frame(1)[OF ro] by (metis (no_types, lifting))
qed


section \<open>What the audit does not see\<close>

text \<open>The query of the candidates does not load the nightly plans, so no booking has one.\<close>

lemma candidate_has_no_plan: "booking_daily_rate_plan (candidate_projection b) = None"
  by (auto simp: booking_daily_rate_plan_def exely_daily_rate_plan_def verified_plan_def candidate_projection_def split: option.splits)

text \<open>An arrival of the date itself, stored with its time, is not among the no-shows.\<close>

lemma same_day_arrival_missed:
  "b_check_in b = Some (Iso bd s) \<Longrightarrow> 0 \<le> s \<Longrightarrow> b \<notin> set (no_show_candidates t bd d)"
  by (simp add: no_show_candidates_def find_many_def iso_le_def iso_less_def date_only_def)

text \<open>A no-show makes its room available, whoever is in it.\<close>

lemma no_show_frees_any_room:
  assumes "ri_room x = Some i" "i \<noteq> []" "find_one (is_room t i) (rooms (hs_db h)) = Some r"
  shows "find_one (is_room t i) (rooms (hs_db (no_show_posting ae t run x h))) = Some (r\<lparr>r_status := ''available'', r_current := None\<rparr>)"
  using find_one_update[OF assms(3), of "\<lambda>r. r\<lparr>r_status := ''available'', r_current := None\<rparr>"] assms(1,2)
  by (simp add: no_show_posting_def on_rooms_def on_bookings_def add_charge_def is_room_def Let_def)

section \<open>An audit of one stay\<close>

definition audit_day :: audit_house where
  "audit_day = \<lparr>ah_house = small_house in_house, ah_runs = [], ah_items = [], ah_mapping = [], ah_rates = [], ah_rules = [],
     ah_schedules = []\<rparr>"

definition night_shift :: audit_env where
  "night_shift = \<lparr>ae_now = 0, ae_zones = (\<lambda>z. Some (\<lambda>t. 100)), ae_run_id = ''run1'', ae_item_id = (\<lambda>n. replicate n CHR ''i''),
     ae_charge_id = (\<lambda>x. ''c1''), ae_tax_up = True, ae_pos = Some 0, ae_down = (\<lambda>s. False), ae_fails = (\<lambda>x. False),
     ae_order = (\<lambda>xs. xs), ae_inbox = (\<lambda>q. q)\<rparr>"

abbreviation audit_99 :: "bool \<Rightarrow> audit_house \<times> (audit_code + bool)" where
  "audit_99 dry \<equiv> start_night_audit night_shift ''t1'' None (Some 99) ''manual'' ''u1'' False dry False audit_day"

lemma audit_99_closes: "snd (audit_99 False) = Inr True"
  by code_simp

lemma audit_99_simulates: "snd (audit_99 True) = Inr False"
  by code_simp

lemma chargeable_99: "chargeable night_shift ''t1'' 99 audit_day in_house"
  by code_simp

lemma price_99: "pc_total (stay_price night_shift ''t1'' 99 audit_day in_house) = 15000"
  by code_simp

text \<open>
  The guest had not arrived when the audit ran, so that validation blocked the run; now he is
  checked in.
\<close>

definition blocked_run :: na_run where
  "blocked_run = (new_run night_shift ''t1'' default_property 99 ''manual'' ''u1'' False)\<lparr>ru_status := ''blocked''\<rparr>"

definition blocked_day :: audit_house where
  "blocked_day = audit_day\<lparr>ah_runs := [blocked_run]\<rparr>"

lemma audit_day_ok: "audit_ok audit_day" "Option.bind (settings_of ''t1'' (settings audit_day)) st_date = Some (date_only 100)"
  by code_simp+

lemma night_shift_fields: "ae_run_id night_shift = ''run1''" "inj (ae_item_id night_shift)" "ae_order night_shift xs = xs"
  "\<not> ae_down night_shift s" "ae_inbox night_shift q = q"
  by (auto simp: night_shift_def inj_def)

lemma audit_day_fields: "ah_runs audit_day = []" "ah_items audit_day = []" "bookings (hs_db (ah_house audit_day)) = [in_house]"
  "hs_charges (ah_house audit_day) = []"
  by (simp_all add: audit_day_def)

theorem one_charge_per_night_witness:
  "\<exists>a'. audit_99 False = (a', Inr True)
     \<and> length (filter (\<lambda>c. indexed_charge c \<and> charge_key c = (''t1'', ''bk1'', Some (date_only 99), ''room_charge'')) (hs_charges (ah_house a'))) \<le> 1"
proof -
  obtain a' where a': "audit_99 False = (a', Inr True)" using audit_99_closes by (metis prod.collapse)
  have "audit_step\<^sup>*\<^sup>* audit_day a'" by (rule r_into_rtranclp, rule audit_step.start[OF a'])
  from one_charge_per_night[OF audit_day_ok(1) this] show ?thesis using a' by blast
qed



theorem simulation_changes_nothing_witness:
  "\<exists>a'. audit_99 True = (a', Inr False) \<and> ah_house a' = ah_house audit_day"
proof -
  obtain a' where a': "audit_99 True = (a', Inr False)" using audit_99_simulates by (metis prod.collapse)
  from simulation_changes_nothing[OF audit_day_ok(2) a'] show ?thesis using a' by blast
qed

theorem close_charges_exactly_the_stays_witness:
  "\<exists>a' c. audit_99 False = (a', Inr True) \<and> c \<in> set (hs_charges (ah_house a')) \<and> ch_booking c = ''bk1'' \<and> ch_total c = Some 150"
proof -
  obtain a' where a': "audit_99 False = (a', Inr True)" using audit_99_closes by (metis prod.collapse)
  have limits: "Some (99::int) = Some 99 \<or> Some (99::int) = None \<and> prefix_date (date_only 100) = Some 99"
    "distinct (map booking_key (bookings (hs_db (ah_house audit_day))))" "distinct (map ri_id (ah_items audit_day))"
    "\<forall>y \<in> set (ah_items audit_day). ri_run y \<noteq> ae_run_id night_shift \<and> ri_id y \<notin> range (ae_item_id night_shift)"
    "\<forall>xs. mset (ae_order night_shift xs) = mset xs"
    "length (find_many (\<lambda>b. b_tenant b = ''t1'' \<and> b_status b = Some ''checked_in'') (bookings (hs_db (ah_house audit_day)))) \<le> 5000"
    by (simp_all add: audit_day_fields night_shift_fields find_many_def)
  from close_charges_exactly_the_stays[OF a' audit_day_ok(2) limits(1) audit_day_ok(1) limits(2,3) night_shift_fields(2) limits(4-6)]
  obtain new where new: "hs_charges (ah_house a') = ([] :: charge list) @ new"
      "\<forall>b \<in> set [in_house]. chargeable night_shift ''t1'' 99 audit_day b \<longrightarrow>
         (\<exists>c \<in> set ([] :: charge list). ch_tenant c = ''t1'' \<and> ch_booking c = b_id b \<and> ch_business c = Some (date_only 99) \<and> ch_type c = ''room_charge'')
         \<or> (\<exists>c \<in> set new. ch_booking c = b_id b \<and> ch_type c = ''room_charge''
             \<and> ch_total c = Some (of_int (pc_total (stay_price night_shift ''t1'' 99 audit_day b)) / 100))"
    unfolding audit_day_fields by (elim exE conjE) (rule that, assumption+)
  then obtain c where "c \<in> set new" "ch_booking c = ''bk1''" "ch_total c = Some 150" using chargeable_99 price_99 by auto
  then show ?thesis using a' new(1) by auto
qed

theorem blocked_resume_charges_nothing_witness:
  "\<exists>a' s. resume_night_audit night_shift ''t1'' ''run1'' blocked_day = (a', Inr True) \<and> hs_charges (ah_house a') = []
     \<and> settings_of ''t1'' (settings a') = Some s \<and> st_date s = Some (date_only 100)"
proof -
  have "resume_blockers night_shift ''t1'' blocked_run (reopen_run night_shift ''run1'' blocked_run blocked_day) = []"
    "mapping_blocked ''t1'' (ru_date blocked_run) blocked_day = None"
    by code_simp+
  moreover have r: "ru_id blocked_run = ''run1''" "ru_tenant blocked_run = ''t1''" "ru_status blocked_run = ''blocked''" "\<not> ru_dry blocked_run"
    "ru_date blocked_run = 99" "ah_runs blocked_day = [blocked_run]" "ah_items blocked_day = []" "hs_charges (ah_house blocked_day) = []"
    by (simp_all add: blocked_run_def new_run_def night_shift_fields blocked_day_def audit_day_fields)
  ultimately show ?thesis
    using blocked_resume_charges_nothing[of "''run1''" "''t1''" blocked_day blocked_run night_shift] night_shift_fields
    by (simp add: find_one_list)
qed

end
