(* ===== verification/AuditChain.thy ===== *)
theory AuditChain
  imports Store "HOL-Library.Multiset"
begin

text \<open>
  The tamper-evident chain of audit rows (core/audit_chain.py, shared_kernel/audit_helper.py).

  Each row of a tenant carries a sequence number, the hash of the row before it and its own hash;
  the newest number and hash are kept in a state document that advances by compare-and-swap on
  the number.  \<open>sha\<close> is SHA-256 on the canonical JSON of the hashed fields, the number and the
  previous hash, with values in a type \<open>'h\<close>; the empty previous hash is \<open>None\<close>.  A snapshot in a
  row is a value like the others (its canonical text).  \<open>between\<close> is what other writers do to the
  state document between the reading and the compare-and-swap of one attempt.

  The lemmas: a step relation of any number of writers and the retention task keeps one gapless
  chain (an interpretation of \<open>invariant_system\<close>); appending among other writers; the verifier
  accepts every honest store and, without hash collisions, only the rows that were written; and
  examples of what it overlooks or reports wrongly.
\<close>

section \<open>Data\<close>

record 'h log_row =
  lr_tenant :: "string option"
  lr_time :: "instant option"
  lr_fields :: "(string \<times> jval) list"
  lr_seq :: "int option"
  lr_prev :: "'h option"
  lr_hash :: "'h option"

definition seal :: "'h log_row \<Rightarrow> int \<Rightarrow> 'h option \<Rightarrow> 'h \<Rightarrow> 'h log_row" where
  "seal r seq prev h = r\<lparr>lr_seq := Some seq, lr_prev := prev, lr_hash := Some h\<rparr>"

record 'h chain_state =
  cs_seq :: "int option"
  cs_last :: "'h option"

type_synonym 'h digest = "jval list \<times> int \<times> 'h option \<Rightarrow> 'h"

definition hashed_fields :: "string list" where
  "hashed_fields =
     [''tenant_id'', ''actor_id'', ''operation_name'', ''action'', ''target_type'', ''entity_type'', ''target_id'', ''entity_id'',
      ''result_status'', ''severity'', ''before_snapshot'', ''after_snapshot'', ''ip_address'', ''user_agent'', ''timestamp'']"

text \<open>\<open>entry.get(k)\<close>: a missing field and a null are the same.\<close>

definition field :: "'h log_row \<Rightarrow> string \<Rightarrow> jval" where
  "field r k =
     (if k = ''tenant_id'' then (case lr_tenant r of None \<Rightarrow> JNull | Some t \<Rightarrow> JStr t)
      else if k = ''timestamp'' then (case lr_time r of None \<Rightarrow> JNull | Some t \<Rightarrow> JTime t)
      else get_default JNull (map_of (lr_fields r) k))"

definition compute_record_hash :: "'h digest \<Rightarrow> 'h log_row \<Rightarrow> int \<Rightarrow> 'h option \<Rightarrow> 'h" where
  "compute_record_hash sha r seq prev = sha (map (field r) hashed_fields, seq, prev)"

section \<open>Writing a row\<close>

text \<open>The entry of the helper; \<open>extra\<close> are the fields of the row that no hash covers.\<close>

definition build_audit_entry ::
  "instant \<Rightarrow> string option \<Rightarrow> string \<Rightarrow> string \<Rightarrow> string \<Rightarrow> string \<Rightarrow> (string \<times> jval) list \<Rightarrow> 'h log_row" where
  "build_audit_entry t0 actor tenant entity_type entity action extra =
     \<lparr>lr_tenant = Some tenant, lr_time = Some t0,
      lr_fields = [(''actor_id'', case actor of None \<Rightarrow> JNull | Some a \<Rightarrow> JStr a), (''entity_type'', JStr entity_type),
        (''entity_id'', JStr entity), (''action'', JStr action), (''target_type'', JStr entity_type), (''target_id'', JStr entity),
        (''operation_name'', JStr action), (''result_status'', JStr ''success''), (''severity'', JStr ''info'')] @ extra,
      lr_seq = None, lr_prev = None, lr_hash = None\<rparr>"

text \<open>\<open>not entry.get(field) and value\<close>.\<close>

definition falsy_value :: "jval \<Rightarrow> bool" where
  "falsy_value v \<longleftrightarrow> v = JNull \<or> v = JStr [] \<or> v = JBool False \<or> v = JInt 0"

definition fill_field :: "string \<times> string option \<Rightarrow> 'h log_row \<Rightarrow> 'h log_row" where
  "fill_field kv r =
     (if falsy_value (field r (fst kv)) \<and> truthy (snd kv)
      then r\<lparr>lr_fields := (fst kv, JStr (get_default [] (snd kv))) # filter (\<lambda>p. fst p \<noteq> fst kv) (lr_fields r)\<rparr> else r)"

text \<open>The request's address and device are filled in before the row is sealed.\<close>

definition attribute_audit_entry :: "string option \<Rightarrow> string option \<Rightarrow> 'h log_row \<Rightarrow> 'h log_row" where
  "attribute_audit_entry ip agent r =
     (if lr_hash r \<noteq> None then r else fill_field (''user_agent'', agent) (fill_field (''ip_address'', ip) r))"

datatype 'h link = Linked int "'h option" 'h | Lost | DuplicateState

text \<open>
  One attempt: \<open>s\<close> is the state that was read, \<open>c\<close> the state when the update arrives.  The
  upsert of the first state does not match a document that has a number; it then tries to
  insert a second document under the same \<open>_id\<close>, which raises.
\<close>

definition link_attempt ::
  "'h digest \<Rightarrow> 'h log_row \<Rightarrow> 'h chain_state option \<Rightarrow> 'h chain_state option \<Rightarrow> 'h chain_state option \<times> 'h link" where
  "link_attempt sha e s c =
     (case s of
        None \<Rightarrow>
          (let h = compute_record_hash sha e 1 None in
           if (case c of None \<Rightarrow> True | Some d \<Rightarrow> cs_seq d = None)
           then (Some \<lparr>cs_seq = Some 1, cs_last = Some h\<rparr>, Linked 1 None h)
           else (c, DuplicateState))
      | Some st \<Rightarrow>
          (let cur = get_default 0 (cs_seq st); prev = cs_last st; h = compute_record_hash sha e (cur + 1) prev in
           if (case c of None \<Rightarrow> False | Some d \<Rightarrow> cs_seq d = Some cur)
           then (Some \<lparr>cs_seq = Some (cur + 1), cs_last = Some h\<rparr>, Linked (cur + 1) prev h)
           else (c, Lost)))"

datatype link_error = Contention | GenesisRace

fun link_loop ::
  "'h digest \<Rightarrow> (nat \<Rightarrow> 'h chain_state option \<Rightarrow> 'h chain_state option) \<Rightarrow> 'h log_row \<Rightarrow> nat \<Rightarrow> 'h chain_state option \<Rightarrow>
   'h chain_state option \<times> (link_error + int \<times> 'h option \<times> 'h)" where
  "link_loop sha between e 0 c = (c, Inl Contention)"
| "link_loop sha between e (Suc n) c =
     (case link_attempt sha e c (between n c) of
        (c1, Linked seq prev h) \<Rightarrow> (c1, Inr (seq, prev, h))
      | (c1, DuplicateState) \<Rightarrow> (c1, Inl GenesisRace)
      | (c1, Lost) \<Rightarrow> link_loop sha between e n c1)"

definition link_chain ::
  "'h digest \<Rightarrow> (nat \<Rightarrow> 'h chain_state option \<Rightarrow> 'h chain_state option) \<Rightarrow> 'h log_row \<Rightarrow> 'h chain_state option \<Rightarrow>
   'h chain_state option \<times> (link_error + int \<times> 'h option \<times> 'h)" where
  "link_chain sha between e c = link_loop sha between e 8 c"

text \<open>The state documents by tenant, the hot collection and the archive.\<close>

record 'h audit_store =
  as_states :: "string \<Rightarrow> 'h chain_state option"
  as_hot :: "'h log_row list"
  as_archive :: "'h log_row list"

datatype append_error = NoTenant | LinkFailed link_error

definition append_audit_log ::
  "'h digest \<Rightarrow> (nat \<Rightarrow> 'h chain_state option \<Rightarrow> 'h chain_state option) \<Rightarrow> string option \<Rightarrow> string option \<Rightarrow> bool \<Rightarrow> 'h log_row \<Rightarrow>
   'h audit_store \<Rightarrow> 'h audit_store \<times> (append_error + 'h log_row)" where
  "append_audit_log sha between ip agent require_chain entry d =
     (let e = attribute_audit_entry ip agent entry in
      if \<not> truthy (lr_tenant e) then
        (if require_chain then (d, Inl NoTenant) else (d\<lparr>as_hot := as_hot d @ [e]\<rparr>, Inr e))
      else
        (let t = get_default [] (lr_tenant e); (c, result) = link_chain sha between e (as_states d t);
             d1 = d\<lparr>as_states := (as_states d)(t := c)\<rparr>
         in case result of
              Inr (seq, prev, h) \<Rightarrow>
                (let r = seal e seq prev h in (d1\<lparr>as_hot := as_hot d1 @ [r]\<rparr>, Inr r))
            | Inl err \<Rightarrow>
                if require_chain then (d1, Inl (LinkFailed err)) else (d1\<lparr>as_hot := as_hot d1 @ [e]\<rparr>, Inr e)))"

section \<open>Verifying a chain\<close>

datatype chain_break =
  ContentHashMismatch "int option" | PrevHashMismatch "int option" | TipMismatch "int option" | StateChangedWithoutAppend
| InvalidSequences nat | UnchainedAfterGenesis nat

definition chained_of :: "string \<Rightarrow> 'h log_row \<Rightarrow> bool" where
  "chained_of t r \<longleftrightarrow> lr_tenant r = Some t \<and> lr_hash r \<noteq> None"

definition unchained_of :: "string \<Rightarrow> 'h log_row \<Rightarrow> bool" where
  "unchained_of t r \<longleftrightarrow> lr_tenant r = Some t \<and> lr_hash r = None"

definition valid_horizon :: "int option \<Rightarrow> bool" where
  "valid_horizon n \<longleftrightarrow> (case n of None \<Rightarrow> False | Some k \<Rightarrow> 0 \<le> k)"

text \<open>The rows of one collection up to the horizon, by number, as many as the limit.\<close>

definition seq_key :: "'h log_row \<Rightarrow> int" where
  "seq_key r = get_default 0 (lr_seq r)"

definition read_part :: "string \<Rightarrow> int \<Rightarrow> nat \<Rightarrow> 'h log_row list \<Rightarrow> 'h log_row list" where
  "read_part t bound limit rs =
     to_list limit (sort_key seq_key (find_many (\<lambda>r. chained_of t r \<and> (case lr_seq r of None \<Rightarrow> False | Some n \<Rightarrow> n \<le> bound)) rs))"

fun first_of_seq :: "int set \<Rightarrow> 'h log_row list \<Rightarrow> 'h log_row list" where
  "first_of_seq seen [] = []"
| "first_of_seq seen (r # rs) =
     (if seq_key r \<in> seen then first_of_seq seen rs else r # first_of_seq (insert (seq_key r) seen) rs)"

definition chain_rows :: "string \<Rightarrow> int \<Rightarrow> nat \<Rightarrow> 'h log_row list \<Rightarrow> 'h log_row list \<Rightarrow> 'h log_row list" where
  "chain_rows t bound limit hot archive =
     first_of_seq {} (sort_key seq_key (read_part t bound limit hot @ read_part t bound limit archive))"

text \<open>The walk over the rows: content, and the link to the row before (none for the first).\<close>

fun walk :: "'h digest \<Rightarrow> 'h option \<Rightarrow> 'h log_row list \<Rightarrow> chain_break list" where
  "walk sha p [] = []"
| "walk sha p (r # rs) =
     (if Some (compute_record_hash sha r (seq_key r) (lr_prev r)) \<noteq> lr_hash r then [ContentHashMismatch (lr_seq r)] else [])
     @ (if p \<noteq> None \<and> lr_prev r \<noteq> p then [PrevHashMismatch (lr_seq r)] else [])
     @ walk sha (lr_hash r) rs"

fun genesis_time :: "'h log_row list \<Rightarrow> instant option" where
  "genesis_time [] = None"
| "genesis_time (r # rs) = (case lr_time r of None \<Rightarrow> genesis_time rs | Some t \<Rightarrow> Some t)"

definition count_rows :: "('h log_row \<Rightarrow> bool) \<Rightarrow> 'h log_row list \<Rightarrow> 'h log_row list \<Rightarrow> nat" where
  "count_rows p hot archive = count_documents p hot + count_documents p archive"

definition at_or_after :: "instant \<Rightarrow> 'h log_row \<Rightarrow> bool" where
  "at_or_after g r \<longleftrightarrow> (case lr_time r of None \<Rightarrow> False | Some t \<Rightarrow> g \<le> t)"

definition before_time :: "instant \<Rightarrow> 'h log_row \<Rightarrow> bool" where
  "before_time g r \<longleftrightarrow> (case lr_time r of None \<Rightarrow> False | Some t \<Rightarrow> t < g)"

text \<open>Has the state document moved without an append since the scan began?\<close>

definition state_changed :: "'h chain_state option \<Rightarrow> 'h chain_state option \<Rightarrow> bool" where
  "state_changed s0 s1 =
     (case s0 of
        None \<Rightarrow> False
      | Some st \<Rightarrow>
          if valid_horizon (cs_seq st)
          then (case s1 of
                  None \<Rightarrow> True
                | Some l \<Rightarrow>
                    (case (cs_seq l, cs_seq st) of
                       (Some m, Some n) \<Rightarrow> m < n \<or> m = n \<and> cs_last l \<noteq> cs_last st
                     | _ \<Rightarrow> True))
          else True)"

record verification =
  vr_ok :: bool
  vr_checked :: nat
  vr_breaks :: "chain_break list"
  vr_last :: "int option"
  vr_unverifiable :: nat
  vr_legacy :: nat
  vr_truncated :: bool
  vr_as_of :: "int option"
  vr_latest :: "int option"
  vr_concurrent :: bool
  vr_degraded :: bool

text \<open>\<open>s0\<close> is the state when the scan begins, \<open>s1\<close> when it ends.\<close>

definition verify_chain ::
  "'h digest \<Rightarrow> string \<Rightarrow> nat \<Rightarrow> 'h chain_state option \<Rightarrow> 'h log_row list \<Rightarrow> 'h log_row list \<Rightarrow> 'h chain_state option \<Rightarrow> verification" where
  "verify_chain sha t limit s0 hot archive s1 =
     (let as_of = Option.bind s0 cs_seq; valid = valid_horizon as_of; bound = (if valid then get_default 0 as_of else 0);
          rows = chain_rows t bound limit hot archive;
          truncated = (limit \<le> length (read_part t bound limit hot) \<or> limit \<le> length (read_part t bound limit archive));
          last_seq = (if rows = [] then None else lr_seq (last rows));
          last_hash = (if rows = [] then None else lr_hash (last rows));
          invalid = count_rows (\<lambda>r. chained_of t r \<and> (case lr_seq r of None \<Rightarrow> True | Some n \<Rightarrow> n < 1)) hot archive;
          orphans = (if valid then 0 else count_rows (chained_of t) hot archive);
          (unverifiable, legacy) =
            (case genesis_time rows of
               None \<Rightarrow> (0, count_rows (unchained_of t) hot archive)
             | Some g \<Rightarrow> (count_rows (\<lambda>r. unchained_of t r \<and> at_or_after g r) hot archive,
                         count_rows (\<lambda>r. unchained_of t r \<and> before_time g r) hot archive));
          tip = (case s0 of None \<Rightarrow> []
                 | Some st \<Rightarrow> if \<not> truncated \<and> (cs_seq st \<noteq> last_seq \<or> cs_last st \<noteq> last_hash) then [TipMismatch last_seq] else []);
          latest = Option.bind s1 cs_seq;
          breaks = walk sha None rows @ tip @ (if state_changed s0 s1 then [StateChangedWithoutAppend] else [])
                   @ (if 0 < invalid then [InvalidSequences invalid] else [])
                   @ (if 0 < unverifiable then [UnchainedAfterGenesis unverifiable] else []);
          degraded = (\<not> valid \<and> (s0 \<noteq> None \<or> s1 \<noteq> None \<or> rows \<noteq> [] \<or> 0 < orphans))
      in \<lparr>vr_ok = (breaks = [] \<and> \<not> degraded), vr_checked = length rows, vr_breaks = breaks, vr_last = last_seq,
          vr_unverifiable = unverifiable, vr_legacy = legacy, vr_truncated = truncated, vr_as_of = as_of, vr_latest = latest,
          vr_concurrent = (valid \<and> (case latest of None \<Rightarrow> False | Some l \<Rightarrow> get_default 0 as_of < l)), vr_degraded = degraded\<rparr>)"

section \<open>Hash chains\<close>

text \<open>A hash chain from the number \<open>n\<close> and the previous hash \<open>p\<close> on, and the state document it ends in.\<close>

fun chain_from :: "'h digest \<Rightarrow> int \<Rightarrow> 'h option \<Rightarrow> 'h log_row list \<Rightarrow> bool" where
  "chain_from sha n p [] = True"
| "chain_from sha n p (r # rs) =
     (lr_seq r = Some n \<and> lr_prev r = p \<and> lr_hash r = Some (compute_record_hash sha r n p) \<and> chain_from sha (n + 1) (lr_hash r) rs)"

definition hash_chain :: "'h digest \<Rightarrow> 'h log_row list \<Rightarrow> bool" where
  "hash_chain sha rs \<longleftrightarrow> chain_from sha 1 None rs"

definition chain_tip :: "'h log_row list \<Rightarrow> 'h chain_state option" where
  "chain_tip rs = (if rs = [] then None else Some \<lparr>cs_seq = Some (int (length rs)), cs_last = lr_hash (last rs)\<rparr>)"

lemma chain_from_append:
  "chain_from sha n p (xs @ ys) \<longleftrightarrow>
     chain_from sha n p xs \<and> chain_from sha (n + int (length xs)) (if xs = [] then p else lr_hash (last xs)) ys"
  by (induction xs arbitrary: n p) (auto simp: algebra_simps)

lemma chain_from_take: "chain_from sha n p xs \<Longrightarrow> chain_from sha n p (take k xs)"
  by (metis append_take_drop_id chain_from_append)

lemma chain_from_nth:
  "chain_from sha n p xs \<Longrightarrow> i < length xs \<Longrightarrow> lr_seq (xs ! i) = Some (n + int i) \<and> lr_hash (xs ! i) \<noteq> None"
  by (induction xs arbitrary: n p i) (auto simp: nth_Cons split: nat.splits)

lemmas hash_chain_nth = chain_from_nth[where n = 1 and p = None, folded hash_chain_def]

lemma hash_chain_sealed: "hash_chain sha h \<Longrightarrow> r \<in> set h \<Longrightarrow> lr_hash r \<noteq> None"
  by (metis hash_chain_nth in_set_conv_nth)

lemma hash_chain_take: "hash_chain sha h \<Longrightarrow> hash_chain sha (take k h)"
  by (simp add: hash_chain_def chain_from_take)

lemma seq_key_nth: "hash_chain sha h \<Longrightarrow> i < length h \<Longrightarrow> seq_key (h ! i) = 1 + int i"
  by (simp add: seq_key_def hash_chain_nth)

lemma map_seq_key_chain: "hash_chain sha h \<Longrightarrow> map seq_key h = map (\<lambda>i. 1 + int i) [0..<length h]"
  by (intro nth_equalityI) (auto simp: seq_key_nth)

lemma seq_keys_chain:
  assumes "hash_chain sha h"
  shows "sorted (map seq_key h) \<and> distinct (map seq_key h)"
  unfolding map_seq_key_chain[OF assms] by (auto simp: sorted_iff_nth_mono distinct_conv_nth)

lemma inj_on_seq_key: "hash_chain sha h \<Longrightarrow> inj_on seq_key (set h)"
  using seq_keys_chain by (auto simp: distinct_map)

lemma mem_chain_take:
  assumes "hash_chain sha h" "k \<le> length h"
  shows "r \<in> set (take k h) \<longleftrightarrow> r \<in> set h \<and> seq_key r \<le> int k"
proof
  assume "r \<in> set (take k h)"
  then obtain i where "i < k" "i < length h" "r = h ! i" by (auto simp: in_set_conv_nth)
  then show "r \<in> set h \<and> seq_key r \<le> int k" using seq_key_nth[OF assms(1), of i] by auto
next
  assume "r \<in> set h \<and> seq_key r \<le> int k"
  then obtain i where "i < length h" "r = h ! i" "seq_key (h ! i) \<le> int k" by (auto simp: in_set_conv_nth)
  then show "r \<in> set (take k h)" using seq_key_nth[OF assms(1), of i] by (auto simp: in_set_conv_nth)
qed

lemma hash_chain_snoc:
  assumes "hash_chain sha h" "lr_seq r = Some (int (length h) + 1)" "lr_prev r = (if h = [] then None else lr_hash (last h))"
    and "lr_hash r = Some (compute_record_hash sha r (int (length h) + 1) (lr_prev r))"
  shows "hash_chain sha (h @ [r])"
  using assms by (simp add: hash_chain_def chain_from_append add.commute)

section \<open>Any number of writers\<close>

lemma field_seal [simp]: "field (seal r n p h) = field r"
  by (intro ext) (simp add: field_def seal_def)

lemma hash_seal [simp]: "compute_record_hash sha (seal r n p h) = compute_record_hash sha r"
  by (intro ext) (simp add: compute_record_hash_def)

lemma seal_sel [simp]:
  "lr_seq (seal r n p h) = Some n" "lr_prev (seal r n p h) = p" "lr_hash (seal r n p h) = Some h"
  "lr_tenant (seal r n p h) = lr_tenant r" "lr_time (seal r n p h) = lr_time r"
  by (simp_all add: seal_def)

lemma chain_tip_take_eq:
  assumes "k \<le> length h" "chain_tip (take k h) = Some s" "cs_seq s = Some (int (length h))"
  shows "take k h = h"
  using assms by (auto simp: chain_tip_def split: if_splits)

text \<open>An attempt that read the tip of an earlier part of the chain extends the chain, or changes nothing.\<close>

lemma link_attempt_chain:
  assumes h: "hash_chain sha h" and k: "k \<le> length h" and a: "link_attempt sha e (chain_tip (take k h)) (chain_tip h) = (c, r)"
  shows "case r of Linked n p v \<Rightarrow> k = length h \<and> hash_chain sha (h @ [seal e n p v]) \<and> c = chain_tip (h @ [seal e n p v])
         | Lost \<Rightarrow> c = chain_tip h \<and> k < length h | DuplicateState \<Rightarrow> c = chain_tip h \<and> k = 0 \<and> h \<noteq> []"
proof (cases "take k h = []")
  case True
  show ?thesis
  proof (cases "h = []")
    case True
    with a k show ?thesis
      by (auto simp: link_attempt_def chain_tip_def Let_def hash_chain_def split: link.splits)
  next
    case False
    with a True show ?thesis by (auto simp: link_attempt_def chain_tip_def Let_def)
  qed
next
  case False
  then have ne: "h \<noteq> []" by auto
  show ?thesis
  proof (cases "k = length h")
    case True
    with a ne have r: "r = Linked (int (length h) + 1) (lr_hash (last h)) (compute_record_hash sha e (int (length h) + 1) (lr_hash (last h)))"
      and c: "c = Some \<lparr>cs_seq = Some (int (length h) + 1), cs_last = Some (compute_record_hash sha e (int (length h) + 1) (lr_hash (last h)))\<rparr>"
      by (auto simp: link_attempt_def chain_tip_def Let_def)
    show ?thesis unfolding r c link.case
      by (intro conjI True hash_chain_snoc[OF h]) (simp_all add: ne chain_tip_def)
  next
    case False
    with k have "k < length h" by simp
    with a ne \<open>take k h \<noteq> []\<close> show ?thesis by (auto simp: link_attempt_def chain_tip_def Let_def min_def)
  qed
qed

text \<open>
  The writers of one tenant: rows whose state was read, rows that hold a number and are not yet
  inserted, the two collections, and the rows in the order of their numbers (not kept by the code).
\<close>

record 'h writers =
  cw_state :: "'h chain_state option"
  cw_reads :: "('h log_row \<times> 'h chain_state option) list"
  cw_linked :: "'h log_row list"
  cw_hot :: "'h log_row list"
  cw_archive :: "'h log_row list"
  cw_history :: "'h log_row list"

text \<open>
  The steps are the atomic calls of \<open>_link_chain\<close> and \<open>append_audit_log\<close> and those of the
  retention task, which copies a row into the archive and then deletes it from the hot collection.
\<close>

inductive chain_step :: "'h digest \<Rightarrow> string \<Rightarrow> 'h writers \<Rightarrow> 'h writers \<Rightarrow> bool" for sha t where
  Read: "lr_tenant e = Some t \<Longrightarrow> lr_hash e = None \<Longrightarrow>
           chain_step sha t w (w\<lparr>cw_reads := (e, cw_state w) # cw_reads w\<rparr>)"
| Link: "(e, s) \<in> set (cw_reads w) \<Longrightarrow> link_attempt sha e s (cw_state w) = (c, Linked n p h) \<Longrightarrow>
           chain_step sha t w (w\<lparr>cw_state := c, cw_reads := remove1 (e, s) (cw_reads w),
                                 cw_linked := seal e n p h # cw_linked w, cw_history := cw_history w @ [seal e n p h]\<rparr>)"
| Retry: "(e, s) \<in> set (cw_reads w) \<Longrightarrow> link_attempt sha e s (cw_state w) = (c, Lost) \<Longrightarrow>
           chain_step sha t w (w\<lparr>cw_state := c, cw_reads := remove1 (e, s) (cw_reads w)\<rparr>)"
| Unchained: "(e, s) \<in> set (cw_reads w) \<Longrightarrow> link_attempt sha e s (cw_state w) = (c, r) \<Longrightarrow> r = Lost \<or> r = DuplicateState \<Longrightarrow>
           chain_step sha t w (w\<lparr>cw_state := c, cw_reads := remove1 (e, s) (cw_reads w), cw_hot := cw_hot w @ [e]\<rparr>)"
| Insert: "r \<in> set (cw_linked w) \<Longrightarrow>
           chain_step sha t w (w\<lparr>cw_linked := remove1 r (cw_linked w), cw_hot := cw_hot w @ [r]\<rparr>)"
| Crash: "r \<in> set (cw_linked w) \<Longrightarrow> chain_step sha t w (w\<lparr>cw_linked := remove1 r (cw_linked w)\<rparr>)"
| Copy: "r \<in> set (cw_hot w) \<Longrightarrow> r \<notin> set (cw_archive w) \<Longrightarrow> chain_step sha t w (w\<lparr>cw_archive := cw_archive w @ [r]\<rparr>)"
| Remove: "r \<in> set (cw_hot w) \<Longrightarrow> r \<in> set (cw_archive w) \<Longrightarrow> chain_step sha t w (w\<lparr>cw_hot := remove1 r (cw_hot w)\<rparr>)"

text \<open>
  One row of the retention task: copied unless it is archived already, then deleted from the hot
  collection.  A row stands for its \<open>_id\<close>.
\<close>

definition archive_row :: "'h log_row \<Rightarrow> 'h log_row list \<Rightarrow> 'h log_row list \<Rightarrow> 'h log_row list \<times> 'h log_row list" where
  "archive_row r hot archive = (remove1 r hot, if r \<in> set archive then archive else archive @ [r])"

lemma archive_row_steps:
  assumes "r \<in> set (cw_hot w)" "archive_row r (cw_hot w) (cw_archive w) = (hot, archive)"
  shows "(chain_step sha t)\<^sup>*\<^sup>* w (w\<lparr>cw_archive := archive, cw_hot := hot\<rparr>)"
proof (cases "r \<in> set (cw_archive w)")
  case True
  then show ?thesis using assms chain_step.Remove[of r w sha t] by (auto simp: archive_row_def)
next
  case False
  have "chain_step sha t w (w\<lparr>cw_archive := archive\<rparr>)"
    using assms False chain_step.Copy[of r w sha t] by (auto simp: archive_row_def)
  moreover have "chain_step sha t (w\<lparr>cw_archive := archive\<rparr>) (w\<lparr>cw_archive := archive, cw_hot := hot\<rparr>)"
    using assms False chain_step.Remove[of r "w\<lparr>cw_archive := archive\<rparr>" sha t] by (auto simp: archive_row_def)
  ultimately show ?thesis by (meson converse_rtranclp_into_rtranclp r_into_rtranclp)
qed

text \<open>Rows written before the chain existed carry no hash.\<close>

definition fresh_writers :: "'h writers \<Rightarrow> bool" where
  "fresh_writers w \<longleftrightarrow> cw_state w = None \<and> cw_reads w = [] \<and> cw_linked w = [] \<and> cw_history w = [] \<and>
     (\<forall>r \<in> set (cw_hot w @ cw_archive w). lr_hash r = None)"

definition sealed_rows :: "'h log_row list \<Rightarrow> 'h log_row list" where
  "sealed_rows rs = filter (\<lambda>r. lr_hash r \<noteq> None) rs"

definition chain_inv :: "'h digest \<Rightarrow> string \<Rightarrow> 'h writers \<Rightarrow> bool" where
  "chain_inv sha t w \<longleftrightarrow>
     hash_chain sha (cw_history w) \<and> cw_state w = chain_tip (cw_history w) \<and>
     (\<forall>r \<in> set (cw_history w). lr_tenant r = Some t) \<and>
     (\<forall>(e, s) \<in> set (cw_reads w). lr_tenant e = Some t \<and> lr_hash e = None \<and>
        (\<exists>k \<le> length (cw_history w). s = chain_tip (take k (cw_history w)))) \<and>
     mset (cw_linked w) + mset (sealed_rows (cw_hot w)) \<subseteq># mset (cw_history w) \<and>
     set (sealed_rows (cw_archive w)) \<subseteq> set (cw_history w) \<and> distinct (sealed_rows (cw_archive w))"

lemma chain_inv_reads:
  "chain_inv sha t w \<Longrightarrow> (e, s) \<in> set (cw_reads w) \<Longrightarrow>
     lr_tenant e = Some t \<and> lr_hash e = None \<and> (\<exists>k \<le> length (cw_history w). s = chain_tip (take k (cw_history w)))"
  by (auto simp: chain_inv_def)

text \<open>A read row of the invariant is linked, or the state document is as before.\<close>

lemma chain_inv_attempt:
  assumes "chain_inv sha t w" "(e, s) \<in> set (cw_reads w)" "link_attempt sha e s (cw_state w) = (c, r)"
  shows "case r of
      Linked n p v \<Rightarrow> hash_chain sha (cw_history w @ [seal e n p v]) \<and> c = chain_tip (cw_history w @ [seal e n p v])
    | Lost \<Rightarrow> c = cw_state w | DuplicateState \<Rightarrow> c = cw_state w"
proof -
  obtain k where k: "k \<le> length (cw_history w)" "s = chain_tip (take k (cw_history w))"
    using chain_inv_reads[OF assms(1,2)] by auto
  have st: "hash_chain sha (cw_history w)" "cw_state w = chain_tip (cw_history w)" using assms(1) by (auto simp: chain_inv_def)
  show ?thesis using link_attempt_chain[OF st(1) k(1) assms(3)[unfolded k(2) st(2)]] st(2) by (auto split: link.splits)
qed

lemma chain_inv_read:
  assumes "chain_inv sha t w" "lr_tenant e = Some t" "lr_hash e = None"
  shows "chain_inv sha t (w\<lparr>cw_reads := (e, cw_state w) # cw_reads w\<rparr>)"
  using assms by (auto simp: chain_inv_def intro!: exI[of _ "length (cw_history w)"])

lemma chain_inv_unread:
  assumes "chain_inv sha t w" "set rs \<subseteq> set (cw_reads w)"
  shows "chain_inv sha t (w\<lparr>cw_reads := rs\<rparr>)"
  using assms by (auto simp: chain_inv_def)

lemma chain_inv_unchained:
  assumes "chain_inv sha t w" "lr_hash e = None"
  shows "chain_inv sha t (w\<lparr>cw_hot := cw_hot w @ [e]\<rparr>)"
  using assms by (simp add: chain_inv_def sealed_rows_def)

lemma chain_inv_link:
  assumes inv: "chain_inv sha t w" and e: "(e, s) \<in> set (cw_reads w)"
    and a: "link_attempt sha e s (cw_state w) = (c, Linked n p v)"
  shows "chain_inv sha t (w\<lparr>cw_state := c, cw_reads := remove1 (e, s) (cw_reads w),
            cw_linked := seal e n p v # cw_linked w, cw_history := cw_history w @ [seal e n p v]\<rparr>)"
proof -
  let ?r = "seal e n p v" and ?h = "cw_history w"
  have new: "hash_chain sha (?h @ [?r])" "c = chain_tip (?h @ [?r])" using chain_inv_attempt[OF inv e a] by auto
  have reads: "\<exists>k \<le> length (?h @ [?r]). s' = chain_tip (take k (?h @ [?r]))" if "(e', s') \<in> set (cw_reads w)" for e' s'
  proof -
    obtain k where "k \<le> length ?h" "s' = chain_tip (take k ?h)" using chain_inv_reads[OF inv \<open>(e', s') \<in> _\<close>] by auto
    then show ?thesis by (intro exI[of _ k]) simp
  qed
  have "mset (cw_linked w) + mset (sealed_rows (cw_hot w)) \<subseteq># mset ?h" using inv by (simp add: chain_inv_def)
  then have "mset (?r # cw_linked w) + mset (sealed_rows (cw_hot w)) \<subseteq># mset (?h @ [?r])" by simp
  then show ?thesis using inv new reads chain_inv_reads[OF inv] e
    by (auto simp: chain_inv_def dest!: subsetD[OF set_remove1_subset])
qed

lemma mset_sealed_append: "lr_hash r \<noteq> None \<Longrightarrow> mset (sealed_rows (xs @ [r])) = add_mset r (mset (sealed_rows xs))"
  by (simp add: sealed_rows_def)

lemma mset_sealed_remove1: "mset (sealed_rows (remove1 r xs)) \<subseteq># mset (sealed_rows xs)"
  by (simp add: sealed_rows_def mset_filter multiset_filter_mono)

lemma chain_inv_insert:
  assumes inv: "chain_inv sha t w" and r: "r \<in> set (cw_linked w)"
  shows "chain_inv sha t (w\<lparr>cw_linked := remove1 r (cw_linked w), cw_hot := cw_hot w @ [r]\<rparr>)"
proof -
  have sub: "mset (cw_linked w) + mset (sealed_rows (cw_hot w)) \<subseteq># mset (cw_history w)" using inv by (simp add: chain_inv_def)
  have "r \<in> set (cw_history w)" using r mset_subset_eqD[OF sub, of r] by simp
  then have "lr_hash r \<noteq> None" using inv hash_chain_sealed by (auto simp: chain_inv_def)
  then have "mset (remove1 r (cw_linked w)) + mset (sealed_rows (cw_hot w @ [r])) = mset (cw_linked w) + mset (sealed_rows (cw_hot w))"
    using r by (simp add: mset_sealed_append)
  with sub have "mset (remove1 r (cw_linked w)) + mset (sealed_rows (cw_hot w @ [r])) \<subseteq># mset (cw_history w)" by (simp only:)
  then show ?thesis using inv by (simp add: chain_inv_def del: mset_remove1)
qed

lemma chain_inv_crash:
  assumes inv: "chain_inv sha t w"
  shows "chain_inv sha t (w\<lparr>cw_linked := remove1 r (cw_linked w)\<rparr>)"
proof -
  have "mset (remove1 r (cw_linked w)) + mset (sealed_rows (cw_hot w)) \<subseteq># mset (cw_linked w) + mset (sealed_rows (cw_hot w))"
    by (simp add: diff_subset_eq_self)
  also have "\<dots> \<subseteq># mset (cw_history w)" using inv by (simp add: chain_inv_def)
  finally show ?thesis using inv by (simp add: chain_inv_def del: mset_remove1)
qed

lemma chain_inv_remove:
  assumes inv: "chain_inv sha t w"
  shows "chain_inv sha t (w\<lparr>cw_hot := remove1 r (cw_hot w)\<rparr>)"
proof -
  have "mset (cw_linked w) + mset (sealed_rows (remove1 r (cw_hot w))) \<subseteq># mset (cw_linked w) + mset (sealed_rows (cw_hot w))"
    using mset_sealed_remove1 by simp
  also have "\<dots> \<subseteq># mset (cw_history w)" using inv by (simp add: chain_inv_def)
  finally show ?thesis using inv by (simp add: chain_inv_def)
qed

lemma chain_inv_copy:
  assumes inv: "chain_inv sha t w" and r: "r \<in> set (cw_hot w)" "r \<notin> set (cw_archive w)"
  shows "chain_inv sha t (w\<lparr>cw_archive := cw_archive w @ [r]\<rparr>)"
proof -
  have sub: "mset (cw_linked w) + mset (sealed_rows (cw_hot w)) \<subseteq># mset (cw_history w)" using inv by (simp add: chain_inv_def)
  have "r \<in> set (cw_history w)" if "lr_hash r \<noteq> None"
    using r(1) \<open>lr_hash r \<noteq> None\<close> mset_subset_eqD[OF sub, of r] by (simp add: sealed_rows_def)
  then show ?thesis using inv r by (auto simp: chain_inv_def sealed_rows_def)
qed

lemma chain_inv_step:
  assumes "chain_inv sha t w" "chain_step sha t w w'"
  shows "chain_inv sha t w'"
  using assms(2)
proof cases
  case (Read e)
  then show ?thesis using chain_inv_read[OF assms(1)] by simp
next
  case (Link e s c n p h)
  then show ?thesis using chain_inv_link[OF assms(1)] by simp
next
  case (Retry e s c)
  then have "c = cw_state w" using chain_inv_attempt[OF assms(1)] by fastforce
  then show ?thesis using Retry chain_inv_unread[OF assms(1) set_remove1_subset] by simp
next
  case (Unchained e s c r)
  then have c: "c = cw_state w" using chain_inv_attempt[OF assms(1)] by fastforce
  have "lr_hash e = None" using chain_inv_reads[OF assms(1)] Unchained by blast
  from chain_inv_unchained[OF chain_inv_unread[OF assms(1) set_remove1_subset] this]
  show ?thesis using Unchained c by simp
next
  case (Insert r)
  then show ?thesis using chain_inv_insert[OF assms(1)] by simp
next
  case (Crash r)
  then show ?thesis using chain_inv_crash[OF assms(1)] by simp
next
  case (Copy r)
  then show ?thesis using chain_inv_copy[OF assms(1)] by simp
next
  case (Remove r)
  then show ?thesis using chain_inv_remove[OF assms(1)] by simp
qed

lemma fresh_chain_inv: "fresh_writers w \<Longrightarrow> chain_inv sha t w"
  by (auto simp: fresh_writers_def chain_inv_def hash_chain_def chain_tip_def sealed_rows_def filter_empty_conv)

interpretation audit_writers: invariant_system fresh_writers "chain_step sha t" "chain_inv sha t" for sha t
  by unfold_locales (auto intro: fresh_chain_inv chain_inv_step)

text \<open>The number of a stored row is its place in the chain.\<close>

lemma hash_chain_place:
  assumes "hash_chain sha h" "r \<in> set h"
  shows "\<exists>k < length h. r = h ! k \<and> lr_seq r = Some (int k + 1)"
  using assms by (metis add.commute hash_chain_nth in_set_conv_nth)

lemma distinct_hash_chain: "hash_chain sha h \<Longrightarrow> distinct h"
  using seq_keys_chain by (auto simp: distinct_map)

lemma inj_on_seq: "hash_chain sha h \<Longrightarrow> inj_on lr_seq (set h)"
  by (intro inj_onI) (metis inj_on_seq_key inj_onD seq_key_def)

lemma mset_subset_distinct: "mset xs \<subseteq># mset ys \<Longrightarrow> distinct ys \<Longrightarrow> distinct xs"
  unfolding distinct_count_atmost_1
  by (metis count_mset_0_iff le_zero_eq less_one linorder_not_le mset_subset_eq_count order_antisym)

lemma sealed_hot:
  assumes "chain_inv sha t w"
  shows "distinct (sealed_rows (cw_hot w)) \<and> set (sealed_rows (cw_hot w)) \<subseteq> set (cw_history w)"
proof -
  have sub: "mset (cw_linked w) + mset (sealed_rows (cw_hot w)) \<subseteq># mset (cw_history w)" and "distinct (cw_history w)"
    using assms distinct_hash_chain by (auto simp: chain_inv_def)
  moreover have hot: "mset (sealed_rows (cw_hot w)) \<subseteq># mset (cw_history w)"
    using sub by (metis mset_subset_eq_add_right subset_mset.order_trans)
  ultimately show ?thesis using mset_subset_distinct set_mset_mono[OF hot] by auto
qed

text \<open>
  C19.  However the writers and the retention task interleave, whichever attempts are lost and
  whichever writers die after taking a number, the numbers taken form one gapless hash chain whose
  tip is the state document, every stored row with a hash is the row of the chain at its number,
  and neither collection holds two rows with one number.
\<close>

theorem audit_chain_is_linear:
  assumes "fresh_writers w0" "(chain_step sha t)\<^sup>*\<^sup>* w0 w"
  shows "hash_chain sha (cw_history w) \<and> cw_state w = chain_tip (cw_history w) \<and>
    (\<forall>r \<in> set (cw_hot w @ cw_archive w). lr_hash r = None \<or>
       (\<exists>k < length (cw_history w). r = cw_history w ! k \<and> lr_seq r = Some (int k + 1))) \<and>
    distinct (map lr_seq (sealed_rows (cw_hot w))) \<and> distinct (map lr_seq (sealed_rows (cw_archive w)))"
proof -
  have inv: "chain_inv sha t w" by (rule audit_writers.reachable_inv[OF assms])
  then have h: "hash_chain sha (cw_history w)" and arch: "distinct (sealed_rows (cw_archive w))" "set (sealed_rows (cw_archive w)) \<subseteq> set (cw_history w)"
    by (auto simp: chain_inv_def)
  note hot = sealed_hot[OF inv]
  have "lr_hash r = None \<or> r \<in> set (cw_history w)" if "r \<in> set (cw_hot w @ cw_archive w)" for r
    using hot arch \<open>r \<in> _\<close> by (auto simp: sealed_rows_def)
  moreover have "distinct (map lr_seq (sealed_rows (cw_hot w)))" "distinct (map lr_seq (sealed_rows (cw_archive w)))"
    using hot arch inj_on_seq[OF h] by (auto simp: distinct_map intro: inj_on_subset)
  moreover have "cw_state w = chain_tip (cw_history w)" using inv by (simp add: chain_inv_def)
  ultimately show ?thesis using h hash_chain_place[OF h] by blast
qed

section \<open>Appending among other writers\<close>

text \<open>What the other writers do between a reading and the compare-and-swap: append rows.\<close>

definition others_append :: "'h digest \<Rightarrow> (nat \<Rightarrow> 'h chain_state option \<Rightarrow> 'h chain_state option) \<Rightarrow> bool" where
  "others_append sha between \<longleftrightarrow>
     (\<forall>n h. hash_chain sha h \<longrightarrow> (\<exists>g. hash_chain sha (h @ g) \<and> between n (chain_tip h) = chain_tip (h @ g)))"

lemma link_loop_chain:
  assumes "others_append sha between"
  shows "hash_chain sha h \<Longrightarrow> h \<noteq> [] \<Longrightarrow> link_loop sha between e n (chain_tip h) = (c, r) \<Longrightarrow>
    \<exists>g. hash_chain sha (h @ g) \<and>
      (case r of Inl err \<Rightarrow> err = Contention \<and> n \<le> length g \<and> c = chain_tip (h @ g)
       | Inr (k, p, v) \<Rightarrow> hash_chain sha (h @ g @ [seal e k p v]) \<and> c = chain_tip (h @ g @ [seal e k p v]))"
proof (induction n arbitrary: h)
  case 0
  then show ?case by (intro exI[of _ "[]"]) auto
next
  case (Suc n)
  obtain g where g: "hash_chain sha (h @ g)" "between n (chain_tip h) = chain_tip (h @ g)"
    using assms Suc.prems(1) unfolding others_append_def by blast
  obtain c1 l where l: "link_attempt sha e (chain_tip h) (chain_tip (h @ g)) = (c1, l)" by fastforce
  have at: "link_attempt sha e (chain_tip (take (length h) (h @ g))) (chain_tip (h @ g)) = (c1, l)" using l by simp
  note a = link_attempt_chain[OF g(1) _ at]
  show ?case
  proof (cases l)
    case (Linked k p v)
    then have "c = c1" "r = Inr (k, p, v)" using Suc.prems(3) g(2) l by auto
    then show ?thesis using a Linked g(1) by (intro exI[of _ g]) auto
  next
    case Lost
    then have c1: "c1 = chain_tip (h @ g)" "g \<noteq> []" using a by auto
    with Lost have "link_loop sha between e n (chain_tip (h @ g)) = (c, r)" using Suc.prems(3) g(2) l by simp
    have "h @ g \<noteq> []" using Suc.prems(2) by simp
    from Suc.IH[OF g(1) this \<open>link_loop _ _ _ n _ = _\<close>, unfolded append_assoc] obtain g' where
      "hash_chain sha (h @ g @ g')" and
      "case r of Inl err \<Rightarrow> err = Contention \<and> n \<le> length g' \<and> c = chain_tip (h @ g @ g')
       | Inr (k, p, v) \<Rightarrow> hash_chain sha (h @ g @ g' @ [seal e k p v]) \<and> c = chain_tip (h @ g @ g' @ [seal e k p v])" by blast
    then show ?thesis using c1(2) by (intro exI[of _ "g @ g'"]) (cases g, auto split: sum.splits)
  next
    case DuplicateState
    with a Suc.prems(2) show ?thesis by simp
  qed
qed

lemma attribute_keeps [simp]:
  "lr_tenant (attribute_audit_entry ip agent r) = lr_tenant r" "lr_hash (attribute_audit_entry ip agent r) = lr_hash r"
  by (simp_all add: attribute_audit_entry_def fill_field_def)

text \<open>
  Appending to a chain that has begun, while others append: the row gets the next number after
  theirs, the state document becomes the new tip, and the row is inserted with its hash; or all
  eight attempts lost against at least eight foreign rows, and then the row is inserted without a
  hash, or, when the caller requires the chain, nothing is inserted and the call raises.
\<close>

theorem append_outcome:
  assumes "hash_chain sha h" "h \<noteq> []" "as_states d t = chain_tip h" "lr_tenant entry = Some t" "t \<noteq> []" "others_append sha between"
  shows "\<exists>g d' r. hash_chain sha (h @ g) \<and>
     append_audit_log sha between ip agent require_chain entry d = (d', r) \<and> as_archive d' = as_archive d \<and>
     (case r of
        Inl err \<Rightarrow> require_chain \<and> 8 \<le> length g \<and> err = LinkFailed Contention \<and>
          as_hot d' = as_hot d \<and> as_states d' = (as_states d)(t := chain_tip (h @ g))
      | Inr row \<Rightarrow> as_hot d' = as_hot d @ [row] \<and>
          (hash_chain sha (h @ g @ [row]) \<and> as_states d' = (as_states d)(t := chain_tip (h @ g @ [row])) \<or>
           \<not> require_chain \<and> 8 \<le> length g \<and> lr_hash row = lr_hash entry \<and> as_states d' = (as_states d)(t := chain_tip (h @ g))))"
proof -
  let ?e = "attribute_audit_entry ip agent entry"
  obtain c l where l: "link_loop sha between ?e 8 (chain_tip h) = (c, l)" by fastforce
  obtain g where g: "hash_chain sha (h @ g)" and
    r: "case l of Inl err \<Rightarrow> err = Contention \<and> 8 \<le> length g \<and> c = chain_tip (h @ g)
       | Inr (k, p, v) \<Rightarrow> hash_chain sha (h @ g @ [seal ?e k p v]) \<and> c = chain_tip (h @ g @ [seal ?e k p v])"
    using link_loop_chain[OF assms(6,1,2) l] by auto
  have run: "append_audit_log sha between ip agent require_chain entry d =
      (case l of Inr (seq, prev, v) \<Rightarrow>
         (d\<lparr>as_states := (as_states d)(t := c), as_hot := as_hot d @ [seal ?e seq prev v]\<rparr>, Inr (seal ?e seq prev v))
       | Inl err \<Rightarrow> if require_chain then (d\<lparr>as_states := (as_states d)(t := c)\<rparr>, Inl (LinkFailed err))
                  else (d\<lparr>as_states := (as_states d)(t := c), as_hot := as_hot d @ [?e]\<rparr>, Inr ?e))"
    using assms(3-5) l by (simp add: append_audit_log_def Let_def link_chain_def truthy_def split: sum.split)
  show ?thesis using g r unfolding run by (intro exI[of _ g]) (auto split: sum.splits)
qed

section \<open>What the verifier finds\<close>

lemma set_first_of_seq: "set (first_of_seq seen rs) \<subseteq> set rs"
  by (induction rs arbitrary: seen) (auto split: if_splits)

lemma first_of_seq_seen: "r \<in> set (first_of_seq seen rs) \<Longrightarrow> seq_key r \<notin> seen"
  by (induction rs arbitrary: seen) (auto split: if_splits)

lemma first_of_seq_covers: "r \<in> set rs \<Longrightarrow> seq_key r \<notin> seen \<Longrightarrow> \<exists>q \<in> set (first_of_seq seen rs). seq_key q = seq_key r"
proof (induction rs arbitrary: seen)
  case (Cons q rs)
  consider "seq_key q = seq_key r" | "seq_key q \<noteq> seq_key r" "r \<in> set rs" using Cons.prems(1) by auto
  then show ?case
  proof cases
    case 1
    then show ?thesis using Cons.prems(2) by simp
  next
    case 2
    then show ?thesis using Cons.IH[of "insert (seq_key q) seen"] Cons.IH[of seen] Cons.prems(2) by auto
  qed
qed simp

lemma first_of_seq_sorted:
  "sorted (map seq_key rs) \<Longrightarrow> sorted (map seq_key (first_of_seq seen rs)) \<and> distinct (map seq_key (first_of_seq seen rs))"
proof (induction rs arbitrary: seen)
  case (Cons r rs)
  show ?case
  proof (cases "seq_key r \<in> seen")
    case False
    have "seq_key r \<le> seq_key q" if "q \<in> set (first_of_seq (insert (seq_key r) seen) rs)" for q
      using Cons.prems subsetD[OF set_first_of_seq that] by simp
    moreover have "seq_key r \<noteq> seq_key q" if "q \<in> set (first_of_seq (insert (seq_key r) seen) rs)" for q
      using first_of_seq_seen[OF that] by auto
    ultimately show ?thesis using False Cons by auto
  qed (use Cons in simp)
qed simp

lemma set_read_part:
  "r \<in> set (read_part t b limit rs) \<Longrightarrow> r \<in> set rs \<and> chained_of t r \<and> (\<exists>n. lr_seq r = Some n \<and> n \<le> b)"
  by (auto simp: read_part_def to_list_def find_many_def split: option.splits dest!: in_set_takeD)

lemma set_chain_rows:
  "r \<in> set (chain_rows t b limit hot archive) \<Longrightarrow>
     r \<in> set (hot @ archive) \<and> chained_of t r \<and> (\<exists>n. lr_seq r = Some n \<and> n \<le> b)"
  by (auto simp: chain_rows_def dest!: subsetD[OF set_first_of_seq] dest: set_read_part)

lemma sorted_chain_rows:
  "sorted (map seq_key (chain_rows t b limit hot archive)) \<and> distinct (map seq_key (chain_rows t b limit hot archive))"
  unfolding chain_rows_def by (rule first_of_seq_sorted) simp

text \<open>When no limit is reached, the rows of a chain up to the horizon are read back in order.\<close>

lemma read_part_whole:
  assumes "length (filter (chained_of t) rs) < limit"
  shows "length (read_part t b limit rs) < limit \<and>
    set (read_part t b limit rs) = {r \<in> set rs. chained_of t r \<and> (\<exists>n. lr_seq r = Some n \<and> n \<le> b)}"
proof -
  let ?p = "\<lambda>r. chained_of t r \<and> (case lr_seq r of None \<Rightarrow> False | Some n \<Rightarrow> n \<le> b)"
  have "length (filter ?p rs) \<le> length (filter (chained_of t) rs)"
    by (induction rs) auto
  with assms have "length (filter ?p rs) < limit" by simp
  then show ?thesis by (auto simp: read_part_def to_list_def find_many_def split: option.splits)
qed

lemma chain_rows_honest:
  assumes h: "hash_chain sha h" and own: "\<forall>r \<in> set h. lr_tenant r = Some t" and k: "k \<le> length h"
    and from_h: "\<forall>r \<in> set (hot @ archive). chained_of t r \<longrightarrow> r \<in> set h"
    and kept: "set (take k h) \<subseteq> set (hot @ archive)"
    and few: "length (filter (chained_of t) hot) < limit" "length (filter (chained_of t) archive) < limit"
  shows "chain_rows t (int k) limit hot archive = take k h"
proof (rule map_sorted_distinct_set_unique[where f = seq_key])
  let ?rows = "chain_rows t (int k) limit hot archive"
  have sub: "set ?rows \<subseteq> set (take k h)"
    using set_chain_rows[of _ t "int k" limit hot archive] from_h mem_chain_take[OF h k] by (fastforce simp: seq_key_def)
  have "r \<in> set ?rows" if r: "r \<in> set (take k h)" for r
  proof -
    from r have rh: "r \<in> set h" "seq_key r \<le> int k" using mem_chain_take[OF h k] by auto
    then have "chained_of t r" "\<exists>n. lr_seq r = Some n \<and> n \<le> int k"
      using own hash_chain_sealed[OF h] hash_chain_place[OF h, of r] by (auto simp: chained_of_def seq_key_def)
    then have "r \<in> set (read_part t (int k) limit hot @ read_part t (int k) limit archive)"
      using r kept read_part_whole[OF few(1), of "int k"] read_part_whole[OF few(2), of "int k"] by auto
    then obtain q where "q \<in> set ?rows" "seq_key q = seq_key r"
      using first_of_seq_covers[of r _ "{}"] unfolding chain_rows_def by (metis empty_iff set_sort)
    moreover have "q \<in> set h" using \<open>q \<in> _\<close> sub by (auto dest: in_set_takeD)
    ultimately show ?thesis using inj_onD[OF inj_on_seq_key[OF h]] rh(1) by metis
  qed
  with sub show "set ?rows = set (take k h)" by blast
  then show "inj_on seq_key (set ?rows \<union> set (take k h))"
    using inj_on_seq_key[OF h] by (auto intro: inj_on_subset dest: in_set_takeD)
qed (simp_all only: sorted_chain_rows seq_keys_chain[OF hash_chain_take[OF h]])

lemma walk_chain: "chain_from sha n p rs \<Longrightarrow> q = None \<or> q = p \<Longrightarrow> walk sha q rs = []"
  by (induction rs arbitrary: n p q) (auto simp: seq_key_def)

lemma count_rows_0: "count_rows p hot archive = 0 \<longleftrightarrow> (\<forall>r \<in> set (hot @ archive). \<not> p r)"
  by (auto simp: count_rows_def count_documents_def filter_empty_conv)

lemma chain_tip_seq [simp]: "h \<noteq> [] \<Longrightarrow> Option.bind (chain_tip h) cs_seq = Some (int (length h))"
  by (simp add: chain_tip_def)

lemma last_of_chain:
  assumes "hash_chain sha h" "h \<noteq> []"
  shows "lr_seq (last h) = Some (int (length h))"
  using assms by (cases h rule: rev_cases) (simp_all add: hash_chain_def chain_from_append add.commute)

lemma state_not_changed:
  assumes "0 < k" "k \<le> m" "m \<le> length h"
  shows "\<not> state_changed (chain_tip (take k h)) (chain_tip (take m h))"
proof (cases "k = m")
  case True
  with assms show ?thesis by (auto simp: state_changed_def chain_tip_def valid_horizon_def)
next
  case False
  with assms show ?thesis by (auto simp: state_changed_def chain_tip_def valid_horizon_def min_def)
qed

lemma five_parts:
  "a @ (if p then [x] else []) @ (if q then [y] else []) @ (if 0 < (m :: nat) then [z] else []) @ (if 0 < (n :: nat) then [w] else []) = []
     \<longleftrightarrow> a = [] \<and> \<not> p \<and> \<not> q \<and> m = 0 \<and> n = 0"
  by simp

lemma verify_fields:
  assumes "cs_seq st = Some n" "0 \<le> n" "chain_rows t n limit hot archive = rows"
    and v: "v = verify_chain sha t limit (Some st) hot archive s1"
  shows "vr_checked v = length rows"
    and "vr_ok v \<longleftrightarrow> vr_breaks v = []"
    and "vr_truncated v \<longleftrightarrow> limit \<le> length (read_part t n limit hot) \<or> limit \<le> length (read_part t n limit archive)"
    and "vr_breaks v = [] \<longleftrightarrow>
      walk sha None rows = [] \<and>
      (vr_truncated v \<or> Some n = (if rows = [] then None else lr_seq (last rows)) \<and> cs_last st = (if rows = [] then None else lr_hash (last rows))) \<and>
      \<not> state_changed (Some st) s1 \<and>
      count_rows (\<lambda>r. chained_of t r \<and> (case lr_seq r of None \<Rightarrow> True | Some n \<Rightarrow> n < 1)) hot archive = 0 \<and>
      (case genesis_time rows of None \<Rightarrow> True | Some g \<Rightarrow> count_rows (\<lambda>r. unchained_of t r \<and> at_or_after g r) hot archive = 0)"
proof -
  have valid: "valid_horizon (Some n)" using assms(2) by (simp add: valid_horizon_def)
  note d = verify_chain_def Let_def assms(1,3) valid
  show "vr_checked v = length rows" "vr_ok v \<longleftrightarrow> vr_breaks v = []"
    "vr_truncated v \<longleftrightarrow> limit \<le> length (read_part t n limit hot) \<or> limit \<le> length (read_part t n limit archive)"
    unfolding v by (simp_all add: d split: prod.split)
  show "vr_breaks v = [] \<longleftrightarrow>
      walk sha None rows = [] \<and>
      (vr_truncated v \<or> Some n = (if rows = [] then None else lr_seq (last rows)) \<and> cs_last st = (if rows = [] then None else lr_hash (last rows))) \<and>
      \<not> state_changed (Some st) s1 \<and>
      count_rows (\<lambda>r. chained_of t r \<and> (case lr_seq r of None \<Rightarrow> True | Some n \<Rightarrow> n < 1)) hot archive = 0 \<and>
      (case genesis_time rows of None \<Rightarrow> True | Some g \<Rightarrow> count_rows (\<lambda>r. unchained_of t r \<and> at_or_after g r) hot archive = 0)"
    unfolding v verify_chain_def Let_def
    by (cases "genesis_time rows")
       (simp_all only: Option.bind_lunit assms(1) valid if_True get_default_simps assms(3) option.case prod.case verification.simps five_parts de_Morgan_conj not_not, blast+)
qed

text \<open>
  C21.  No false alarm: when the rows with a hash are rows of one chain, the first \<open>k\<close> are all stored
  (in either collection, or in both during the retention move), no unchained row is as new as the
  first, and both collections are below the limit, the verifier accepts, whatever was appended
  since it read the state (\<open>k \<le> m\<close>).
\<close>

theorem honest_chain_verifies:
  assumes h: "hash_chain sha h" and own: "\<forall>r \<in> set h. lr_tenant r = Some t" and k: "0 < k" "k \<le> m" "m \<le> length h"
    and from_h: "\<forall>r \<in> set (hot @ archive). chained_of t r \<longrightarrow> r \<in> set h"
    and kept: "set (take k h) \<subseteq> set (hot @ archive)"
    and few: "length (filter (chained_of t) hot) < limit" "length (filter (chained_of t) archive) < limit"
    and legacy: "\<forall>r \<in> set (hot @ archive). unchained_of t r \<longrightarrow>
                   (\<forall>g. genesis_time (take k h) = Some g \<longrightarrow> \<not> at_or_after g r)"
  shows "(let v = verify_chain sha t limit (chain_tip (take k h)) hot archive (chain_tip (take m h))
          in vr_ok v \<and> vr_checked v = k \<and> \<not> vr_truncated v \<and> vr_breaks v = [])"
proof -
  let ?h = "take k h"
  have ne: "?h \<noteq> []" and len: "length ?h = k" using k by auto
  have rows: "chain_rows t (int k) limit hot archive = ?h"
    using k by (intro chain_rows_honest[OF h own _ from_h kept few]) simp
  have no_break: "walk sha None ?h = []"
    using walk_chain[OF hash_chain_take[OF h, of k, unfolded hash_chain_def]] by simp
  have short: "\<not> limit \<le> length (read_part t (int k) limit hot)" "\<not> limit \<le> length (read_part t (int k) limit archive)"
    using read_part_whole[OF few(1), of "int k"] read_part_whole[OF few(2), of "int k"] by auto
  have valid_seq: "count_rows (\<lambda>r. chained_of t r \<and> (case lr_seq r of None \<Rightarrow> True | Some n \<Rightarrow> n < 1)) hot archive = 0"
    unfolding count_rows_0 using from_h hash_chain_place[OF h] by fastforce
  have no_gap: "count_rows (\<lambda>r. unchained_of t r \<and> at_or_after g r) hot archive = 0" if "genesis_time ?h = Some g" for g
    unfolding count_rows_0 using legacy \<open>genesis_time ?h = Some g\<close> by blast
  let ?st = "\<lparr>cs_seq = Some (int k), cs_last = lr_hash (last ?h)\<rparr>"
  have tip: "chain_tip ?h = Some ?st" using ne len unfolding chain_tip_def by simp
  have last: "lr_seq (last ?h) = Some (int k)" using last_of_chain[OF hash_chain_take[OF h, of k] ne] len by simp
  have st: "\<not> state_changed (Some ?st) (chain_tip (take m h))" using state_not_changed[OF k] unfolding tip .
  define v where "v = verify_chain sha t limit (Some ?st) hot archive (chain_tip (take m h))"
  note f = verify_fields[OF _ _ rows v_def, unfolded chain_state.simps, OF refl of_nat_0_le_iff]
  have "\<not> vr_truncated v" unfolding f(3) using short by blast
  moreover have "vr_breaks v = []" unfolding f(4)
    using no_break ne last st valid_seq no_gap by (simp del: take_eq_Nil take_eq_Nil2 split: option.split)
  ultimately show ?thesis using f(1,2) len unfolding tip v_def[symmetric] by (simp add: Let_def)
qed

text \<open>What the hash of a row commits to, and the links of the row.\<close>

definition evidence :: "'h log_row \<Rightarrow> jval list \<times> int option \<times> 'h option \<times> 'h option" where
  "evidence r = (map (field r) hashed_fields, lr_seq r, lr_prev r, lr_hash r)"

lemma walk_append: "walk sha p (xs @ ys) = walk sha p xs @ walk sha (if xs = [] then p else lr_hash (last xs)) ys"
  by (induction xs arbitrary: p) simp_all

lemma walk_snoc:
  "walk sha p (rs @ [r]) = [] \<Longrightarrow>
     walk sha p rs = [] \<and> lr_hash r = Some (compute_record_hash sha r (seq_key r) (lr_prev r)) \<and>
     (let q = (if rs = [] then p else lr_hash (last rs)) in q = None \<or> lr_prev r = q)"
  unfolding walk_append Let_def by (simp split: if_split_asm)

text \<open>From an equal last hash backwards, an unbroken walk can only see the rows of the chain.\<close>

lemma walk_meets_chain:
  assumes "inj sha"
  shows "rs \<noteq> [] \<Longrightarrow> walk sha None rs = [] \<Longrightarrow> \<forall>r \<in> set rs. lr_seq r \<noteq> None \<and> lr_hash r \<noteq> None \<Longrightarrow>
    hash_chain sha h \<Longrightarrow> h \<noteq> [] \<Longrightarrow> lr_hash (last rs) = lr_hash (last h) \<Longrightarrow>
    \<exists>k < length h. map evidence rs = map evidence (drop k h)"
proof (induction rs arbitrary: h rule: rev_induct)
  case (snoc r rs)
  obtain g q where h: "h = g @ [q]" using snoc.prems(5) by (cases h rule: rev_cases) auto
  note w = walk_snoc[OF snoc.prems(2)]
  have g: "hash_chain sha g" and q: "lr_seq q = Some (int (length g) + 1)" "lr_prev q = (if g = [] then None else lr_hash (last g))"
    "lr_hash q = Some (compute_record_hash sha q (int (length g) + 1) (lr_prev q))"
    using snoc.prems(4) by (auto simp: h hash_chain_def chain_from_append add.commute)
  have "compute_record_hash sha r (seq_key r) (lr_prev r) = compute_record_hash sha q (int (length g) + 1) (lr_prev q)"
    using w q(3) snoc.prems(6) by (simp add: h)
  then have eq: "map (field r) hashed_fields = map (field q) hashed_fields" "seq_key r = int (length g) + 1" "lr_prev r = lr_prev q"
    using injD[OF assms] unfolding compute_record_hash_def by (fastforce dest: injD[OF assms])+
  have same: "evidence r = evidence q"
    using eq q(1) snoc.prems(3,6) by (auto simp: evidence_def h seq_key_def)
  show ?case
  proof (cases "rs = []")
    case True
    then show ?thesis using same by (intro exI[of _ "length g"]) (simp add: h)
  next
    case False
    then have "lr_hash (last rs) \<noteq> None" using snoc.prems(3) by simp
    then have "lr_prev q = lr_hash (last rs)" "lr_prev q \<noteq> None" using w False eq(3) by (auto simp: Let_def)
    then have "g \<noteq> []" "lr_hash (last rs) = lr_hash (last g)" using q(2) by (auto split: if_splits)
    moreover have "walk sha None rs = []" "\<forall>r \<in> set rs. lr_seq r \<noteq> None \<and> lr_hash r \<noteq> None" using w snoc.prems(3) by auto
    ultimately obtain k where "k < length g" "map evidence rs = map evidence (drop k g)"
      using snoc.IH[OF False _ _ g] by blast
    then show ?thesis using same by (intro exI[of _ k]) (simp add: h)
  qed
qed simp

text \<open>
  C20.  When no two contents have the same hash and the state document still holds the tip of
  the chain that was written, a verdict without breaks and without truncation means that the rows
  examined are, in every hashed field and in every link, the rows of the chain from some place to its
  end: an edited, inserted, reordered or replaced row, a missing row in the middle and a missing
  newest row are all reported.
\<close>

theorem tampering_detected:
  assumes "inj sha" "hash_chain sha h" "h \<noteq> []"
    and "vr_ok (verify_chain sha t limit (chain_tip h) hot archive s1)"
    and "\<not> vr_truncated (verify_chain sha t limit (chain_tip h) hot archive s1)"
  shows "\<exists>k < length h. map evidence (chain_rows t (int (length h)) limit hot archive) = map evidence (drop k h) \<and>
           vr_checked (verify_chain sha t limit (chain_tip h) hot archive s1) = length h - k"
proof -
  let ?rows = "chain_rows t (int (length h)) limit hot archive"
  let ?st = "\<lparr>cs_seq = Some (int (length h)), cs_last = lr_hash (last h)\<rparr>"
  have tip: "chain_tip h = Some ?st" using assms(3) by (simp add: chain_tip_def)
  define v where "v = verify_chain sha t limit (Some ?st) hot archive s1"
  note f = verify_fields[OF _ _ refl v_def, unfolded chain_state.simps, OF refl of_nat_0_le_iff]
  have "vr_breaks v = []" "\<not> vr_truncated v" using assms(4,5) f(2) unfolding tip v_def[symmetric] by auto
  then have "walk sha None ?rows = []" "?rows \<noteq> []" "lr_hash (last ?rows) = lr_hash (last h)" unfolding f(4) by (auto split: if_splits)
  moreover have "vr_checked (verify_chain sha t limit (chain_tip h) hot archive s1) = length ?rows" using f(1) unfolding tip v_def[symmetric] .
  ultimately have all: "walk sha None ?rows = [] \<and> ?rows \<noteq> [] \<and> lr_hash (last ?rows) = lr_hash (last h) \<and>
      vr_checked (verify_chain sha t limit (chain_tip h) hot archive s1) = length ?rows" by blast
  have "\<forall>r \<in> set ?rows. lr_seq r \<noteq> None \<and> lr_hash r \<noteq> None"
    using set_chain_rows by (fastforce simp: chained_of_def)
  then obtain k where k: "k < length h" "map evidence ?rows = map evidence (drop k h)"
    using walk_meets_chain[OF assms(1) _ _ _ assms(2,3)] all by blast
  then have "length ?rows = length h - k" by (metis length_drop length_map)
  with k all show ?thesis by auto
qed

section \<open>Concrete chains\<close>

text \<open>A hash without collisions for the examples: the hashed content itself.\<close>

datatype symbolic = Symbolic "jval list" int "symbolic option"

definition symbolic_hash :: "symbolic digest" where
  "symbolic_hash c = (case c of (fs, n, p) \<Rightarrow> Symbolic fs n p)"

lemma inj_symbolic: "inj symbolic_hash"
  by (auto simp: inj_def symbolic_hash_def)

definition sample_entry :: "instant \<Rightarrow> string \<Rightarrow> symbolic log_row" where
  "sample_entry t0 action = build_audit_entry t0 None ''t'' ''booking'' ''b1'' action [(''metadata'', JStr ''m'')]"

definition sample_row1 :: "symbolic log_row" where
  "sample_row1 = (let e = sample_entry 100 ''created'' in seal e 1 None (compute_record_hash symbolic_hash e 1 None))"

definition sample_row2 :: "symbolic log_row" where
  "sample_row2 = (let e = sample_entry 200 ''moved''; p = lr_hash sample_row1 in seal e 2 p (compute_record_hash symbolic_hash e 2 p))"

definition sample_row3 :: "symbolic log_row" where
  "sample_row3 = (let e = sample_entry 300 ''closed''; p = lr_hash sample_row2 in seal e 3 p (compute_record_hash symbolic_hash e 3 p))"

lemma sample_tenants [simp]: "lr_tenant sample_row1 = Some ''t''" "lr_tenant sample_row2 = Some ''t''" "lr_tenant sample_row3 = Some ''t''"
  "lr_tenant (sample_entry n a) = Some ''t''" "lr_hash (sample_entry n a) = None"
  by (simp_all add: sample_row1_def sample_row2_def sample_row3_def sample_entry_def build_audit_entry_def Let_def)

lemma sample_links [simp]: "lr_seq sample_row1 = Some 1" "lr_seq sample_row2 = Some 2" "lr_seq sample_row3 = Some 3"
  "lr_prev sample_row1 = None" "lr_prev sample_row2 = lr_hash sample_row1" "lr_prev sample_row3 = lr_hash sample_row2"
  "lr_hash sample_row1 = Some (compute_record_hash symbolic_hash sample_row1 1 None)"
  "lr_hash sample_row2 = Some (compute_record_hash symbolic_hash sample_row2 2 (lr_hash sample_row1))"
  "lr_hash sample_row3 = Some (compute_record_hash symbolic_hash sample_row3 3 (lr_hash sample_row2))"
  by (simp_all add: sample_row1_def sample_row2_def sample_row3_def Let_def)

lemma sample_chain: "hash_chain symbolic_hash [sample_row1, sample_row2, sample_row3]"
  unfolding hash_chain_def chain_from.simps by (simp del: sample_links(7-9), simp)

lemma sample_chain2: "hash_chain symbolic_hash [sample_row1, sample_row2]"
  using hash_chain_take[OF sample_chain, of 2] by simp

lemma sample_times [simp]: "lr_time sample_row1 = Some 100" "lr_time sample_row2 = Some 200"
  by (simp_all add: sample_row1_def sample_row2_def sample_entry_def build_audit_entry_def Let_def)

theorem honest_chain_verifies_witness:
  "vr_ok (verify_chain symbolic_hash ''t'' 5000 (chain_tip [sample_row1, sample_row2]) [sample_row2, sample_row3]
     [sample_row1, sample_row2] (chain_tip [sample_row1, sample_row2, sample_row3]))"
  using honest_chain_verifies[of symbolic_hash "[sample_row1, sample_row2, sample_row3]" "''t''" 2 3 "[sample_row2, sample_row3]" "[sample_row1, sample_row2]" 5000]
    sample_chain by (simp add: Let_def unchained_of_def chained_of_def del: sample_links(7-9)) (simp add: Let_def unchained_of_def)

lemma sample_accepted:
  "vr_ok (verify_chain symbolic_hash ''t'' 5000 (chain_tip [sample_row1, sample_row2]) [sample_row1, sample_row2] []
     (chain_tip [sample_row1, sample_row2]))"
  "\<not> vr_truncated (verify_chain symbolic_hash ''t'' 5000 (chain_tip [sample_row1, sample_row2]) [sample_row1, sample_row2] []
     (chain_tip [sample_row1, sample_row2]))"
  by code_simp+

theorem tampering_detected_witness:
  "\<exists>k < 2. map evidence (chain_rows ''t'' 2 5000 [sample_row1, sample_row2] []) = map evidence (drop k [sample_row1, sample_row2])"
  using tampering_detected[OF inj_symbolic sample_chain2 _ sample_accepted] by (auto simp: eval_nat_numeral)

lemma quiet_others: "others_append sha (\<lambda>_ c. c)"
  by (auto simp: others_append_def intro: exI[of _ "[]"])

theorem append_outcome_witness:
  "\<exists>d' r. append_audit_log symbolic_hash (\<lambda>_ c. c) None None True (sample_entry 300 ''closed'')
      \<lparr>as_states = (\<lambda>_. chain_tip [sample_row1, sample_row2]), as_hot = [sample_row1, sample_row2], as_archive = []\<rparr> = (d', r) \<and>
    as_archive d' = []"
proof -
  let ?d = "\<lparr>as_states = (\<lambda>_. chain_tip [sample_row1, sample_row2]), as_hot = [sample_row1, sample_row2], as_archive = []\<rparr>"
  have d: "[sample_row1, sample_row2] \<noteq> []" "as_states ?d ''t'' = chain_tip [sample_row1, sample_row2]" "''t'' \<noteq> []" by simp_all
  obtain g d' r where "append_audit_log symbolic_hash (\<lambda>_ c. c) None None True (sample_entry 300 ''closed'') ?d = (d', r)"
    "as_archive d' = as_archive ?d"
    using append_outcome[OF sample_chain2 d(1,2) sample_tenants(4) d(3) quiet_others, of None None True] by blast
  then show ?thesis by auto
qed

theorem audit_chain_is_linear_witness:
  "\<exists>w. (chain_step symbolic_hash ''t'')\<^sup>*\<^sup>* \<lparr>cw_state = None, cw_reads = [], cw_linked = [], cw_hot = [], cw_archive = [], cw_history = []\<rparr> w \<and>
     length (cw_hot w) = 1 \<and> cw_state w = chain_tip (cw_history w)"
proof -
  let ?w0 = "\<lparr>cw_state = None, cw_reads = [], cw_linked = [], cw_hot = [], cw_archive = [], cw_history = []\<rparr> :: symbolic writers"
  let ?e = "sample_entry 100 ''created''" and ?s = "chain_step symbolic_hash ''t''"
  let ?w1 = "?w0\<lparr>cw_reads := [(?e, None)]\<rparr>"
  let ?r = "seal ?e 1 None (compute_record_hash symbolic_hash ?e 1 None)"
  let ?w2 = "?w1\<lparr>cw_state := chain_tip [?r], cw_reads := [], cw_linked := [?r], cw_history := [?r]\<rparr>"
  let ?w3 = "?w2\<lparr>cw_linked := [], cw_hot := [?r]\<rparr>"
  have "?s ?w0 ?w1" using chain_step.Read[of ?e "''t''" symbolic_hash ?w0] by simp
  moreover have "?s ?w1 ?w2"
    using chain_step.Link[of ?e None ?w1 symbolic_hash "chain_tip [?r]" 1 None "compute_record_hash symbolic_hash ?e 1 None" "''t''"]
    by (simp add: link_attempt_def Let_def chain_tip_def)
  moreover have "?s ?w2 ?w3" using chain_step.Insert[of ?r ?w2 symbolic_hash "''t''"] by simp
  ultimately have "?s\<^sup>*\<^sup>* ?w0 ?w3" by (meson converse_rtranclp_into_rtranclp rtranclp.rtrancl_refl)
  moreover have "fresh_writers ?w0" by (simp add: fresh_writers_def)
  ultimately show ?thesis using audit_chain_is_linear[of ?w0 symbolic_hash "''t''" ?w3] by (intro exI[of _ ?w3]) simp
qed

section \<open>What the verifier does not find, and what it finds wrongly\<close>

text \<open>Deleting the oldest rows, editing a field no hash covers, or adding a second row with a used number is accepted.\<close>

lemma deleted_prefix_accepted:
  "vr_ok (verify_chain symbolic_hash ''t'' 5000 (chain_tip [sample_row1, sample_row2]) [sample_row2] []
     (chain_tip [sample_row1, sample_row2]))"
  by code_simp

lemma edited_metadata_accepted:
  "vr_ok (verify_chain symbolic_hash ''t'' 5000 (chain_tip [sample_row1, sample_row2])
     [sample_row1, sample_row2\<lparr>lr_fields := (''metadata'', JStr ''forged'') # lr_fields sample_row2\<rparr>] []
     (chain_tip [sample_row1, sample_row2]))"
  by code_simp

lemma forged_duplicate_accepted:
  "vr_ok (verify_chain symbolic_hash ''t'' 5000 (chain_tip [sample_row1, sample_row2]) [sample_row1, sample_row2]
     [sample_row2\<lparr>lr_fields := (''action'', JStr ''forged'') # lr_fields sample_row2\<rparr>] (chain_tip [sample_row1, sample_row2]))"
  by code_simp

text \<open>A row that has its number and is not inserted yet counts as a deleted tail.\<close>

lemma pending_append_reported:
  "vr_breaks (verify_chain symbolic_hash ''t'' 5000 (chain_tip [sample_row1, sample_row2]) [sample_row1] []
     (chain_tip [sample_row1, sample_row2])) = [TipMismatch (Some 1)]"
  by code_simp

text \<open>When the archive alone reaches the limit, the newer rows of the hot collection no longer link to what was read.\<close>

lemma long_archive_reported:
  "vr_breaks (verify_chain symbolic_hash ''t'' 1 (chain_tip [sample_row1, sample_row2, sample_row3]) [sample_row3] [sample_row1, sample_row2]
     (chain_tip [sample_row1, sample_row2, sample_row3])) = [PrevHashMismatch (Some 3)]"
  by code_simp

text \<open>The writer that loses the race for the first row gives up at once; its row breaks the chain for good.\<close>

lemma genesis_race_unchained:
  assumes "h \<noteq> []"
  shows "link_chain sha (\<lambda>_ _. chain_tip h) e None = (chain_tip h, Inl GenesisRace)"
  using assms by (simp add: link_chain_def eval_nat_numeral link_attempt_def Let_def chain_tip_def)

end
