(* ===== verification/EditLock.thy ===== *)
theory EditLock
  imports Store
begin

text \<open>
  The edit lease of a reservation (core/reservation_edit_lock.py).

  A browser view that edits a reservation holds a lease of 60 seconds, one document per tenant
  and booking under a unique index, and renews it.  Instants are seconds of one clock.  A view is
  its user and its lock id.  The lemmas: the outcome of acquiring, one holder at a time under any
  interleaving (an interpretation of \<open>invariant_system\<close>), and the protection of a lease that has
  not expired.
\<close>

section \<open>Leases\<close>

record lease =
  le_tenant :: string
  le_booking :: string
  le_lock :: string
  le_owner :: string
  le_acquired :: instant
  le_heartbeat :: instant
  le_expires :: instant

datatype lock_error = LockConflict | LockLost

definition lease_seconds :: int where
  "lease_seconds = 60"

definition lease_key :: "lease \<Rightarrow> string \<times> string" where
  "lease_key d = (le_tenant d, le_booking d)"

text \<open>The user and the lock id of a lease.\<close>

definition lease_view :: "lease \<Rightarrow> string \<times> string" where
  "lease_view d = (le_owner d, le_lock d)"

text \<open>The query of an acquisition: an expired lease, or one of this view.\<close>

definition may_take :: "string \<Rightarrow> string \<Rightarrow> string \<Rightarrow> string \<Rightarrow> instant \<Rightarrow> lease \<Rightarrow> bool" where
  "may_take t b owner lock now d \<longleftrightarrow>
     le_tenant d = t \<and> le_booking d = b \<and> (le_expires d \<le> now \<or> le_owner d = owner \<and> le_lock d = lock)"

definition fresh_lease :: "string \<Rightarrow> string \<Rightarrow> string \<Rightarrow> string \<Rightarrow> instant \<Rightarrow> lease" where
  "fresh_lease t b owner lock now =
     \<lparr>le_tenant = t, le_booking = b, le_lock = lock, le_owner = owner,
      le_acquired = now, le_heartbeat = now, le_expires = now + lease_seconds\<rparr>"

text \<open>
  The upsert: the matching document takes all the fields, else a new document is inserted, which the
  unique index may refuse.  The check of the returned document is the code's.
\<close>

definition acquire_reservation_edit_lock ::
  "string \<Rightarrow> string \<Rightarrow> string \<Rightarrow> string \<Rightarrow> instant \<Rightarrow> lease list \<Rightarrow> lease list \<times> (lock_error + lease)" where
  "acquire_reservation_edit_lock t b owner lock now c =
     (let d = fresh_lease t b owner lock now; p = may_take t b owner lock now in
      case (if find_one p c \<noteq> None then Some (update_one p (\<lambda>_. d) c) else insert_unique lease_key d c) of
        None \<Rightarrow> (c, Inl LockConflict)
      | Some c1 \<Rightarrow> (c1, if le_owner d \<noteq> owner \<or> le_lock d \<noteq> lock then Inl LockConflict else Inr d))"

text \<open>The query of a renewal and of a check: the exact view, not expired.\<close>

definition holds_lease :: "string \<Rightarrow> string \<Rightarrow> string \<Rightarrow> string \<Rightarrow> instant \<Rightarrow> lease \<Rightarrow> bool" where
  "holds_lease t b owner lock now d \<longleftrightarrow>
     le_tenant d = t \<and> le_booking d = b \<and> le_owner d = owner \<and> le_lock d = lock \<and> now < le_expires d"

definition extended :: "instant \<Rightarrow> lease \<Rightarrow> lease" where
  "extended now d = d\<lparr>le_heartbeat := now, le_expires := now + lease_seconds\<rparr>"

definition renew_reservation_edit_lock ::
  "string \<Rightarrow> string \<Rightarrow> string \<Rightarrow> string \<Rightarrow> instant \<Rightarrow> lease list \<Rightarrow> lease list \<times> (lock_error + lease)" where
  "renew_reservation_edit_lock t b owner lock now c =
     (let p = holds_lease t b owner lock now in
      case find_one p c of
        None \<Rightarrow> (c, Inl LockLost)
      | Some d \<Rightarrow> (update_one p (extended now) c, Inr (extended now d)))"

definition assert_reservation_edit_lock ::
  "string \<Rightarrow> string \<Rightarrow> string \<Rightarrow> string \<Rightarrow> instant \<Rightarrow> lease list \<Rightarrow> lock_error + lease" where
  "assert_reservation_edit_lock t b owner lock now c =
     (case find_one (holds_lease t b owner lock now) c of None \<Rightarrow> Inl LockLost | Some d \<Rightarrow> Inr d)"

text \<open>Releasing reads the lease and then deletes it: \<open>Inr True\<close> is the way to the deletion.\<close>

definition release_check :: "string \<Rightarrow> string \<Rightarrow> string \<Rightarrow> string \<Rightarrow> lease list \<Rightarrow> lock_error + bool" where
  "release_check t b owner lock c =
     (case find_one (\<lambda>d. lease_key d = (t, b)) c of
        None \<Rightarrow> Inr False
      | Some d \<Rightarrow> if le_owner d \<noteq> owner \<or> le_lock d \<noteq> lock then Inl LockConflict else Inr True)"

definition owned_lease :: "string \<Rightarrow> string \<Rightarrow> string \<Rightarrow> string \<Rightarrow> lease \<Rightarrow> bool" where
  "owned_lease t b owner lock d \<longleftrightarrow> lease_key d = (t, b) \<and> lease_view d = (owner, lock)"

definition release_delete :: "string \<Rightarrow> string \<Rightarrow> string \<Rightarrow> string \<Rightarrow> lease list \<Rightarrow> lease list \<times> bool" where
  "release_delete t b owner lock c = (delete_one (owned_lease t b owner lock) c, find_one (owned_lease t b owner lock) c \<noteq> None)"

definition release_reservation_edit_lock ::
  "string \<Rightarrow> string \<Rightarrow> string \<Rightarrow> string \<Rightarrow> lease list \<Rightarrow> lease list \<times> (lock_error + bool)" where
  "release_reservation_edit_lock t b owner lock c =
     (case release_check t b owner lock c of
        Inl err \<Rightarrow> (c, Inl err)
      | Inr False \<Rightarrow> (c, Inr False)
      | Inr True \<Rightarrow> (let (c1, deleted) = release_delete t b owner lock c in (c1, Inr deleted)))"

text \<open>The index with \<open>expireAfterSeconds = 0\<close>: the database deletes what has expired, sooner or later.\<close>

definition ttl_sweep :: "instant \<Rightarrow> lease list \<Rightarrow> lease list" where
  "ttl_sweep now c = delete_many (\<lambda>d. le_expires d \<le> now) c"

definition heartbeat_seconds :: int where
  "heartbeat_seconds = 20"

definition public_dict :: "lease \<Rightarrow> string \<times> string \<times> int \<times> int \<times> instant \<times> instant \<times> instant" where
  "public_dict d = (le_booking d, le_lock d, lease_seconds, heartbeat_seconds, le_acquired d, le_heartbeat d, le_expires d)"

section \<open>Views that edit at the same time\<close>

record edit_system =
  es_clock :: instant
  es_leases :: "lease list"
  es_releases :: "(string \<times> string \<times> string \<times> string) list"

text \<open>
  One atomic call at a time.  \<open>who\<close> says which views take part; a release that has passed its check
  waits in \<open>es_releases\<close>.
\<close>

inductive edit_step :: "(string \<times> string \<Rightarrow> bool) \<Rightarrow> edit_system \<Rightarrow> edit_system \<Rightarrow> bool" for who where
  Tick: "es_clock s \<le> now \<Longrightarrow> edit_step who s (s\<lparr>es_clock := now\<rparr>)"
| Acquire: "who (owner, lock) \<Longrightarrow> acquire_reservation_edit_lock t b owner lock (es_clock s) (es_leases s) = (c, r) \<Longrightarrow>
     edit_step who s (s\<lparr>es_leases := c\<rparr>)"
| Renew: "who (owner, lock) \<Longrightarrow> renew_reservation_edit_lock t b owner lock (es_clock s) (es_leases s) = (c, r) \<Longrightarrow>
     edit_step who s (s\<lparr>es_leases := c\<rparr>)"
| Check: "who (owner, lock) \<Longrightarrow> release_check t b owner lock (es_leases s) = Inr True \<Longrightarrow>
     edit_step who s (s\<lparr>es_releases := (t, b, owner, lock) # es_releases s\<rparr>)"
| Delete: "who (owner, lock) \<Longrightarrow> (t, b, owner, lock) \<in> set (es_releases s) \<Longrightarrow> release_delete t b owner lock (es_leases s) = (c, r) \<Longrightarrow>
     edit_step who s (s\<lparr>es_leases := c, es_releases := remove1 (t, b, owner, lock) (es_releases s)\<rparr>)"
| Sweep: "edit_step who s (s\<lparr>es_leases := ttl_sweep (es_clock s) (es_leases s)\<rparr>)"

definition lease_ok :: "instant \<Rightarrow> lease \<Rightarrow> bool" where
  "lease_ok now d \<longleftrightarrow> le_acquired d \<le> le_heartbeat d \<and> le_heartbeat d \<le> now \<and> le_expires d = le_heartbeat d + lease_seconds"

definition edit_inv :: "edit_system \<Rightarrow> bool" where
  "edit_inv s \<longleftrightarrow> distinct (map lease_key (es_leases s)) \<and> (\<forall>d \<in> set (es_leases s). lease_ok (es_clock s) d)"

lemma lease_key_sel [simp]:
  "lease_key (fresh_lease t b owner lock now) = (t, b)" "lease_key (extended now d) = lease_key d"
  "lease_view (fresh_lease t b owner lock now) = (owner, lock)" "lease_view (extended now d) = lease_view d"
  by (simp_all add: lease_key_def lease_view_def fresh_lease_def extended_def)

lemma same_lease: "distinct (map lease_key c) \<Longrightarrow> d \<in> set c \<Longrightarrow> e \<in> set c \<Longrightarrow> lease_key d = lease_key e \<Longrightarrow> d = e"
  by (auto simp: distinct_map dest: inj_onD)

lemma find_one_only:
  assumes "d \<in> set c" "p d" "\<And>e. e \<in> set c \<Longrightarrow> p e \<Longrightarrow> e = d"
  shows "find_one p c = Some d"
proof (cases "find_one p c")
  case None
  then show ?thesis using assms(1,2) by (simp add: find_one_None)
next
  case (Some e)
  from find_one_Some[OF Some] assms(3) have "e = d" by blast
  with Some show ?thesis by simp
qed

text \<open>On a collection with the unique index an update by key replaces one document.\<close>

lemma set_update_one_key:
  assumes "distinct (map lease_key c)" "\<And>d. p d \<Longrightarrow> lease_key d = k"
  shows "set (update_one p f c) = {d \<in> set c. \<not> p d} \<union> f ` {d \<in> set c. p d}"
  by (auto simp: update_one_unique[OF assms] update_many_def)

lemma acquire_leases:
  assumes "distinct (map lease_key c)" "acquire_reservation_edit_lock t b owner lock now c = (c1, r)"
  shows "distinct (map lease_key c1) \<and>
    (case r of
       Inr d \<Rightarrow> d = fresh_lease t b owner lock now \<and> set c1 = insert d {e \<in> set c. lease_key e \<noteq> (t, b)} \<and>
         (\<forall>e \<in> set c. lease_key e = (t, b) \<longrightarrow> may_take t b owner lock now e)
     | Inl err \<Rightarrow> err = LockConflict \<and> c1 = c \<and> (\<exists>e \<in> set c. lease_key e = (t, b) \<and> now < le_expires e \<and> lease_view e \<noteq> (owner, lock)))"
proof -
  let ?p = "may_take t b owner lock now" and ?d = "fresh_lease t b owner lock now"
  have key: "lease_key d = (t, b)" if "?p d" for d using that by (simp add: may_take_def lease_key_def)
  have own: "le_owner ?d = owner" "le_lock ?d = lock" by (simp_all add: fresh_lease_def)
  show ?thesis
  proof (cases "find_one ?p c")
    case None
    then have none: "\<forall>d \<in> set c. \<not> ?p d" by (simp add: find_one_None)
    then have other: "now < le_expires e \<and> lease_view e \<noteq> (owner, lock)" if "e \<in> set c" "lease_key e = (t, b)" for e
      using that by (auto simp: may_take_def lease_key_def lease_view_def)
    show ?thesis
    proof (cases "insert_unique lease_key ?d c")
      case None
      with assms(2) \<open>find_one ?p c = None\<close> have r: "c1 = c" "r = Inl LockConflict" by (auto simp: acquire_reservation_edit_lock_def Let_def)
      obtain e where "e \<in> set c" "lease_key e = (t, b)" using None unfolding insert_unique_None by auto
      with assms(1) r other show ?thesis by auto
    next
      case (Some c2)
      with assms(2) own \<open>find_one ?p c = None\<close> have r: "c1 = c2" "r = Inr ?d" by (auto simp: acquire_reservation_edit_lock_def Let_def)
      have c2: "\<forall>e \<in> set c. lease_key e \<noteq> (t, b)" "c2 = c @ [?d]" using Some unfolding insert_unique_Some by auto
      with assms(1) r show ?thesis by auto
    qed
  next
    case (Some e)
    then have e: "e \<in> set c" "?p e" by (auto dest: find_one_Some)
    have r: "c1 = update_one ?p (\<lambda>_. ?d) c" "r = Inr ?d"
      using assms(2) Some own by (auto simp: acquire_reservation_edit_lock_def Let_def)
    have others: "{x \<in> set c. \<not> ?p x} = {x \<in> set c. lease_key x \<noteq> (t, b)}"
      using same_lease[OF assms(1) e(1)] e key by fastforce
    have "map lease_key c1 = map lease_key c" unfolding r(1)
      using map_update_one[of ?p lease_key "\<lambda>_. ?d" c] key by simp
    moreover have "set c1 = insert ?d {x \<in> set c. lease_key x \<noteq> (t, b)}"
      using set_update_one_key[of c ?p "(t, b)" "\<lambda>_. ?d", OF assms(1) key] others e by (auto simp: r(1))
    moreover have "may_take t b owner lock now x" if "x \<in> set c" "lease_key x = (t, b)" for x
      using same_lease[OF assms(1) e(1) that(1)] that(2) e key by auto
    ultimately show ?thesis using assms(1) r(2) by auto
  qed
qed

text \<open>A renewal extends one lease; a release deletes at most its own; the sweep deletes expired ones.\<close>

lemma renew_leases:
  assumes "distinct (map lease_key c)" "renew_reservation_edit_lock t b owner lock now c = (c1, r)"
  shows "distinct (map lease_key c1) \<and>
    set c1 = {e \<in> set c. \<not> holds_lease t b owner lock now e} \<union> extended now ` {e \<in> set c. holds_lease t b owner lock now e}"
proof -
  let ?p = "holds_lease t b owner lock now"
  have key: "lease_key d = (t, b)" if "?p d" for d using that by (simp add: holds_lease_def lease_key_def)
  have "c1 = update_one ?p (extended now) c"
    using assms(2) by (auto simp: renew_reservation_edit_lock_def Let_def find_one_None update_one_none split: option.splits)
  then show ?thesis using assms(1) set_update_one_key[OF assms(1) key]
    by (simp add: map_update_one[of ?p lease_key "extended now" c])
qed

lemma release_leases:
  assumes "distinct (map lease_key c)" "release_delete t b owner lock c = (c1, r)"
  shows "distinct (map lease_key c1) \<and> set c1 = {e \<in> set c. \<not> owned_lease t b owner lock e} \<and>
    r = (\<exists>e \<in> set c. owned_lease t b owner lock e)"
proof -
  have "c1 = delete_many (owned_lease t b owner lock) c"
    using assms delete_one_unique[OF assms(1), of "owned_lease t b owner lock"] by (auto simp: release_delete_def owned_lease_def)
  moreover have "r = (\<exists>e \<in> set c. owned_lease t b owner lock e)"
    using assms(2) by (auto simp: release_delete_def find_one_None)
  ultimately show ?thesis using distinct_delete_many[OF assms(1)] by (simp add: set_delete_many)
qed

lemma sweep_leases:
  "distinct (map lease_key c) \<Longrightarrow> distinct (map lease_key (ttl_sweep now c)) \<and> set (ttl_sweep now c) = {d \<in> set c. now < le_expires d}"
  by (auto simp: ttl_sweep_def distinct_delete_many set_delete_many)

lemma lease_ok_new [simp]: "lease_ok now (fresh_lease t b owner lock now)"
  by (simp add: lease_ok_def fresh_lease_def)

lemma lease_ok_extended: "lease_ok now d \<Longrightarrow> lease_ok now (extended now d)"
  by (simp add: lease_ok_def extended_def)

lemma edit_inv_step:
  assumes "edit_inv s" "edit_step who s s'"
  shows "edit_inv s'"
proof -
  have d: "distinct (map lease_key (es_leases s))" and ok: "\<forall>d \<in> set (es_leases s). lease_ok (es_clock s) d"
    using assms(1) by (auto simp: edit_inv_def)
  from assms(2) show ?thesis
  proof cases
    case (Tick now)
    then show ?thesis using d ok by (auto simp: edit_inv_def lease_ok_def)
  next
    case (Acquire owner lock t b c r)
    then show ?thesis using acquire_leases[OF d Acquire(3)] ok by (cases r) (auto simp: edit_inv_def)
  next
    case (Renew owner lock t b c r)
    then show ?thesis using renew_leases[OF d Renew(3)] ok by (auto simp: edit_inv_def lease_ok_extended)
  next
    case (Check owner lock t b)
    then show ?thesis using d ok by (simp add: edit_inv_def)
  next
    case (Delete owner lock t b c r)
    then show ?thesis using release_leases[OF d Delete(4)] ok by (auto simp: edit_inv_def)
  next
    case Sweep
    then show ?thesis using sweep_leases[OF d] ok by (auto simp: edit_inv_def)
  qed
qed

interpretation edit_views: invariant_system "\<lambda>s. es_leases s = []" "edit_step who" edit_inv for who
  by unfold_locales (simp add: edit_inv_def, rule edit_inv_step)

lemma assert_holds:
  "assert_reservation_edit_lock t b owner lock now c = Inr d \<Longrightarrow> d \<in> set c \<and> holds_lease t b owner lock now d"
  by (auto simp: assert_reservation_edit_lock_def split: option.splits dest: find_one_Some)

text \<open>
  However the views acquire, renew, check and release, with a release running across the
  steps of others, at every moment at most one view passes the check of a booking, and the lease it
  then holds ends within a minute of now.
\<close>

theorem one_editor_per_booking:
  assumes "es_leases s0 = []" "(edit_step who)\<^sup>*\<^sup>* s0 s"
    and "assert_reservation_edit_lock t b owner lock (es_clock s) (es_leases s) = Inr d"
    and "assert_reservation_edit_lock t b owner' lock' (es_clock s) (es_leases s) = Inr d'"
  shows "owner' = owner \<and> lock' = lock \<and> d' = d \<and> es_clock s < le_expires d \<and> le_expires d \<le> es_clock s + lease_seconds"
proof -
  have inv: "edit_inv s" by (rule edit_views.reachable_inv[OF assms(1,2)])
  have d: "d \<in> set (es_leases s)" "holds_lease t b owner lock (es_clock s) d" using assert_holds[OF assms(3)] by auto
  have d': "d' \<in> set (es_leases s)" "holds_lease t b owner' lock' (es_clock s) d'" using assert_holds[OF assms(4)] by auto
  have "d' = d" using inv d d' same_lease[of "es_leases s" d' d] by (auto simp: edit_inv_def holds_lease_def lease_key_def)
  moreover have "lease_ok (es_clock s) d" using inv d by (simp add: edit_inv_def)
  ultimately show ?thesis using d d' by (auto simp: holds_lease_def lease_ok_def)
qed

text \<open>One step of other views, while the lease lasts, leaves it as it is.\<close>

lemma lease_stays:
  assumes "edit_inv s" "edit_step (\<lambda>v. v \<noteq> lease_view d) s s'" "d \<in> set (es_leases s)" "es_clock s' < le_expires d"
  shows "d \<in> set (es_leases s') \<and> es_clock s \<le> es_clock s'"
proof -
  have dist: "distinct (map lease_key (es_leases s))" using assms(1) by (simp add: edit_inv_def)
  from assms(2) show ?thesis
  proof cases
    case (Tick now)
    then show ?thesis using assms(3) by simp
  next
    case (Acquire owner lock t b c r)
    have "lease_key d \<noteq> (t, b)" if "r = Inr e" for e
      using acquire_leases[OF dist Acquire(3)] assms(3,4) Acquire(1,2) \<open>r = Inr e\<close> by (auto simp: may_take_def lease_view_def)
    then show ?thesis using acquire_leases[OF dist Acquire(3)] assms(3) Acquire(1) by (cases r) auto
  next
    case (Renew owner lock t b c r)
    then show ?thesis using renew_leases[OF dist Renew(3)] assms(3) by (auto simp: holds_lease_def lease_view_def)
  next
    case (Check owner lock t b)
    then show ?thesis using assms(3) by simp
  next
    case (Delete owner lock t b c r)
    then show ?thesis using release_leases[OF dist Delete(4)] assms(3) by (auto simp: owned_lease_def)
  next
    case Sweep
    then show ?thesis using sweep_leases[OF dist] assms(3,4) by auto
  qed
qed

lemma lease_stays_run:
  assumes "(edit_step (\<lambda>v. v \<noteq> lease_view d))\<^sup>*\<^sup>* s s'" "edit_inv s" "d \<in> set (es_leases s)"
  shows "es_clock s' < le_expires d \<Longrightarrow> edit_inv s' \<and> d \<in> set (es_leases s') \<and> es_clock s \<le> es_clock s'"
  using assms(1)
proof (induction rule: rtranclp_induct)
  case (step y z)
  have "es_clock y \<le> es_clock z" using step.hyps(2) by cases auto
  then have y: "edit_inv y" "d \<in> set (es_leases y)" "es_clock s \<le> es_clock y" using step by auto
  then show ?case using lease_stays[OF y(1) step.hyps(2) y(2) step.prems] edit_inv_step[OF y(1) step.hyps(2)] by auto
qed (use assms in simp)

text \<open>
  C22.  A lease protects its view until it expires: whatever the other views and the sweep do in the
  meantime, the view still passes the check with the same lease, and for another view acquiring
  conflicts and changes nothing, renewing and checking report a lost lease, and releasing conflicts.
\<close>

theorem lease_protects_editor:
  assumes "es_leases s0 = []" "(edit_step who)\<^sup>*\<^sup>* s0 s" "d \<in> set (es_leases s)"
    and "(edit_step (\<lambda>v. v \<noteq> lease_view d))\<^sup>*\<^sup>* s s'" "es_clock s' < le_expires d" "(owner, lock) \<noteq> lease_view d"
  shows "assert_reservation_edit_lock (le_tenant d) (le_booking d) (le_owner d) (le_lock d) (es_clock s') (es_leases s') = Inr d \<and>
    acquire_reservation_edit_lock (le_tenant d) (le_booking d) owner lock (es_clock s') (es_leases s') = (es_leases s', Inl LockConflict) \<and>
    renew_reservation_edit_lock (le_tenant d) (le_booking d) owner lock (es_clock s') (es_leases s') = (es_leases s', Inl LockLost) \<and>
    assert_reservation_edit_lock (le_tenant d) (le_booking d) owner lock (es_clock s') (es_leases s') = Inl LockLost \<and>
    release_check (le_tenant d) (le_booking d) owner lock (es_leases s') = Inl LockConflict"
proof -
  let ?t = "le_tenant d" and ?b = "le_booking d" and ?now = "es_clock s'" and ?c = "es_leases s'"
  have st: "edit_inv s'" "d \<in> set ?c"
    using lease_stays_run[OF assms(4) edit_views.reachable_inv[OF assms(1,2)] assms(3,5)] by auto
  then have dist: "distinct (map lease_key ?c)" by (simp add: edit_inv_def)
  have only: "e = d" if "e \<in> set ?c" "lease_key e = (?t, ?b)" for e
    using same_lease[OF dist that(1) st(2)] that(2) by (simp add: lease_key_def)
  have mine: "find_one p ?c = Some d" if "p d" "\<And>e. p e \<Longrightarrow> lease_key e = (?t, ?b)" for p
    using st(2) that only by (intro find_one_only) blast+
  have none: "find_one p ?c = None" if "\<not> p d" "\<And>e. p e \<Longrightarrow> lease_key e = (?t, ?b)" for p
    unfolding find_one_None using that only by blast
  have no_take: "find_one (may_take ?t ?b owner lock ?now) ?c = None"
    using assms(5,6) by (intro none) (auto simp: may_take_def lease_key_def lease_view_def)
  have no_hold: "find_one (holds_lease ?t ?b owner lock ?now) ?c = None"
    using assms(6) by (intro none) (auto simp: holds_lease_def lease_key_def lease_view_def)
  have full: "insert_unique lease_key (fresh_lease ?t ?b owner lock ?now) ?c = None"
    unfolding insert_unique_None using st(2) by (auto simp: lease_key_def fresh_lease_def)
  have hold: "find_one (holds_lease ?t ?b (le_owner d) (le_lock d) ?now) ?c = Some d"
    using assms(5) by (intro mine) (auto simp: holds_lease_def lease_key_def)
  have key: "find_one (\<lambda>e. lease_key e = (?t, ?b)) ?c = Some d" by (intro mine) (auto simp: lease_key_def)
  show ?thesis using assms(6)
    by (auto simp: acquire_reservation_edit_lock_def renew_reservation_edit_lock_def assert_reservation_edit_lock_def
        release_check_def Let_def no_take no_hold full hold key lease_view_def)
qed

text \<open>
  With the unique index, acquiring conflicts, and changes nothing, exactly when another view
  holds a lease of the booking that has not expired; otherwise the view gets a lease of 60 seconds that
  replaces whatever was there, passes its check until then, and touches no other booking.
\<close>

theorem acquire_outcome:
  assumes "distinct (map lease_key c)"
  shows "(let (c1, r) = acquire_reservation_edit_lock t b owner lock now c in
    if \<exists>e \<in> set c. lease_key e = (t, b) \<and> now < le_expires e \<and> lease_view e \<noteq> (owner, lock)
    then r = Inl LockConflict \<and> c1 = c
    else r = Inr (fresh_lease t b owner lock now) \<and> distinct (map lease_key c1) \<and>
         set c1 = insert (fresh_lease t b owner lock now) {e \<in> set c. lease_key e \<noteq> (t, b)} \<and>
         (\<forall>i. now \<le> i \<and> i < now + lease_seconds \<longrightarrow> assert_reservation_edit_lock t b owner lock i c1 = Inr (fresh_lease t b owner lock now)))"
proof -
  obtain c1 r where run: "acquire_reservation_edit_lock t b owner lock now c = (c1, r)" by fastforce
  note a = acquire_leases[OF assms run]
  show ?thesis
  proof (cases r)
    case (Inl err)
    then show ?thesis using a run by auto
  next
    case (Inr d)
    then have free: "\<not> (\<exists>e \<in> set c. lease_key e = (t, b) \<and> now < le_expires e \<and> lease_view e \<noteq> (owner, lock))"
      and d: "d = fresh_lease t b owner lock now" and c1: "set c1 = insert d {e \<in> set c. lease_key e \<noteq> (t, b)}"
      using a by (auto simp: may_take_def lease_key_def lease_view_def)
    have "assert_reservation_edit_lock t b owner lock i c1 = Inr d" if i: "i < now + lease_seconds" for i
    proof -
      have "holds_lease t b owner lock i d" using i by (simp add: d holds_lease_def fresh_lease_def)
      moreover have "e = d" if "e \<in> set c1" "holds_lease t b owner lock i e" for e
        using that c1 by (auto simp: holds_lease_def lease_key_def)
      moreover have "d \<in> set c1" using c1 by simp
      ultimately have "find_one (holds_lease t b owner lock i) c1 = Some d" by (intro find_one_only)
      then show ?thesis by (simp add: assert_reservation_edit_lock_def)
    qed
    then show ?thesis using a free Inr d by (simp add: run)
  qed
qed

text \<open>Releasing: done at once for the holder, refused for others, nothing to do without a lease.\<close>

lemma release_outcome:
  "release_reservation_edit_lock t b owner lock c =
    (case find_one (\<lambda>d. lease_key d = (t, b)) c of
       None \<Rightarrow> (c, Inr False)
     | Some d \<Rightarrow> if lease_view d = (owner, lock) then (delete_one (owned_lease t b owner lock) c, Inr True) else (c, Inl LockConflict))"
proof (cases "find_one (\<lambda>d. lease_key d = (t, b)) c")
  case None
  then show ?thesis by (simp add: release_reservation_edit_lock_def release_check_def)
next
  case (Some d)
  then have d: "d \<in> set c" "lease_key d = (t, b)" by (auto dest: find_one_Some)
  have "find_one (owned_lease t b owner lock) c \<noteq> None" if "lease_view d = (owner, lock)"
    using d that by (auto simp: find_one_None owned_lease_def)
  then show ?thesis using Some
    by (simp add: release_reservation_edit_lock_def release_check_def release_delete_def lease_view_def)
qed

section \<open>A reservation edited by two views\<close>

theorem acquire_outcome_witness:
  "fst (acquire_reservation_edit_lock ''t'' ''b1'' ''eve'' ''v2'' 159 [fresh_lease ''t'' ''b1'' ''ann'' ''v1'' 100])
     = [fresh_lease ''t'' ''b1'' ''ann'' ''v1'' 100] \<and>
   snd (acquire_reservation_edit_lock ''t'' ''b1'' ''eve'' ''v2'' 160 [fresh_lease ''t'' ''b1'' ''ann'' ''v1'' 100])
     = Inr (fresh_lease ''t'' ''b1'' ''eve'' ''v2'' 160)"
proof -
  let ?d = "fresh_lease ''t'' ''b1'' ''ann'' ''v1'' 100"
  have view: "lease_key ?d = (''t'', ''b1'')" "lease_view ?d \<noteq> (''eve'', ''v2'')" "le_expires ?d = 160"
    by (simp, simp, simp add: fresh_lease_def lease_seconds_def)
  show ?thesis
    using acquire_outcome[of "[?d]" "''t''" "''b1''" "''eve''" "''v2''" 159] acquire_outcome[of "[?d]" "''t''" "''b1''" "''eve''" "''v2''" 160] view
    by (auto simp: case_prod_beta Let_def)
qed

definition ann_edits :: edit_system where
  "ann_edits = \<lparr>es_clock = 100, es_leases = [fresh_lease ''t'' ''b1'' ''ann'' ''v1'' 100], es_releases = []\<rparr>"

lemma ann_edits_reached: "(edit_step (\<lambda>_. True))\<^sup>*\<^sup>* \<lparr>es_clock = 100, es_leases = [], es_releases = []\<rparr> ann_edits"
  using edit_step.Acquire[of "\<lambda>_. True" "''ann''" "''v1''" "''t''" "''b1''" "\<lparr>es_clock = 100, es_leases = [], es_releases = []\<rparr>"]
  by (intro r_into_rtranclp) (simp add: ann_edits_def acquire_reservation_edit_lock_def Let_def find_one_def insert_unique_def fresh_lease_def)

theorem one_editor_per_booking_witness:
  "assert_reservation_edit_lock ''t'' ''b1'' ''ann'' ''v1'' 100 (es_leases ann_edits) = Inr (fresh_lease ''t'' ''b1'' ''ann'' ''v1'' 100) \<and>
   le_expires (fresh_lease ''t'' ''b1'' ''ann'' ''v1'' 100) \<le> 100 + lease_seconds"
proof -
  have a: "assert_reservation_edit_lock ''t'' ''b1'' ''ann'' ''v1'' (es_clock ann_edits) (es_leases ann_edits) = Inr (fresh_lease ''t'' ''b1'' ''ann'' ''v1'' 100)"
    by (simp add: ann_edits_def assert_reservation_edit_lock_def find_one_def holds_lease_def fresh_lease_def lease_seconds_def)
  from one_editor_per_booking[OF _ ann_edits_reached a a] a show ?thesis by (simp add: ann_edits_def)
qed

theorem lease_protects_editor_witness:
  "acquire_reservation_edit_lock ''t'' ''b1'' ''eve'' ''v2'' 150 (es_leases ann_edits) = (es_leases ann_edits, Inl LockConflict)"
proof -
  let ?d = "fresh_lease ''t'' ''b1'' ''ann'' ''v1'' 100"
  have run: "(edit_step (\<lambda>v. v \<noteq> lease_view ?d))\<^sup>*\<^sup>* ann_edits (ann_edits\<lparr>es_clock := 150\<rparr>)"
    by (intro r_into_rtranclp edit_step.Tick) (simp add: ann_edits_def)
  have "?d \<in> set (es_leases ann_edits)" by (simp add: ann_edits_def)
  from lease_protects_editor[OF _ ann_edits_reached this run, of "''eve''" "''v2''"] show ?thesis
    by (simp add: ann_edits_def fresh_lease_def lease_seconds_def lease_view_def)
qed

end
