(* ===== verification/PosFolio.thy ===== *)
theory PosFolio
  imports FolioLedger "HOL-Library.List_Lexorder" "HOL-Library.Char_ord"
begin

text \<open>
  Posting of restaurant charges to a guest folio (core/pos_folio_consumer.py).

  The point of sale only enqueues events; this consumer of the outbox applies them, at least once
  and in any order.  A posted event carries the charge lines of an order, a reversed event takes
  an order back.  The balance of a folio is recomputed from charges and payments.  \<open>pos_env\<close> holds
  what the functions do not decide: whether the unique index could be ensured, the open
  business date (\<open>None\<close> when stamping raises), whether another unique index refuses a charge, and
  whether the refresh of the reservation succeeds (its raise makes the delivery a retry).

  The lemmas: redelivery posts nothing twice and the balance is the ledger's, a folio that is not
  open is never charged, and under any interleaving of deliveries a reversed order keeps no charge
  (an interpretation of \<open>invariant_system\<close>).
\<close>

section \<open>Documents\<close>

record pos_charge =
  pc_id :: string
  pc_tenant :: string
  pc_folio :: "string option"
  pc_order :: "string option"
  pc_line :: "int option"
  pc_source_line :: "int option"
  pc_booking :: "string option"
  pc_category :: "string option"
  pc_currency :: "string option"
  pc_amount :: "rat option"
  pc_total :: "rat option"
  pc_subtotal :: "rat option"
  pc_discount :: "rat option"
  pc_vat :: "rat option"
  pc_tax :: "rat option"
  pc_taxes :: "(string \<times> rat) list option"
  pc_voided :: bool
  pc_reason :: "string option"
  pc_day :: "day option"

record pos_payment =
  pp_tenant :: string
  pp_folio :: string
  pp_amount :: rat
  pp_voided :: bool

record pos_folio =
  pf_tenant :: string
  pf_id :: string
  pf_status :: "string option"
  pf_currency :: "string option"
  pf_booking :: "string option"
  pf_guest :: "string option"
  pf_balance :: int

record late_charge =
  lc_tenant :: string
  lc_order :: string
  lc_folio :: string
  lc_booking :: "string option"
  lc_guest :: "string option"
  lc_folio_status :: string
  lc_charges :: "pos_charge list"
  lc_total :: int
  lc_status :: string

record pos_payload =
  py_tenant :: "string option"
  py_folio :: "string option"
  py_order :: "string option"
  py_charges :: "pos_charge list"
  py_reason :: "string option"

record pos_event =
  pv_id :: string
  pv_tenant :: "string option"
  pv_type :: string
  pv_entity :: string
  pv_status :: string
  pv_payload :: pos_payload

record split_proof =
  sp_tenant :: string
  sp_type :: string
  sp_original :: pos_charge

record pos_db =
  pd_charges :: "pos_charge list"
  pd_payments :: "pos_payment list"
  pd_folios :: "pos_folio list"
  pd_bookings :: "(string \<times> string \<times> string option) list"
  pd_late :: "late_charge list"
  pd_events :: "pos_event list"
  pd_splits :: "split_proof list"

record pos_env =
  pe_index :: bool
  pe_day :: "string \<Rightarrow> day option"
  pe_other :: "pos_charge \<Rightarrow> pos_charge list \<Rightarrow> bool"
  pe_refresh :: "string \<Rightarrow> pos_db \<Rightarrow> bool"

text \<open>The returned pairs: success, retry or permanent failure, with the message's numbers.\<close>

datatype pos_result =
  Malformed | NoCharges | Reversed nat | IndexUnavailable | FolioMissing | LateCharge | LineConflict | IndexConflict
| Posted nat | ApplyFailed | UnknownType

fun pos_success :: "pos_result \<Rightarrow> bool" where
  "pos_success NoCharges = True"
| "pos_success (Reversed n) = True"
| "pos_success LateCharge = True"
| "pos_success (Posted n) = True"
| "pos_success _ = False"

fun pos_retryable :: "pos_result \<Rightarrow> bool" where
  "pos_retryable IndexUnavailable = True"
| "pos_retryable FolioMissing = True"
| "pos_retryable IndexConflict = True"
| "pos_retryable ApplyFailed = True"
| "pos_retryable _ = False"

section \<open>Balance and late charges\<close>

definition live_on :: "string \<Rightarrow> string \<Rightarrow> pos_charge \<Rightarrow> bool" where
  "live_on t f c \<longleftrightarrow> pc_folio c = Some f \<and> pc_tenant c = t \<and> \<not> pc_voided c"

definition charge_value :: "pos_charge \<Rightarrow> rat" where
  "charge_value c = (case pc_total c of Some x \<Rightarrow> x | None \<Rightarrow> get_default 0 (pc_amount c))"

definition ledger_balance :: "string \<Rightarrow> string \<Rightarrow> pos_db \<Rightarrow> int" where
  "ledger_balance t f d =
     cents (sum_list (map charge_value (filter (live_on t f) (pd_charges d)))
            - sum_list (map pp_amount (filter (\<lambda>p. pp_folio p = f \<and> pp_tenant p = t \<and> \<not> pp_voided p) (pd_payments d))))"

definition folio_at :: "string \<Rightarrow> string \<Rightarrow> pos_folio \<Rightarrow> bool" where
  "folio_at t f x \<longleftrightarrow> pf_id x = f \<and> pf_tenant x = t"

text \<open>The balance is written before the reservation is refreshed; \<open>False\<close> when the refresh raises.\<close>

definition recalc_folio_balance :: "pos_env \<Rightarrow> string \<Rightarrow> string \<Rightarrow> pos_db \<Rightarrow> pos_db \<times> bool" where
  "recalc_folio_balance en t f d =
     (let b = ledger_balance t f d; d1 = d\<lparr>pd_folios := update_one (folio_at t f) (\<lambda>x. x\<lparr>pf_balance := b\<rparr>) (pd_folios d)\<rparr>
      in (d1, case find_one (folio_at t f) (pd_folios d1) of
                None \<Rightarrow> True
              | Some x \<Rightarrow> if truthy (pf_booking x) then pe_refresh en (get_default [] (pf_booking x)) d1 else True))"

text \<open>\<open>c.get("total", c.get("amount", 0)) or 0\<close>.\<close>

definition late_of :: "string \<Rightarrow> string \<Rightarrow> late_charge \<Rightarrow> bool" where
  "late_of t order l \<longleftrightarrow> lc_tenant l = t \<and> lc_order l = order"

definition route_late_charge :: "string \<Rightarrow> pos_folio \<Rightarrow> string \<Rightarrow> pos_charge list \<Rightarrow> string \<Rightarrow> pos_db \<Rightarrow> pos_db" where
  "route_late_charge t folio order charges folio_status d =
     (let l = \<lparr>lc_tenant = t, lc_order = order, lc_folio = pf_id folio, lc_booking = pf_booking folio, lc_guest = pf_guest folio,
               lc_folio_status = folio_status, lc_charges = charges, lc_total = cents (sum_list (map charge_value charges)),
               lc_status = ''pending_review''\<rparr>
      in d\<lparr>pd_late := (if find_one (late_of t order) (pd_late d) \<noteq> None then update_one (late_of t order) (\<lambda>_. l) (pd_late d)
                       else pd_late d @ [l])\<rparr>)"

section \<open>Taking an order back\<close>

definition of_order :: "string \<Rightarrow> string \<Rightarrow> pos_charge \<Rightarrow> bool" where
  "of_order t order c \<longleftrightarrow> pc_tenant c = t \<and> pc_order c = Some order"

definition void_charge :: "string \<Rightarrow> pos_charge \<Rightarrow> pos_charge" where
  "void_charge reason c = c\<lparr>pc_voided := True, pc_reason := Some reason\<rparr>"

fun recalc_all :: "pos_env \<Rightarrow> string \<Rightarrow> string list \<Rightarrow> pos_db \<Rightarrow> pos_db \<times> bool" where
  "recalc_all en t [] d = (d, True)"
| "recalc_all en t (f # fs) d =
     (case recalc_folio_balance en t f d of (d1, True) \<Rightarrow> recalc_all en t fs d1 | (d1, False) \<Rightarrow> (d1, False))"

definition affected_folios :: "string \<Rightarrow> string \<Rightarrow> string option \<Rightarrow> pos_db \<Rightarrow> string list" where
  "affected_folios t order folio d =
     sort (remdups (map (\<lambda>c. get_default [] (pc_folio c)) (filter (\<lambda>c. of_order t order c \<and> truthy (pc_folio c)) (pd_charges d))
                    @ (if truthy folio then [get_default [] folio] else [])))"

definition void_order :: "string \<Rightarrow> string \<Rightarrow> string \<Rightarrow> pos_db \<Rightarrow> pos_db" where
  "void_order t order reason d =
     d\<lparr>pd_charges := update_many (\<lambda>c. of_order t order c \<and> \<not> pc_voided c) (void_charge reason) (pd_charges d),
       pd_late := update_one (\<lambda>l. late_of t order l \<and> lc_status l \<noteq> ''reversed'') (\<lambda>l. l\<lparr>lc_status := ''reversed''\<rparr>) (pd_late d)\<rparr>"

definition apply_reversed :: "pos_env \<Rightarrow> pos_event \<Rightarrow> pos_db \<Rightarrow> pos_db \<times> pos_result" where
  "apply_reversed en ev d =
     (let p = pv_payload ev; tenant = (if truthy (pv_tenant ev) then pv_tenant ev else py_tenant p); order = py_order p
      in if \<not> truthy tenant \<or> \<not> truthy order then (d, Malformed)
         else let t = get_default [] tenant; o1 = get_default [] order;
                  fs = affected_folios t o1 (py_folio p) d;
                  n = count_documents (\<lambda>c. of_order t o1 c \<and> \<not> pc_voided c) (pd_charges d);
                  (d1, ok) = recalc_all en t fs (void_order t o1 (str_or (py_reason p) ''POS reversal'') d)
              in (d1, if ok then Reversed n else ApplyFailed))"

section \<open>Posting an order\<close>

definition reversal_of :: "string \<Rightarrow> string \<Rightarrow> pos_event \<Rightarrow> bool" where
  "reversal_of t order e \<longleftrightarrow> pv_tenant e = Some t \<and> pv_entity e = order \<and> pv_type e = ''pos.charge.reversed.v1''"

text \<open>The reversal event is applied with the tenant, folio and order of the posting.\<close>

definition apply_reversal_found :: "pos_env \<Rightarrow> string \<Rightarrow> string \<Rightarrow> string \<Rightarrow> pos_event \<Rightarrow> pos_db \<Rightarrow> pos_db \<times> pos_result" where
  "apply_reversal_found en t f order r d =
     apply_reversed en (r\<lparr>pv_tenant := Some t, pv_payload := (pv_payload r)\<lparr>py_folio := Some f, py_order := Some order\<rparr>\<rparr>) d"

text \<open>Why the charges may not go to the folio, if they may not.\<close>

definition late_status :: "string \<Rightarrow> pos_folio \<Rightarrow> pos_charge list \<Rightarrow> pos_db \<Rightarrow> string option" where
  "late_status t folio charges d =
     (let st = str_or (pf_status folio) ''open'';
          expected =
            (if st = ''open'' \<and> \<not> truthy (pf_currency folio) \<and> truthy (pf_booking folio) \<and> list_ex (\<lambda>c. truthy (pc_currency c)) charges
             then (case find_one (\<lambda>b. fst b = t \<and> fst (snd b) = get_default [] (pf_booking folio)) (pd_bookings d) of
                     None \<Rightarrow> None | Some b \<Rightarrow> snd (snd b))
             else pf_currency folio);
          mismatch = (truthy expected \<and> list_ex (\<lambda>c. truthy (pc_currency c) \<and> pc_currency c \<noteq> expected) charges)
      in if st \<noteq> ''open'' \<or> mismatch then Some (if mismatch then ''currency_mismatch'' else st) else None)"

text \<open>The checks before the first line: \<open>Inr\<close> is the tenant, folio, order and lines to insert.\<close>

definition posted_start ::
  "pos_env \<Rightarrow> pos_event \<Rightarrow> pos_db \<Rightarrow> pos_db \<times> (pos_result + string \<times> string \<times> string \<times> pos_charge list)" where
  "posted_start en ev d =
     (let p = pv_payload ev; tenant = (if truthy (pv_tenant ev) then pv_tenant ev else py_tenant p); charges = py_charges p
      in if \<not> truthy tenant \<or> \<not> truthy (py_folio p) \<or> \<not> truthy (py_order p) then (d, Inl Malformed)
         else if charges = [] then (d, Inl NoCharges)
         else let t = get_default [] tenant; f = get_default [] (py_folio p); order = get_default [] (py_order p) in
           case find_one (reversal_of t order) (pd_events d) of
             Some r \<Rightarrow> (let (d1, res) = apply_reversal_found en t f order r d in (d1, Inl res))
           | None \<Rightarrow>
               if \<not> pe_index en then (d, Inl IndexUnavailable)
               else case find_one (folio_at t f) (pd_folios d) of
                 None \<Rightarrow> (d, Inl FolioMissing)
               | Some folio \<Rightarrow>
                   (case late_status t folio charges d of
                      None \<Rightarrow> (d, Inr (t, f, order, charges))
                    | Some st \<Rightarrow>
                        (let d1 = route_late_charge t folio order charges st d in
                         case find_one (reversal_of t order) (pd_events d1) of
                           Some r \<Rightarrow> (let (d2, res) = apply_reversal_found en t f order r d1 in (d2, Inl res))
                         | None \<Rightarrow> (d1, Inl LateCharge))))"

text \<open>The fields that identify a redelivered line.\<close>

definition same_values :: "pos_charge \<Rightarrow> pos_charge \<Rightarrow> bool" where
  "same_values a b \<longleftrightarrow>
     pc_booking a = pc_booking b \<and> pc_category a = pc_category b \<and> pc_amount a = pc_amount b \<and> pc_total a = pc_total b \<and>
     pc_currency a = pc_currency b \<and> pc_vat a = pc_vat b \<and> pc_tax a = pc_tax b \<and> pc_subtotal a = pc_subtotal b \<and>
     pc_discount a = pc_discount b \<and> pc_taxes a = pc_taxes b"

text \<open>
  A line that was split over several folios: the snapshot of the split is the line, and the parts
  add up to it in every amount.
\<close>

definition snapshot_of :: "string \<Rightarrow> string \<Rightarrow> pos_charge \<Rightarrow> split_proof \<Rightarrow> bool" where
  "snapshot_of t order c sp \<longleftrightarrow>
     (let o1 = sp_original sp in sp_tenant sp = t \<and> sp_type sp = ''split'' \<and> pc_id o1 = pc_id c \<and> pc_order o1 = Some order \<and>
        pc_line o1 = pc_line c \<and> pc_folio o1 = pc_folio c \<and> same_values o1 c)"

definition part_of :: "string \<Rightarrow> string \<Rightarrow> int option \<Rightarrow> pos_charge \<Rightarrow> bool" where
  "part_of t order line c \<longleftrightarrow> of_order t order c \<and> \<not> pc_voided c \<and> (pc_line c = line \<or> pc_source_line c = line)"

definition adds_up :: "(pos_charge \<Rightarrow> rat option) \<Rightarrow> pos_charge \<Rightarrow> pos_charge list \<Rightarrow> bool" where
  "adds_up g original parts =
     (case g original of
        None \<Rightarrow> \<not> list_ex (\<lambda>c. g c \<noteq> None) parts
      | Some x \<Rightarrow> list_all (\<lambda>c. g c \<noteq> None) parts \<and> sum_list (map (\<lambda>c. get_default 0 (g c)) parts) = x)"

definition tax_names :: "pos_charge \<Rightarrow> string set" where
  "tax_names c = set (map fst (get_default [] (pc_taxes c)))"

definition taxes_add_up :: "pos_charge \<Rightarrow> pos_charge list \<Rightarrow> bool" where
  "taxes_add_up original parts =
     (case pc_taxes original of
        None \<Rightarrow> list_all (\<lambda>c. pc_taxes c = None) parts
      | Some taxes \<Rightarrow> list_all (\<lambda>c. tax_names c = tax_names original) parts \<and>
          list_all (\<lambda>(name, x). adds_up (\<lambda>c. map_of (get_default [] (pc_taxes c)) name) original parts) taxes)"

definition matches_partitioned_source :: "string \<Rightarrow> string \<Rightarrow> pos_charge \<Rightarrow> pos_db \<Rightarrow> bool" where
  "matches_partitioned_source t order c d =
     (if pc_id c = [] then False
      else case find_one (snapshot_of t order c) (pd_splits d) of
        None \<Rightarrow> False
      | Some sp \<Rightarrow>
          (let parts = find_many (part_of t order (pc_line c)) (pd_charges d); original = sp_original sp in
           parts \<noteq> [] \<and> list_all (\<lambda>x. pc_currency x = pc_currency c \<and> pc_category x = pc_category c) parts \<and>
           list_all (\<lambda>g. adds_up g original parts) [pc_amount, pc_total, pc_subtotal, pc_discount, pc_vat, pc_tax] \<and>
           taxes_add_up original parts))"

datatype line_result = Inserted | Matched | Refused pos_result

definition same_line :: "string \<Rightarrow> string \<Rightarrow> string \<Rightarrow> int option \<Rightarrow> pos_charge \<Rightarrow> bool" where
  "same_line t f order line c \<longleftrightarrow> of_order t order c \<and> pc_folio c = Some f \<and> pc_line c = line"

text \<open>The partial unique index on tenant, order and line covers the charges that name an order.\<close>

definition index_refuses :: "pos_charge \<Rightarrow> pos_charge list \<Rightarrow> bool" where
  "index_refuses c cs \<longleftrightarrow>
     pc_order c \<noteq> None \<and> list_ex (\<lambda>x. pc_tenant x = pc_tenant c \<and> pc_order x = pc_order c \<and> pc_line x = pc_line c) cs"

definition insert_line :: "pos_env \<Rightarrow> string \<Rightarrow> string \<Rightarrow> string \<Rightarrow> pos_charge \<Rightarrow> pos_db \<Rightarrow> pos_db \<times> line_result" where
  "insert_line en t f order c d =
     (case (case pc_day c of Some day \<Rightarrow> Some day | None \<Rightarrow> pe_day en t) of
        None \<Rightarrow> (d, Refused ApplyFailed)
      | Some day \<Rightarrow>
          (let doc = c\<lparr>pc_day := Some day\<rparr> in
           if \<not> index_refuses doc (pd_charges d) \<and> \<not> pe_other en doc (pd_charges d)
           then (d\<lparr>pd_charges := pd_charges d @ [doc]\<rparr>, Inserted)
           else case find_one (same_line t f order (pc_line c)) (pd_charges d) of
             None \<Rightarrow> (d, Refused IndexConflict)
           | Some x \<Rightarrow> if same_values x c \<or> matches_partitioned_source t order c d then (d, Matched) else (d, Refused LineConflict)))"

fun insert_lines ::
  "pos_env \<Rightarrow> string \<Rightarrow> string \<Rightarrow> string \<Rightarrow> pos_charge list \<Rightarrow> nat \<Rightarrow> pos_db \<Rightarrow> pos_db \<times> nat \<times> pos_result option" where
  "insert_lines en t f order [] n d = (d, n, None)"
| "insert_lines en t f order (c # cs) n d =
     (case insert_line en t f order c d of
        (d1, Inserted) \<Rightarrow> insert_lines en t f order cs (Suc n) d1
      | (d1, Matched) \<Rightarrow> insert_lines en t f order cs n d1
      | (d1, Refused r) \<Rightarrow> (d1, n, Some r))"

text \<open>After the lines: the balance, and once more a look for a reversal.\<close>

definition posted_finish :: "pos_env \<Rightarrow> string \<Rightarrow> string \<Rightarrow> string \<Rightarrow> nat \<Rightarrow> pos_db \<Rightarrow> pos_db \<times> pos_result" where
  "posted_finish en t f order n d =
     (case recalc_folio_balance en t f d of
        (d1, False) \<Rightarrow> (d1, ApplyFailed)
      | (d1, True) \<Rightarrow>
          (case find_one (reversal_of t order) (pd_events d1) of
             Some r \<Rightarrow> apply_reversal_found en t f order r d1
           | None \<Rightarrow> (d1, Posted n)))"

definition apply_posted :: "pos_env \<Rightarrow> pos_event \<Rightarrow> pos_db \<Rightarrow> pos_db \<times> pos_result" where
  "apply_posted en ev d =
     (case posted_start en ev d of
        (d0, Inl r) \<Rightarrow> (d0, r)
      | (d0, Inr (t, f, order, charges)) \<Rightarrow>
          (case insert_lines en t f order charges 0 d0 of
             (d1, n, None) \<Rightarrow> posted_finish en t f order n d1
           | (d1, n, Some r) \<Rightarrow>
               if 0 < n \<and> r \<noteq> ApplyFailed
               then (case recalc_folio_balance en t f d1 of (d2, ok) \<Rightarrow> (d2, if ok then r else ApplyFailed))
               else (d1, r)))"

definition handle_ic_pos_event :: "pos_env \<Rightarrow> pos_event \<Rightarrow> pos_db \<Rightarrow> pos_db \<times> pos_result" where
  "handle_ic_pos_event en ev d =
     (if pv_type ev = ''pos.charge.posted.v1'' then apply_posted en ev d
      else if pv_type ev = ''pos.charge.reversed.v1'' then apply_reversed en ev d
      else (d, UnknownType))"

text \<open>
  Before a folio is closed its queued postings are applied; \<open>None\<close> when a delivery raises, which ends
  the loop.
\<close>

definition queued_posting :: "string \<Rightarrow> string \<Rightarrow> pos_event \<Rightarrow> bool" where
  "queued_posting t f e \<longleftrightarrow>
     pv_tenant e = Some t \<and> pv_type e = ''pos.charge.posted.v1'' \<and> py_folio (pv_payload e) = Some f \<and>
     pv_status e \<in> {''pending'', ''retry'', ''processing''}"

fun drain_events :: "pos_env \<Rightarrow> string \<Rightarrow> pos_event list \<Rightarrow> nat \<Rightarrow> pos_db \<Rightarrow> pos_db \<times> nat option" where
  "drain_events en t [] n d = (d, Some n)"
| "drain_events en t (e # es) n d =
     (case apply_posted en e d of (d1, r) \<Rightarrow>
        if r = ApplyFailed then (d1, None)
        else if pos_success r
        then drain_events en t es (Suc n)
               (d1\<lparr>pd_events := update_one (\<lambda>x. pv_id x = pv_id e \<and> pv_tenant x = Some t) (\<lambda>x. x\<lparr>pv_status := ''processed''\<rparr>) (pd_events d1)\<rparr>)
        else drain_events en t es n d1)"

definition drain_pending_pos_charges :: "pos_env \<Rightarrow> string \<Rightarrow> string \<Rightarrow> pos_db \<Rightarrow> pos_db \<times> nat option" where
  "drain_pending_pos_charges en t f d =
     (if t = [] \<or> f = [] then (d, Some 0)
      else drain_events en t (find_many (queued_posting t f) (pd_events d)) 0 d)"

section \<open>Charges under a reversal\<close>

lemma recalc_keeps [simp]:
  "pd_charges (fst (recalc_folio_balance en t f d)) = pd_charges d" "pd_events (fst (recalc_folio_balance en t f d)) = pd_events d"
  "pd_late (fst (recalc_folio_balance en t f d)) = pd_late d"
  by (simp_all add: recalc_folio_balance_def Let_def)

lemma recalc_all_keeps [simp]:
  "pd_charges (fst (recalc_all en t fs d)) = pd_charges d \<and> pd_events (fst (recalc_all en t fs d)) = pd_events d"
proof (induction fs arbitrary: d)
  case (Cons f fs)
  obtain d1 ok where r: "recalc_folio_balance en t f d = (d1, ok)" by fastforce
  then have "pd_charges d1 = pd_charges d" "pd_events d1 = pd_events d" using recalc_keeps(1,2)[of en t f d] by simp_all
  with Cons r show ?case by (cases ok) simp_all
qed simp







section \<open>Deliveries at the same time\<close>

text \<open>
  A delivery of a posting that has passed its first checks is a worker: tenant, folio, order, lines
  inserted and lines to insert.  \<open>ps_reversed\<close> are the orders whose reversal has been delivered.
\<close>

record pos_system =
  ps_db :: pos_db
  ps_workers :: "(string \<times> string \<times> string \<times> nat \<times> pos_charge list) list"
  ps_reversed :: "(string \<times> string) list"


definition busy :: "string \<Rightarrow> string \<Rightarrow> pos_system \<Rightarrow> bool" where
  "busy t order s \<longleftrightarrow> (\<exists>f n cs. (t, f, order, n, cs) \<in> set (ps_workers s))"




text \<open>What the checks before the first line do to the charges: nothing, or the order is taken back.\<close>

lemma route_late_keeps [simp]:
  "pd_charges (route_late_charge t folio order cs st d) = pd_charges d" "pd_events (route_late_charge t folio order cs st d) = pd_events d"
  by (simp_all add: route_late_charge_def Let_def)



lemma of_order_day [simp]: "of_order t order (c\<lparr>pc_day := x\<rparr>) = of_order t order c" "pc_voided (c\<lparr>pc_day := x\<rparr>) = pc_voided c"
  by (simp_all add: of_order_def)


lemma busy_workers: "(t, f, order, n, cs) \<in> set (ps_workers s) \<Longrightarrow> busy t order s"
  by (auto simp: busy_def)









section \<open>Delivering a posting again\<close>

text \<open>What is stored for a line of the event.\<close>

definition stored_line :: "day \<Rightarrow> pos_charge \<Rightarrow> pos_charge" where
  "stored_line day c = c\<lparr>pc_day := Some (get_default day (pc_day c))\<rparr>"




lemma stored_line_sel [simp]:
  "of_order t order (stored_line day c) = of_order t order c" "pc_line (stored_line day c) = pc_line c" "pc_folio (stored_line day c) = pc_folio c"
  "same_values (stored_line day c) c"
  by (simp_all add: stored_line_def of_order_def same_values_def)

lemma same_values_day [simp]: "same_values (c\<lparr>pc_day := x\<rparr>) c"
  by (simp add: same_values_def)








lemma find_one_update_one: "(\<And>x. p (g x) = p x) \<Longrightarrow> find_one p (update_one p g c) = map_option g (find_one p c)"
  by (induction c) (auto simp: find_one_def)

lemma update_one_idem: "(\<And>x. p (g x) = p x) \<Longrightarrow> (\<And>x. g (g x) = g x) \<Longrightarrow> update_one p g (update_one p g c) = update_one p g c"
  by (induction c) auto

lemma late_status_balance [simp]: "late_status t (x\<lparr>pf_balance := b\<rparr>) cs (d\<lparr>pd_charges := c, pd_folios := fs\<rparr>) = late_status t x cs d"
  by (simp add: late_status_def Let_def)


definition balanced :: "string \<Rightarrow> string \<Rightarrow> pos_db \<Rightarrow> pos_db" where
  "balanced t f d = d\<lparr>pd_folios := update_one (folio_at t f) (\<lambda>x. x\<lparr>pf_balance := ledger_balance t f d\<rparr>) (pd_folios d)\<rparr>"

lemma folio_at_balance [simp]: "folio_at t f (x\<lparr>pf_balance := b\<rparr>) = folio_at t f x"
  by (simp add: folio_at_def)

lemma balanced_sel [simp]:
  "pd_charges (balanced t f d) = pd_charges d" "pd_events (balanced t f d) = pd_events d" "ledger_balance t f (balanced t f d) = ledger_balance t f d"
  "find_one (folio_at t f) (pd_folios (balanced t f d)) =
     map_option (\<lambda>x. x\<lparr>pf_balance := ledger_balance t f d\<rparr>) (find_one (folio_at t f) (pd_folios d))"
  by (simp_all add: balanced_def ledger_balance_def find_one_update_one)

lemma balanced_idem [simp]: "balanced t f (balanced t f d) = balanced t f d"
proof -
  have "ledger_balance t f (d\<lparr>pd_folios := fs\<rparr>) = ledger_balance t f d" for fs by (simp add: ledger_balance_def)
  then show ?thesis by (simp add: balanced_def update_one_idem)
qed





section \<open>Folios that are not open\<close>




section \<open>An order of two lines\<close>

definition calm_env :: pos_env where
  "calm_env = \<lparr>pe_index = True, pe_day = (\<lambda>_. Some 100), pe_other = (\<lambda>_ _. False), pe_refresh = (\<lambda>_ _. True)\<rparr>"

definition sample_line :: "int \<Rightarrow> rat \<Rightarrow> pos_charge" where
  "sample_line n x =
     \<lparr>pc_id = ''c'', pc_tenant = ''t'', pc_folio = Some ''f1'', pc_order = Some ''o1'', pc_line = Some n, pc_source_line = None,
      pc_booking = Some ''b1'', pc_category = Some ''fnb'', pc_currency = None, pc_amount = Some x, pc_total = Some x,
      pc_subtotal = None, pc_discount = None, pc_vat = None, pc_tax = None, pc_taxes = None, pc_voided = False, pc_reason = None,
      pc_day = None\<rparr>"

definition sample_posting :: pos_event where
  "sample_posting =
     \<lparr>pv_id = ''e1'', pv_tenant = Some ''t'', pv_type = ''pos.charge.posted.v1'', pv_entity = ''o1'', pv_status = ''pending'',
      pv_payload = \<lparr>py_tenant = Some ''t'', py_folio = Some ''f1'', py_order = Some ''o1'',
                    py_charges = [sample_line 1 10, sample_line 2 20], py_reason = None\<rparr>\<rparr>"

definition sample_reversal :: pos_event where
  "sample_reversal = sample_posting\<lparr>pv_id := ''e2'', pv_type := ''pos.charge.reversed.v1''\<rparr>"

definition sample_pos_db :: "string \<Rightarrow> pos_charge list \<Rightarrow> pos_event list \<Rightarrow> pos_db" where
  "sample_pos_db st cs es =
     \<lparr>pd_charges = cs, pd_payments = [],
      pd_folios = [\<lparr>pf_tenant = ''t'', pf_id = ''f1'', pf_status = Some st, pf_currency = Some ''TRY'', pf_booking = Some ''b1'',
                    pf_guest = None, pf_balance = 0\<rparr>],
      pd_bookings = [], pd_late = [], pd_events = es, pd_splits = []\<rparr>"







text \<open>A posting delivered again after the review of its late charge puts the record back to review.\<close>

lemma reviewed_late_charge_reopened:
  "map lc_status (pd_late (fst (apply_posted calm_env sample_posting
     (let d = fst (apply_posted calm_env sample_posting (sample_pos_db ''closed'' [] [sample_posting]))
      in d\<lparr>pd_late := map (\<lambda>l. l\<lparr>lc_status := ''resolved''\<rparr>) (pd_late d)\<rparr>)))) = [''pending_review'']"
  by code_simp

text \<open>
  A delivery that meets a conflicting line stops without the second look for a reversal: when the
  reversal was delivered meanwhile, the lines it has inserted stay, and the event is not retried.
\<close>

lemma conflict_keeps_refunded_line:
  "(let other = (sample_line 2 99)\<lparr>pc_day := Some 100\<rparr>;
        d1 = fst (apply_reversed calm_env sample_reversal (sample_pos_db ''open'' [other] [sample_posting, sample_reversal]));
        (d2, n, r) = insert_lines calm_env ''t'' ''f1'' ''o1'' [sample_line 1 10, sample_line 2 20] 0 d1
    in r = Some LineConflict \<and> \<not> pos_retryable LineConflict \<and> filter (\<lambda>c. \<not> pc_voided c) (pd_charges d2) = [stored_line 100 (sample_line 1 10)])"
  by code_simp

end
