(* ===== verification/RoomAssignment.thy ===== *)
theory RoomAssignment
  imports AtomicBooking "HOL-Library.List_Lexorder" "HOL-Library.Char_ord" "HOL-Library.Product_Lexorder"
begin

text \<open>
  Physical rooms for the reservations of the channels (core/room_auto_assignment.py): the rooms
  that are free for a whole stay, the creation of a booking in the first of them, and the
  later assignment of a booking that was stored without a room.

  Rooms and blocks are the two collections \<open>auto_room\<close> and \<open>room_block\<close>; the channel's wishes
  (property, room type, preferred room number) are fields of the document that \<open>booking\<close> does not
  carry.  Labels are ASCII, where the Unicode normalization of the code does nothing.  The lemmas:
  the candidates are the free rooms, a reservation is not lost over a conflict, and one worker promotes
  a booking.
\<close>

section \<open>Documents\<close>

record auto_room =
  ar_tenant :: string
  ar_id :: string
  ar_number :: "string option"
  ar_name :: "string option"
  ar_type :: "string option"
  ar_property :: "string option"
  ar_status :: "string option"
  ar_active :: "bool option"

record room_block =
  rb_tenant :: string
  rb_room :: string
  rb_status :: string
  rb_start :: iso
  rb_end :: "iso option"
  rb_allow_sell :: bool

record wishes =
  w_property :: "string option"
  w_type :: "string option"
  w_type_id :: "string option"
  w_preferred :: "string option"

section \<open>Names and their order\<close>

fun split_words :: "string \<Rightarrow> string \<Rightarrow> string list" where
  "split_words w [] = (if w = [] then [] else [w])"
| "split_words w (c # cs) =
     (if is_space c then (if w = [] then split_words [] cs else w # split_words [] cs) else split_words (w @ [c]) cs)"

definition normalize_room_type :: "string option \<Rightarrow> string" where
  "normalize_room_type v = join '' '' (split_words [] (lower (strip (str_or v []))))"

definition is_digit :: "char \<Rightarrow> bool" where
  "is_digit c \<longleftrightarrow> (let n = of_char c :: nat in 48 \<le> n \<and> n \<le> 57)"

definition number_of :: "string \<Rightarrow> int" where
  "number_of s = foldl (\<lambda>n c. 10 * n + (of_char c - 48)) 0 s"

text \<open>
  The key alternates texts and numbers, beginning and ending with a text; here a list of pairs, the
  last text with the number -1, which orders a name before its longer variants as the tuples do.
\<close>

function natural_parts :: "string \<Rightarrow> (string \<times> int) list" where
  "natural_parts s =
     (let lead = takeWhile (\<lambda>c. \<not> is_digit c) s; rest = dropWhile (\<lambda>c. \<not> is_digit c) s
      in if rest = [] then [(lower lead, - 1)]
         else (lower lead, number_of (takeWhile is_digit rest)) # natural_parts (dropWhile is_digit rest))"
  by auto

termination
proof (relation "measure length")
  fix s lead rest :: string
  assume "rest = dropWhile (\<lambda>c. \<not> is_digit c) s" "rest \<noteq> []"
  then have "is_digit (hd rest)" using hd_dropWhile by metis
  then have "length (dropWhile is_digit rest) < length rest"
    using \<open>rest \<noteq> []\<close> by (cases rest) (auto simp: le_imp_less_Suc length_dropWhile_le)
  also have "\<dots> \<le> length s" using \<open>rest = _\<close> by (simp add: length_dropWhile_le)
  finally show "(dropWhile is_digit rest, s) \<in> measure length" by simp
qed simp

declare natural_parts.simps [simp del]

definition natural_room_key :: "auto_room \<Rightarrow> (string \<times> int) list" where
  "natural_room_key r = natural_parts (str_or (ar_number r) (str_or (ar_name r) (ar_id r)))"

section \<open>The rooms that are free\<close>

definition unsellable_room_statuses :: "string list" where
  "unsellable_room_statuses = [''maintenance'', ''out_of_order'', ''out_of_service'', ''blocked'', ''inactive'']"

definition terminal_stay_statuses :: "string list" where
  "terminal_stay_statuses = [''cancelled'', ''no_show'', ''checked_out'']"

definition room_matches_property :: "auto_room \<Rightarrow> string option \<Rightarrow> bool" where
  "room_matches_property r p \<longleftrightarrow> \<not> truthy p \<or> \<not> truthy (ar_property r) \<or> ar_property r = p"

definition active_room :: "string \<Rightarrow> auto_room \<Rightarrow> bool" where
  "active_room t r \<longleftrightarrow> ar_tenant r = t \<and> ar_active r \<noteq> Some False"

definition eligible_room :: "string option \<Rightarrow> string \<Rightarrow> auto_room \<Rightarrow> bool" where
  "eligible_room p ty r \<longleftrightarrow>
     ar_id r \<noteq> [] \<and> room_matches_property r p \<and> normalize_room_type (ar_type r) = ty \<and>
     lower (strip (str_or (ar_status r) ''available'')) \<notin> set unsellable_room_statuses"

definition occupying :: "string \<Rightarrow> string set \<Rightarrow> iso \<Rightarrow> iso \<Rightarrow> booking \<Rightarrow> bool" where
  "occupying t ids ci co b \<longleftrightarrow>
     b_tenant b = t \<and> (case b_room b of None \<Rightarrow> False | Some r \<Rightarrow> r \<in> ids) \<and>
     (case b_status b of None \<Rightarrow> True | Some st \<Rightarrow> st \<notin> set terminal_stay_statuses) \<and>
     (case b_check_in b of None \<Rightarrow> False | Some x \<Rightarrow> iso_less x co) \<and>
     (case b_check_out b of None \<Rightarrow> False | Some x \<Rightarrow> iso_less ci x)"

definition blocking :: "string \<Rightarrow> string set \<Rightarrow> iso \<Rightarrow> iso \<Rightarrow> room_block \<Rightarrow> bool" where
  "blocking t ids ci co k \<longleftrightarrow>
     rb_tenant k = t \<and> rb_room k \<in> ids \<and> rb_status k = ''active'' \<and> iso_less (rb_start k) co \<and>
     (case rb_end k of None \<Rightarrow> True | Some x \<Rightarrow> iso_less ci x)"

definition locking :: "string \<Rightarrow> string set \<Rightarrow> iso \<Rightarrow> iso \<Rightarrow> lock \<Rightarrow> bool" where
  "locking t ids ci co l \<longleftrightarrow>
     lk_tenant l = t \<and> lk_room l \<in> ids \<and> \<not> iso_less (date_only (lk_night l)) (prefix10 ci) \<and>
     iso_less (date_only (lk_night l)) (prefix10 co)"

definition unavailable_rooms :: "string \<Rightarrow> string set \<Rightarrow> iso \<Rightarrow> iso \<Rightarrow> room_block list \<Rightarrow> db \<Rightarrow> string set" where
  "unavailable_rooms t ids ci co blocks d =
     set (map (\<lambda>b. get_default [] (b_room b)) (to_list 5000 (find_many (occupying t ids ci co) (bookings d)))) \<union>
     set (map rb_room (filter (\<lambda>k. \<not> rb_allow_sell k) (to_list 5000 (find_many (blocking t ids ci co) blocks)))) \<union>
     set (map lk_room (to_list 10000 (find_many (locking t ids ci co) (locks d))))"

text \<open>An absent date is the empty text, for which there is no candidate.\<close>

definition find_auto_assignment_candidates ::
  "string \<Rightarrow> string option \<Rightarrow> string option \<Rightarrow> iso option \<Rightarrow> iso option \<Rightarrow> auto_room list \<Rightarrow> room_block list \<Rightarrow> db \<Rightarrow> auto_room list" where
  "find_auto_assignment_candidates t p room_type check_in check_out rs blocks d =
     (case (check_in, check_out) of
        (Some ci, Some co) \<Rightarrow>
          (let ty = normalize_room_type room_type in
           if ty = [] then []
           else let eligible = filter (eligible_room p ty) (to_list 2000 (find_many (active_room t) rs));
                    taken = unavailable_rooms t (ar_id ` set eligible) ci co blocks d
                in sort_key natural_room_key (filter (\<lambda>r. ar_id r \<notin> taken) eligible))
      | _ \<Rightarrow> [])"

text \<open>The preferred room first, if it is among the candidates.\<close>

definition room_text :: "auto_room \<Rightarrow> string" where
  "room_text r = str_or (ar_number r) (str_or (ar_name r) [])"

definition prefer_room :: "string option \<Rightarrow> auto_room list \<Rightarrow> auto_room list" where
  "prefer_room preferred rs =
     (let p = strip (str_or preferred []) in
      if p = [] then rs else sort_key (\<lambda>r. ((if strip (room_text r) \<noteq> p then 1 else 0 :: int), natural_room_key r)) rs)"

definition candidates_for :: "string \<Rightarrow> wishes \<Rightarrow> booking \<Rightarrow> auto_room list \<Rightarrow> room_block list \<Rightarrow> db \<Rightarrow> auto_room list" where
  "candidates_for t w b rs blocks d =
     prefer_room (w_preferred w)
       (find_auto_assignment_candidates t (w_property w) (if truthy (w_type w) then w_type w else w_type_id w)
          (fst (stay_of b)) (snd (stay_of b)) rs blocks d)"

section \<open>Creating in the first free room\<close>

definition assigned_doc :: "env \<Rightarrow> auto_room \<Rightarrow> booking \<Rightarrow> booking" where
  "assigned_doc en r b =
     b\<lparr>b_room := Some (ar_id r), b_room_number := Some (room_text r),
       b_marks := AList.update ''auto_assigned_at'' (JTime (now en)) (AList.update ''allocation_source'' (JStr ''ota_auto_assignment'') (b_marks b))\<rparr>"

definition pending_doc :: "bool \<Rightarrow> booking \<Rightarrow> booking" where
  "pending_doc conflict b =
     b\<lparr>b_room := None, b_room_number := None,
       b_marks := AList.update ''auto_assignment_reason'' (JStr (if conflict then ''concurrent_room_conflict'' else ''no_available_room''))
                    (AList.update ''allocation_source'' (JStr ''pending_assignment'') (b_marks b))\<rparr>"

fun is_conflict :: "booking_error \<Rightarrow> bool" where
  "is_conflict (Conflict other kind nights) = True"
| "is_conflict _ = False"



section \<open>Assigning a room later\<close>

text \<open>
  The promotion of a stored booking: the worker first marks the booking with its claim, which
  another worker may take over after five minutes.  \<open>between\<close> is what other clients do between the
  query for rooms and the assignment.
\<close>

record promotion_db =
  pr_db :: db
  pr_claims :: "string \<times> string \<Rightarrow> (string \<times> instant) option"

definition claim_promotion :: "env \<Rightarrow> string \<Rightarrow> string \<Rightarrow> string \<Rightarrow> promotion_db \<Rightarrow> promotion_db option" where
  "claim_promotion en cid t i s =
     (case find_booking t i (pr_db s) of
        None \<Rightarrow> None
      | Some x \<Rightarrow>
          if b_room x = None \<and> (case pr_claims s (t, i) of None \<Rightarrow> True | Some (c, since) \<Rightarrow> since < now en - 300)
          then Some (s\<lparr>pr_claims := (pr_claims s)((t, i) := Some (cid, now en))\<rparr>) else None)"

definition holds_claim :: "string \<Rightarrow> string \<Rightarrow> string \<Rightarrow> promotion_db \<Rightarrow> bool" where
  "holds_claim cid t i s \<longleftrightarrow> (case pr_claims s (t, i) of None \<Rightarrow> False | Some (c, since) \<Rightarrow> c = cid)"

definition release_claim :: "string \<Rightarrow> string \<Rightarrow> string \<Rightarrow> promotion_db \<Rightarrow> promotion_db" where
  "release_claim cid t i s = (if holds_claim cid t i s then s\<lparr>pr_claims := (pr_claims s)((t, i) := None)\<rparr> else s)"

definition promoted :: "env \<Rightarrow> auto_room \<Rightarrow> booking \<Rightarrow> booking" where
  "promoted en r x =
     x\<lparr>b_room := Some (ar_id r), b_room_number := Some (room_text r),
       b_marks := AList.delete ''auto_assignment_reason'' (AList.update ''updated_at'' (JTime (now en)) (AList.update ''auto_assigned_at'' (JTime (now en))
         (AList.update ''allocation_source'' (JStr ''ota_auto_assignment_after_hold_release'') (b_marks x))))\<rparr>"

text \<open>The conditional write: \<open>None\<close> when no document matches.\<close>

definition write_promotion :: "env \<Rightarrow> string \<Rightarrow> string \<Rightarrow> string \<Rightarrow> auto_room \<Rightarrow> promotion_db \<Rightarrow> promotion_db option" where
  "write_promotion en cid t i r s =
     (case find_booking t i (pr_db s) of
        None \<Rightarrow> None
      | Some x \<Rightarrow>
          if b_room x = None \<and> holds_claim cid t i s
          then Some (s\<lparr>pr_db := (pr_db s)\<lparr>bookings := update_one (\<lambda>y. booking_key y = (t, i)) (promoted en r) (bookings (pr_db s))\<rparr>,
                       pr_claims := (pr_claims s)((t, i) := None)\<rparr>)
          else None)"

definition already_owns_room :: "string \<Rightarrow> string \<Rightarrow> string \<Rightarrow> promotion_db \<Rightarrow> booking option" where
  "already_owns_room t i room s =
     (case find_booking t i (pr_db s) of None \<Rightarrow> None | Some x \<Rightarrow> if str_or (b_room x) [] = room then Some x else None)"

fun promote_rooms ::
  "env \<Rightarrow> string \<Rightarrow> string \<Rightarrow> string \<Rightarrow> booking \<Rightarrow> auto_room list \<Rightarrow> promotion_db \<Rightarrow>
   promotion_db \<times> (booking_error + booking \<times> auto_room option)" where
  "promote_rooms en cid t i b [] s = (release_claim cid t i s, Inr (b, None))"
| "promote_rooms en cid t i b (r # rs) s =
     (case assign_room_atomic en t i (ar_id r) (fst (stay_of b)) (snd (stay_of b)) (Some (''ota-hold-promotion:'' @ i)) True (pr_db s) of
        (d1, Inl e) \<Rightarrow>
          if is_conflict e then promote_rooms en cid t i b rs (s\<lparr>pr_db := d1\<rparr>) else (s\<lparr>pr_db := d1\<rparr>, Inl e)
      | (d1, Inr nights) \<Rightarrow>
          (let p1 = s\<lparr>pr_db := d1\<rparr> in
           case write_promotion en cid t i r p1 of
             Some p2 \<Rightarrow> (p2, Inr (promoted en r b, Some r))
           | None \<Rightarrow>
               (case already_owns_room t i (ar_id r) p1 of
                  Some x \<Rightarrow> (p1, Inr (x, Some r))
                | None \<Rightarrow>
                    (case stay_of b of
                       (Some ci, Some co) \<Rightarrow>
                         (case release_booking_room_nights t i (ar_id r) ci co d1 of
                            (d2, Inl e) \<Rightarrow> (p1\<lparr>pr_db := d2\<rparr>, Inl e)
                          | (d2, Inr _) \<Rightarrow> (release_claim cid t i (p1\<lparr>pr_db := d2\<rparr>), Inr (b, None)))
                     | _ \<Rightarrow> (p1, Inl ValueErr)))))"

definition assign_pending_booking_with_auto_assignment ::
  "env \<Rightarrow> string \<Rightarrow> (promotion_db \<Rightarrow> promotion_db) \<Rightarrow> string \<Rightarrow> wishes \<Rightarrow> booking \<Rightarrow> auto_room list \<Rightarrow> room_block list \<Rightarrow> promotion_db \<Rightarrow>
   promotion_db \<times> (booking_error + booking \<times> auto_room option)" where
  "assign_pending_booking_with_auto_assignment en cid between t w b rs blocks s =
     (let i = strip (b_id b) in
      if i = [] \<or> truthy (b_room b) then (s, Inr (b, None))
      else case claim_promotion en cid t i s of
        None \<Rightarrow> (s, Inr (b, None))
      | Some p1 \<Rightarrow> promote_rooms en cid t i b (candidates_for t w b rs blocks (pr_db p1)) (between p1))"

section \<open>The candidates are the free rooms\<close>

lemma set_prefer_room [simp]: "set (prefer_room p rs) = set rs"
  by (simp add: prefer_room_def Let_def)




section \<open>A reservation is not lost over a conflict\<close>

lemma assigned_doc_sel [simp]:
  "b_id (assigned_doc en r b) = b_id b" "b_tenant (assigned_doc en r b) = b_tenant b" "b_room (assigned_doc en r b) = Some (ar_id r)"
  by (simp_all add: assigned_doc_def)

lemma pending_doc_sel [simp]: "b_id (pending_doc q b) = b_id b" "b_room (pending_doc q b) = None"
  by (simp_all add: pending_doc_def)





section \<open>One worker promotes a booking\<close>

text \<open>What the invariant sees of a booking.\<close>

definition booking_view :: "booking \<Rightarrow> (string \<times> string) \<times> string option \<times> string option \<times> (iso option \<times> iso option)" where
  "booking_view b = (booking_key b, b_status b, b_room b, stay_of b)"

lemma hotel_ok_view:
  assumes "hotel_ok d" "locks d1 = locks d" "map booking_view (bookings d1) = map booking_view (bookings d)"
  shows "hotel_ok d1"
proof -
  have "map booking_key (bookings d1) = map booking_key (bookings d)"
    using arg_cong[OF assms(3), of "map fst"] by (simp add: booking_view_def comp_def)
  moreover have "holds_its_nights d1 b" if b: "b \<in> set (bookings d1)" for b
  proof -
    from b have "booking_view b \<in> set (map booking_view (bookings d))" unfolding assms(3)[symmetric] by simp
    then obtain x where x: "x \<in> set (bookings d)" "booking_view x = booking_view b" by auto
    then have "holds_its_nights d x" using assms(1) by (simp add: hotel_ok_def)
    then show ?thesis using x(2) assms(2)
      by (auto simp: booking_view_def booking_key_def holds_its_nights_def locked_for_def live_def nights_of_def)
  qed
  ultimately show ?thesis using assms(1,2) by (simp add: hotel_ok_def locks_ok_def)
qed

lemma update_one_views: "(\<And>x. p x \<Longrightarrow> x \<in> set c \<Longrightarrow> v (f x) = v (g x)) \<Longrightarrow> map v (update_one p f c) = map v (update_one p g c)"
  by (induction c) auto

lemma write_promotion_ok:
  assumes "hotel_ok (write_assignment t i (ar_id r) ci co (pr_db s))" "write_promotion en cid t i r s = Some p2"
    and "\<forall>x \<in> set (bookings (pr_db s)). booking_key x = (t, i) \<longrightarrow> b_check_in x = Some ci \<and> b_check_out x = Some co"
  shows "hotel_ok (pr_db p2)"
proof -
  let ?p = "\<lambda>y. booking_key y = (t, i)"
  have p2: "pr_db p2 = (pr_db s)\<lparr>bookings := update_one ?p (promoted en r) (bookings (pr_db s))\<rparr>"
    using assms(2) by (auto simp: write_promotion_def split: option.splits if_splits)
  show ?thesis
  proof (rule hotel_ok_view[OF assms(1)])
    show "locks (pr_db p2) = locks (write_assignment t i (ar_id r) ci co (pr_db s))" by (simp add: p2 write_assignment_def)
    show "map booking_view (bookings (pr_db p2)) = map booking_view (bookings (write_assignment t i (ar_id r) ci co (pr_db s)))"
      unfolding p2 write_assignment_def using assms(3)
      by simp (intro update_one_views, auto simp: booking_view_def booking_key_def promoted_def stay_of_def)
  qed
qed

definition pending_stay :: "string \<Rightarrow> string \<Rightarrow> iso \<Rightarrow> iso \<Rightarrow> db \<Rightarrow> bool" where
  "pending_stay t i ci co d \<longleftrightarrow> hotel_ok d \<and>
     (\<exists>x. find_booking t i d = Some x \<and> b_room x = None \<and> b_check_in x = Some ci \<and> b_check_out x = Some co)"

lemma pending_stay_same: "pending_stay t i ci co d \<Longrightarrow> bookings d1 = bookings d \<Longrightarrow> hotel_ok d1 \<Longrightarrow> pending_stay t i ci co d1"
  by (simp add: pending_stay_def find_booking_def)

lemma find_after_update:
  assumes "find_booking t i d = Some x" "\<And>y. booking_key (f y) = booking_key y"
  shows "find_booking t i (d\<lparr>bookings := update_one (\<lambda>y. booking_key y = (t, i)) f (bookings d)\<rparr>) = Some (f x)"
proof -
  have "find_one (\<lambda>y. booking_key y = (t, i)) (update_one (\<lambda>y. booking_key y = (t, i)) f c) =
      map_option f (find_one (\<lambda>y. booking_key y = (t, i)) c)" for c
    by (induction c) (auto simp: find_one_def assms(2))
  moreover have "find_booking t i d' = find_one (\<lambda>y. booking_key y = (t, i)) (bookings d')" for d'
    by (simp add: find_booking_def booking_key_def)
  ultimately show ?thesis using assms(1) by simp
qed

lemma promote_rooms_outcome:
  assumes st: "stay_of b = (Some ci, Some co)"
  shows "pending_stay t i ci co (pr_db s) \<Longrightarrow> holds_claim cid t i s \<Longrightarrow> promote_rooms en cid t i b rs s = (p1, r) \<Longrightarrow>
    hotel_ok (pr_db p1) \<and>
    (case r of
       Inl e \<Rightarrow> bookings (pr_db p1) = bookings (pr_db s) \<and> \<not> is_conflict e
     | Inr (x, None) \<Rightarrow> bookings (pr_db p1) = bookings (pr_db s) \<and> pr_claims p1 (t, i) = None
     | Inr (x, Some q) \<Rightarrow> q \<in> set rs \<and> pr_claims p1 (t, i) = None \<and> map_option b_room (find_booking t i (pr_db p1)) = Some (Some (ar_id q)))"
proof (induction rs arbitrary: s)
  case Nil
  then show ?case by (auto simp: pending_stay_def release_claim_def)
next
  case (Cons q rs)
  let ?c = "Some (''ota-hold-promotion:'' @ i)"
  obtain d1 res where run: "assign_room_atomic en t i (ar_id q) (Some ci) (Some co) ?c True (pr_db s) = (d1, res)" by fastforce
  have ok: "hotel_ok (pr_db s)" using Cons.prems(1) by (simp add: pending_stay_def)
  note a = assign_keeps_hotel_ok[OF ok run]
  show ?case
  proof (cases res)
    case (Inl e)
    then have d1: "hotel_ok d1" "bookings d1 = bookings (pr_db s)" using a by auto
    show ?thesis
    proof (cases "is_conflict e")
      case True
      have "pending_stay t i ci co d1" by (rule pending_stay_same[OF Cons.prems(1) d1(2,1)])
      then show ?thesis using Cons.IH[of "s\<lparr>pr_db := d1\<rparr>"] Cons.prems run Inl True st d1(2)
        by (auto simp: holds_claim_def split: sum.splits option.splits)
    next
      case False
      then show ?thesis using Cons.prems(3) run Inl st d1 by auto
    qed
  next
    case (Inr nights)
    let ?s = "s\<lparr>pr_db := d1\<rparr>"
    have d1: "hotel_ok (write_assignment t i (ar_id q) ci co d1)" using a Inr by auto
    have same: "bookings d1 = bookings (pr_db s)" using assign_owns[OF _ run[unfolded Inr]] ok by (auto simp: hotel_ok_def)
    obtain x where x: "find_booking t i d1 = Some x" "b_room x = None" "b_check_in x = Some ci" "b_check_out x = Some co"
      using Cons.prems(1) same by (auto simp: pending_stay_def find_booking_def)
    define p2 where "p2 = ?s\<lparr>pr_db := d1\<lparr>bookings := update_one (\<lambda>y. booking_key y = (t, i)) (promoted en q) (bookings d1)\<rparr>,
                             pr_claims := (pr_claims s)((t, i) := None)\<rparr>"
    have w: "write_promotion en cid t i q ?s = Some p2"
      using x Cons.prems(2) by (simp add: write_promotion_def holds_claim_def p2_def)
    have only: "\<forall>y \<in> set (bookings d1). booking_key y = (t, i) \<longrightarrow> b_check_in y = Some ci \<and> b_check_out y = Some co"
    proof (intro ballI impI)
      fix y assume y: "y \<in> set (bookings d1)" "booking_key y = (t, i)"
      have "find_booking (b_tenant y) (b_id y) d1 = Some y"
        using find_booking_eq[of d1 y] y(1) ok same by (simp add: hotel_ok_def)
      then show "b_check_in y = Some ci \<and> b_check_out y = Some co" using y(2) x by (simp add: booking_key_def)
    qed
    have "hotel_ok (pr_db p2)" using write_promotion_ok[OF _ w, of ci co] d1 only by simp
    moreover have "find_booking t i (pr_db p2) = Some (promoted en q x)"
      unfolding p2_def using find_after_update[OF x(1), of "promoted en q"] by (simp add: booking_key_def promoted_def)
    moreover have "p1 = p2 \<and> r = Inr (promoted en q b, Some q)" using Cons.prems(3) run Inr st w by simp
    ultimately show ?thesis by (simp add: p2_def promoted_def)
  qed
qed

text \<open>
  C13.  Promoting a stored booking without a room, when no one else writes to it meanwhile: a worker
  that finds another's claim younger than five minutes changes nothing.  Otherwise the lock invariant is kept, and
  either the booking has the room of one of the candidates, or bookings are as they were and the claim is
  gone, or an error that is not a conflict left the bookings as they were.
\<close>

theorem promotion_outcome:
  assumes "pending_stay t (b_id b) ci co (pr_db s)" "stay_of b = (Some ci, Some co)" "strip (b_id b) = b_id b" "b_id b \<noteq> []" "\<not> truthy (b_room b)"
  shows "(let (p1, r) = assign_pending_booking_with_auto_assignment en cid (\<lambda>p. p) t w b rs blocks s in
    if \<exists>c since. pr_claims s (t, b_id b) = Some (c, since) \<and> now en - 300 \<le> since then p1 = s \<and> r = Inr (b, None)
    else hotel_ok (pr_db p1) \<and>
      (case r of
         Inl e \<Rightarrow> bookings (pr_db p1) = bookings (pr_db s) \<and> \<not> is_conflict e
       | Inr (x, None) \<Rightarrow> bookings (pr_db p1) = bookings (pr_db s) \<and> pr_claims p1 (t, b_id b) = None
       | Inr (x, Some q) \<Rightarrow> q \<in> set (candidates_for t w b rs blocks (pr_db s)) \<and> pr_claims p1 (t, b_id b) = None \<and>
           map_option b_room (find_booking t (b_id b) (pr_db p1)) = Some (Some (ar_id q))))"
proof -
  let ?i = "b_id b"
  obtain x where x: "find_booking t ?i (pr_db s) = Some x" "b_room x = None" using assms(1) by (auto simp: pending_stay_def)
  show ?thesis
  proof (cases "\<exists>c since. pr_claims s (t, ?i) = Some (c, since) \<and> now en - 300 \<le> since")
    case True
    then have "claim_promotion en cid t ?i s = None" using x by (auto simp: claim_promotion_def)
    then show ?thesis using True assms(3-5) by (auto simp: assign_pending_booking_with_auto_assignment_def Let_def)
  next
    case False
    define s1' where "s1' = s\<lparr>pr_claims := (pr_claims s)((t, ?i) := Some (cid, now en))\<rparr>"
    have c: "claim_promotion en cid t ?i s = Some s1'"
      using x False by (auto simp: claim_promotion_def s1'_def not_le split: option.splits)
    obtain p1 r where run: "promote_rooms en cid t ?i b (candidates_for t w b rs blocks (pr_db s)) s1' = (p1, r)" by fastforce
    have "pending_stay t ?i ci co (pr_db s1')" "holds_claim cid t ?i s1'" using assms(1) by (simp_all add: s1'_def holds_claim_def)
    note o1 = promote_rooms_outcome[OF assms(2) this run]
    have all: "assign_pending_booking_with_auto_assignment en cid (\<lambda>p. p) t w b rs blocks s = (p1, r)"
      using c run assms(3-5) by (simp add: assign_pending_booking_with_auto_assignment_def Let_def s1'_def)
    have same: "bookings (pr_db s1') = bookings (pr_db s)" by (simp add: s1'_def)
    show ?thesis unfolding all using o1 False unfolding same
      by (simp only: Let_def prod.case if_False)
  qed
qed

section \<open>Examples\<close>

definition a_room :: "string \<Rightarrow> auto_room" where
  "a_room n = \<lparr>ar_tenant = ''t1'', ar_id = n, ar_number = Some n, ar_name = None, ar_type = Some '' Deluxe  Twin'',
     ar_property = None, ar_status = None, ar_active = None\<rparr>"

definition no_wishes :: wishes where
  "no_wishes = \<lparr>w_property = None, w_type = Some ''deluxe twin'', w_type_id = None, w_preferred = None\<rparr>"

definition pending_stay_7_9 :: booking where
  "pending_stay_7_9 = (stay_booking ''p1'' 7 9)\<lparr>b_room := None\<rparr>"

definition waiting_db :: promotion_db where
  "waiting_db = \<lparr>pr_db = busy_db\<lparr>bookings := bookings busy_db @ [pending_stay_7_9]\<rparr>, pr_claims = (\<lambda>_. None)\<rparr>"



theorem promotion_outcome_witness:
  "map_option b_room (find_booking ''t1'' ''p1'' (pr_db (fst (assign_pending_booking_with_auto_assignment quiet_env ''c1'' (\<lambda>p. p)
     ''t1'' no_wishes pending_stay_7_9 [a_room ''101'', a_room ''102''] [] waiting_db)))) = Some (Some ''102'')"
proof -
  let ?run = "assign_pending_booking_with_auto_assignment quiet_env ''c1'' (\<lambda>p. p)
     ''t1'' no_wishes pending_stay_7_9 [a_room ''101'', a_room ''102''] [] waiting_db"
  have "case snd ?run of Inl e \<Rightarrow> False | Inr (x, q) \<Rightarrow> map_option ar_id q = Some ''102''" by code_simp
  then obtain d1 x q where r: "?run = (d1, Inr (x, Some q))" "ar_id q = ''102''"
    by (cases ?run) (auto split: sum.splits)
  have id: "b_id pending_stay_7_9 = ''p1''" "b_room pending_stay_7_9 = None" by (simp_all add: pending_stay_7_9_def stay_booking_def)
  have p: "pending_stay ''t1'' (b_id pending_stay_7_9) (Iso 7 14) (Iso 9 11) (pr_db waiting_db)"
    by (auto simp: pending_stay_def id waiting_db_def pending_stay_7_9_def busy_db_def hotel_ok_def small_hotel locks_ok_def lock_key_def booking_key_def
        find_booking_def find_one_def holds_its_nights_def nights_of_def stay_of_def locked_for_def)
  have s: "stay_of pending_stay_7_9 = (Some (Iso 7 14), Some (Iso 9 11))" "strip (b_id pending_stay_7_9) = b_id pending_stay_7_9"
    "b_id pending_stay_7_9 \<noteq> []" "\<not> truthy (b_room pending_stay_7_9)"
    by code_simp+
  from promotion_outcome[OF p s, of quiet_env "''c1''" no_wishes "[a_room ''101'', a_room ''102'']" "[]"] r
  show ?thesis by (simp add: Let_def waiting_db_def id)
qed

text \<open>
  The front desk gives the waiting booking a room between the query and the assignment: the assignment
  deletes the locks on the desk's room, then gives its own back.  The booking has a room and no night of it.
\<close>

definition desk_assigns :: "promotion_db \<Rightarrow> promotion_db" where
  "desk_assigns p =
     (let d = fst (assign_room_atomic quiet_env ''t1'' ''p1'' ''103'' (Some (Iso 7 14)) (Some (Iso 9 11)) None True (pr_db p))
      in p\<lparr>pr_db := d\<lparr>bookings := update_one (\<lambda>y. booking_key y = (''t1'', ''p1'')) (\<lambda>x. x\<lparr>b_room := Some ''103''\<rparr>) (bookings d)\<rparr>\<rparr>)"

lemma promotion_unlocks_desk_room:
  "(let d = pr_db (fst (assign_pending_booking_with_auto_assignment quiet_env ''c1'' desk_assigns
      ''t1'' no_wishes pending_stay_7_9 [a_room ''101'', a_room ''102''] [] waiting_db))
    in map_option b_room (find_booking ''t1'' ''p1'' d) = Some (Some ''103'') \<and> filter (\<lambda>l. lk_booking l = ''p1'') (locks d) = []) \<and>
   length (filter (\<lambda>l. lk_booking l = ''p1'') (locks (pr_db (desk_assigns waiting_db)))) = 2"
  by code_simp

end
