(* ===== verification/ScheduledServices.thy ===== *)
theory ScheduledServices
  imports Store Stay "HOL-Library.Product_Lexorder" "HOL-Library.Multiset"
begin

text \<open>
  Activities and function rooms (core/scheduled_guest_services.py): the calendar of a resource, the
  admission of a booking against the capacity of the resource, and its cancellation.

  An instant is a number of seconds.  The time zone of a property is the record \<open>zone\<close>: the offset of
  an instant and of a wall-clock time, the latter for both readings of a repeated hour; its values are the
  time zone database's.  The two calendars of the code, of activities and of function rooms, are the two
  collections of the state.  A transaction holds the lock document of its resource, so the admissions to one
  resource are serial.  The lemmas: the sweep over the events admits a booking exactly when the
  capacity suffices at each instant, and no resource is ever booked beyond its capacity.
\<close>

section \<open>Times\<close>

text \<open>An ISO text with an offset, one without (read as wall-clock time), or neither.\<close>

datatype moment = Zoned int | Wall int | Garbled

record zone =
  zn_at :: "int \<Rightarrow> int"
  zn_wall :: "int \<Rightarrow> bool \<Rightarrow> int"

definition local_instant :: "zone \<Rightarrow> moment \<Rightarrow> int option" where
  "local_instant z m =
     (case m of
        Zoned i \<Rightarrow> Some i
      | Wall w \<Rightarrow>
          (let off = zn_wall z w False; i = w - off
           in if i + zn_at z i \<noteq> w \<or> off \<noteq> zn_wall z w True then None else Some i)
      | Garbled \<Rightarrow> None)"

text \<open>Arithmetic on a time of the zone moves the wall clock.\<close>

definition wall_plus :: "zone \<Rightarrow> int \<Rightarrow> int \<Rightarrow> int" where
  "wall_plus z i seconds = (let w = i + zn_at z i + seconds in w - zn_wall z w False)"

section \<open>Documents\<close>

datatype service_kind = Activity | Function_Space

record sched_row =
  sr_tenant :: string
  sr_id :: string
  sr_resource :: string
  sr_starts :: moment
  sr_ends :: moment
  sr_status :: "string option"
  sr_hash :: "string option"
  sr_activity :: string
  sr_guest :: string
  sr_charge :: "string option"

record sched_request =
  rq_resource :: string
  rq_activity :: string
  rq_guest :: string
  rq_starts :: moment
  rq_ends :: moment
  rq_duration :: "int option"
  rq_attendees :: int
  rq_setup :: string
  rq_token :: "string option"

record activity =
  ac_tenant :: string
  ac_id :: string
  ac_active :: bool
  ac_type :: string
  ac_duration :: int
  ac_capacity :: "int option"

record activity_resource =
  rs_tenant :: string
  rs_id :: string
  rs_active :: bool
  rs_types :: "string list"
  rs_capacity :: "int option"

record function_room =
  fr_tenant :: string
  fr_id :: string
  fr_active :: bool
  fr_capacity :: int
  fr_setups :: "string list"

record sched_db =
  sd_activities :: "sched_row list"
  sd_functions :: "sched_row list"
  sd_catalogue :: "activity list"
  sd_resources :: "activity_resource list"
  sd_rooms :: "function_room list"
  sd_guests :: "(string \<times> string) list"
  sd_audit :: "(string \<times> service_kind \<times> string \<times> string) list"

text \<open>What the code takes from outside: the zone of a property, ids, and the digest of a request.\<close>

record sched_env =
  se_zone :: "string \<Rightarrow> zone option"
  se_uuid5 :: "service_kind \<Rightarrow> string \<Rightarrow> string \<Rightarrow> string"
  se_uuid4 :: "sched_db \<Rightarrow> string"
  se_digest :: "sched_request \<Rightarrow> string"

datatype sched_error = Http nat | Unhandled

fun coll :: "service_kind \<Rightarrow> sched_db \<Rightarrow> sched_row list" where
  "coll Activity d = sd_activities d"
| "coll Function_Space d = sd_functions d"

fun with_coll :: "service_kind \<Rightarrow> (sched_row list \<Rightarrow> sched_row list) \<Rightarrow> sched_db \<Rightarrow> sched_db" where
  "with_coll Activity f d = d\<lparr>sd_activities := f (sd_activities d)\<rparr>"
| "with_coll Function_Space f d = d\<lparr>sd_functions := f (sd_functions d)\<rparr>"

section \<open>The calendar\<close>

definition window :: "zone \<Rightarrow> sched_row \<Rightarrow> (int \<times> int) option" where
  "window z r =
     (case (local_instant z (sr_starts r), local_instant z (sr_ends r)) of
        (Some a, Some b) \<Rightarrow> if b \<le> a then None else Some (a, b)
      | _ \<Rightarrow> None)"

definition span :: "zone \<Rightarrow> sched_row \<Rightarrow> int \<times> int" where
  "span z r = get_default (0, 0) (window z r)"

datatype day_arg = AnyDay | OnDay day | BadDay

definition of_resource :: "string \<Rightarrow> string option \<Rightarrow> sched_row \<Rightarrow> bool" where
  "of_resource t res r \<longleftrightarrow> sr_tenant r = t \<and> (truthy res \<longrightarrow> res = Some (sr_resource r))"

text \<open>The rows with their times as zoned instants, in the order of their start.\<close>

definition zoned_row :: "zone \<Rightarrow> sched_row \<Rightarrow> sched_row" where
  "zoned_row z r = r\<lparr>sr_starts := Zoned (fst (span z r)), sr_ends := Zoned (snd (span z r))\<rparr>"

definition calendar :: "zone \<Rightarrow> sched_row list \<Rightarrow> sched_error + sched_row list" where
  "calendar z rows =
     (if list_ex (\<lambda>r. window z r = None) rows then Inl (Http 409)
      else Inr (sort_key (\<lambda>r. fst (span z r)) (map (zoned_row z) rows)))"

definition day_bookings :: "sched_env \<Rightarrow> service_kind \<Rightarrow> string \<Rightarrow> day_arg \<Rightarrow> string option \<Rightarrow> sched_db \<Rightarrow> sched_error + sched_row list" where
  "day_bookings se kind t day res d =
     (let rows = to_list 5001 (find_many (of_resource t res) (coll kind d)) in
      if 5000 < length rows then Inl (Http 503)
      else case se_zone se t of
        None \<Rightarrow> Inl (Http 409)
      | Some z \<Rightarrow>
          (case day of
             AnyDay \<Rightarrow> calendar z rows
           | BadDay \<Rightarrow> Inl (Http 422)
           | OnDay n \<Rightarrow>
               (let first = 86400 * n - zn_wall z (86400 * n) False; last = wall_plus z first 86400 in
                if list_ex (\<lambda>r. window z r = None) rows then Inl (Http 409)
                else calendar z (filter (\<lambda>r. fst (span z r) < last \<and> first < snd (span z r)) rows))))"

section \<open>The sweep over the events\<close>

definition clipped :: "int \<Rightarrow> int \<Rightarrow> int \<times> int \<Rightarrow> (int \<times> int) list" where
  "clipped a b w =
     (case w of (l, r) \<Rightarrow> if l < b \<and> a < r then [(max l a, 1), (min r b, - 1)] else [])"

definition events_of :: "int \<Rightarrow> int \<Rightarrow> (int \<times> int) list \<Rightarrow> (int \<times> int) list" where
  "events_of a b ws = [(a, 1), (b, - 1)] @ concat (map (clipped a b) ws)"

fun sweep :: "int \<Rightarrow> int \<Rightarrow> (int \<times> int) list \<Rightarrow> bool" where
  "sweep cap used [] = True"
| "sweep cap used ((at_time, delta) # es) = (used + delta \<le> cap \<and> sweep cap (used + delta) es)"

section \<open>Creation\<close>

text \<open>What the catalogue says: the start, the end and the capacity.\<close>

definition activity_terms :: "zone \<Rightarrow> string \<Rightarrow> sched_request \<Rightarrow> sched_db \<Rightarrow> sched_error + moment \<times> moment \<times> int" where
  "activity_terms z t q d =
     (case (find_one (\<lambda>a. ac_tenant a = t \<and> ac_id a = rq_activity q \<and> ac_active a) (sd_catalogue d),
            find_one (\<lambda>r. rs_tenant r = t \<and> rs_id r = rq_resource q \<and> rs_active r) (sd_resources d),
            find_one (\<lambda>g. g = (t, rq_guest q)) (sd_guests d)) of
        (Some a, Some r, Some g) \<Rightarrow>
          if rs_types r \<noteq> [] \<and> ac_type a \<notin> set (rs_types r) then Inl (Http 400)
          else (let duration = (case rq_duration q of None \<Rightarrow> ac_duration a | Some n \<Rightarrow> if n = 0 then ac_duration a else n) in
                case local_instant z (rq_starts q) of
                  None \<Rightarrow> Inl Unhandled
                | Some i \<Rightarrow> Inr (rq_starts q, Zoned (wall_plus z i (60 * duration)),
                               min (get_default 1 (rs_capacity r)) (get_default 1 (ac_capacity a))))
      | _ \<Rightarrow> Inl (Http 404))"

definition function_terms :: "string \<Rightarrow> sched_request \<Rightarrow> sched_db \<Rightarrow> sched_error + moment \<times> moment \<times> int" where
  "function_terms t q d =
     (case find_one (\<lambda>f. fr_tenant f = t \<and> fr_id f = rq_resource q \<and> fr_active f) (sd_rooms d) of
        None \<Rightarrow> Inl (Http 404)
      | Some f \<Rightarrow>
          if rq_attendees q > fr_capacity f \<or> fr_setups f \<noteq> [] \<and> rq_setup q \<notin> set (fr_setups f) then Inl (Http 400)
          else Inr (rq_starts q, rq_ends q, 1))"

fun terms :: "service_kind \<Rightarrow> zone \<Rightarrow> string \<Rightarrow> sched_request \<Rightarrow> sched_db \<Rightarrow> sched_error + moment \<times> moment \<times> int" where
  "terms Activity z t q d = activity_terms z t q d"
| "terms Function_Space z t q d = function_terms t q d"

definition record_id :: "sched_env \<Rightarrow> service_kind \<Rightarrow> string \<Rightarrow> sched_request \<Rightarrow> sched_db \<Rightarrow> string" where
  "record_id se kind t q d =
     (case rq_token q of None \<Rightarrow> se_uuid4 se d | Some tok \<Rightarrow> if tok = [] then se_uuid4 se d else se_uuid5 se kind t tok)"

definition new_row :: "sched_env \<Rightarrow> service_kind \<Rightarrow> string \<Rightarrow> sched_request \<Rightarrow> string \<Rightarrow> moment \<Rightarrow> moment \<Rightarrow> sched_row" where
  "new_row se kind t q i starts ends =
     \<lparr>sr_tenant = t, sr_id = i, sr_resource = rq_resource q, sr_starts = starts, sr_ends = ends, sr_status = Some ''booked'',
      sr_hash = Some (se_digest se q), sr_activity = rq_activity q, sr_guest = rq_guest q, sr_charge = None\<rparr>"

definition taken_times :: "zone \<Rightarrow> sched_row list \<Rightarrow> (int \<times> int) list" where
  "taken_times z rows = map (span z) (filter (\<lambda>r. sr_status r \<noteq> Some ''cancelled'') rows)"

definition create_scheduled_booking ::
  "sched_env \<Rightarrow> service_kind \<Rightarrow> string \<Rightarrow> sched_request \<Rightarrow> sched_db \<Rightarrow> sched_db \<times> (sched_error + sched_row)" where
  "create_scheduled_booking se kind t q d =
     (let i = record_id se kind t q d in
      case find_one (\<lambda>r. sr_tenant r = t \<and> sr_id r = i) (coll kind d) of
        Some prior \<Rightarrow> (d, if sr_hash prior \<noteq> Some (se_digest se q) then Inl (Http 409) else Inr prior)
      | None \<Rightarrow>
          (case se_zone se t of
             None \<Rightarrow> (d, Inl (Http 409))
           | Some z \<Rightarrow>
               (case terms kind z t q d of
                  Inl e \<Rightarrow> (d, Inl e)
                | Inr (starts, ends, capacity) \<Rightarrow>
                    (let row = new_row se kind t q i starts ends in
                     case window z row of
                       None \<Rightarrow> (d, Inl (Http 409))
                     | Some (a, b) \<Rightarrow>
                         (case day_bookings se kind t AnyDay (Some (rq_resource q)) d of
                            Inl e \<Rightarrow> (d, Inl e)
                          | Inr rows \<Rightarrow>
                              if \<not> sweep capacity 0 (sort (events_of a b (taken_times z rows))) then (d, Inl (Http 409))
                              else ((with_coll kind (\<lambda>c. c @ [row]) d)\<lparr>sd_audit := sd_audit d @ [(t, kind, i, ''booking_created'')]\<rparr>, Inr row))))))"

section \<open>Cancellation\<close>

definition cancel_row :: "sched_row \<Rightarrow> sched_row" where
  "cancel_row r = r\<lparr>sr_status := Some ''cancelled''\<rparr>"

definition cancel_scheduled_booking :: "service_kind \<Rightarrow> string \<Rightarrow> string \<Rightarrow> sched_db \<Rightarrow> sched_db \<times> sched_error option" where
  "cancel_scheduled_booking kind t i d =
     (case find_one (\<lambda>r. sr_tenant r = t \<and> sr_id r = i) (coll kind d) of
        None \<Rightarrow> (d, Some (Http 404))
      | Some r \<Rightarrow>
          if truthy (sr_charge r) \<or> sr_status r = Some ''completed'' then (d, Some (Http 409))
          else if sr_status r \<noteq> Some ''cancelled'' then
            ((with_coll kind (update_one (\<lambda>x. sr_tenant x = t \<and> sr_id x = i) cancel_row) d)\<lparr>sd_audit := sd_audit d @ [(t, kind, i, ''booking_cancelled'')]\<rparr>, None)
          else (d, None))"

section \<open>The sweep counts the load\<close>

text \<open>How many of the time spans hold at an instant, and the sum of the events up to it.\<close>

definition holds_at :: "int \<Rightarrow> (int \<times> int) list \<Rightarrow> nat" where
  "holds_at x ws = length (filter (\<lambda>(l, r). l \<le> x \<and> x < r) ws)"

definition up_to :: "int \<Rightarrow> (int \<times> int) list \<Rightarrow> int" where
  "up_to x es = sum_list (map snd (filter (\<lambda>e. fst e \<le> x) es))"

lemma up_to_simps [simp]:
  "up_to x [] = 0" "up_to x (e # es) = (if fst e \<le> x then snd e else 0) + up_to x es" "up_to x (es @ fs) = up_to x es + up_to x fs"
  by (simp_all add: up_to_def)

lemma up_to_sort [simp]: "up_to x (sort es) = up_to x es"
proof -
  have "mset (map snd (filter (\<lambda>e. fst e \<le> x) (sort es))) = mset (map snd (filter (\<lambda>e. fst e \<le> x) es))"
    by (simp only: mset_map mset_filter mset_sort)
  then show ?thesis unfolding up_to_def by (metis sum_mset_sum_list)
qed

lemma up_to_before:
  assumes "\<forall>e \<in> set es. (t, d) \<le> e" "x < t"
  shows "up_to x es = 0"
  using assms by (induction es) (auto simp: less_eq_prod_def)

lemma up_to_tie:
  assumes "\<forall>e \<in> set es. (t, 1) \<le> e"
  shows "0 \<le> up_to t es"
  using assms by (induction es) (auto simp: less_eq_prod_def)

text \<open>On sorted unit steps, the running sum stays within the capacity iff each instant's sum does.\<close>

lemma sweep_sorted:
  assumes "sorted es" "snd ` set es \<subseteq> {1, - 1}" "u \<le> cap"
  shows "sweep cap u es \<longleftrightarrow> (\<forall>x. u + up_to x es \<le> cap)"
  using assms
proof (induction es arbitrary: u)
  case (Cons e es)
  obtain t d where e: "e = (t, d)" by fastforce
  have rest: "\<forall>f \<in> set es. (t, d) \<le> f" "sorted es" "snd ` set es \<subseteq> {1, - 1}" and d: "d = 1 \<or> d = - 1"
    using Cons.prems e by auto
  have before: "up_to x es = 0" if "x < t" for x using up_to_before[OF rest(1) that] .
  have tie: "u + d \<le> cap" if "\<forall>x. u + up_to x (e # es) \<le> cap"
    using that[THEN spec, of t] up_to_tie[of es t] rest(1) d e Cons.prems(3) by auto
  have "sweep cap (u + d) es \<longleftrightarrow> (\<forall>x. u + d + up_to x es \<le> cap)" if "u + d \<le> cap" using Cons.IH[OF rest(2,3) that] .
  moreover have "(\<forall>x. u + d + up_to x es \<le> cap) \<longleftrightarrow> (\<forall>x. u + up_to x (e # es) \<le> cap)" if "u + d \<le> cap"
  proof (intro iff_allI)
    fix x show "u + d + up_to x es \<le> cap \<longleftrightarrow> u + up_to x (e # es) \<le> cap"
      using before[of x] that Cons.prems(3) e by (cases "x < t") auto
  qed
  moreover have "sweep cap u (e # es) \<longleftrightarrow> u + d \<le> cap \<and> sweep cap (u + d) es" by (simp add: e)
  ultimately show ?case using tie by blast
qed simp

lemma up_to_events:
  assumes "a < b" "\<forall>w \<in> set ws. fst w < snd w"
  shows "up_to x (events_of a b ws) = (if a \<le> x \<and> x < b then 1 + int (holds_at x ws) else 0)"
proof -
  have "up_to x (concat (map (clipped a b) ws)) = (if a \<le> x \<and> x < b then int (holds_at x ws) else 0)"
    using assms by (induction ws) (auto simp: clipped_def holds_at_def max_def min_def)
  then show ?thesis using assms(1) by (simp add: events_of_def)
qed

lemma sweep_exact:
  assumes "a < b" "\<forall>w \<in> set ws. fst w < snd w"
  shows "sweep capacity 0 (sort (events_of a b ws)) \<longleftrightarrow> (\<forall>x \<in> {a..<b}. 1 + int (holds_at x ws) \<le> capacity)"
proof (cases "0 \<le> capacity")
  case True
  have "snd ` set (events_of a b ws) \<subseteq> {1, - 1}" by (auto simp: events_of_def clipped_def split: if_splits)
  then have "sweep capacity 0 (sort (events_of a b ws)) \<longleftrightarrow> (\<forall>x. up_to x (events_of a b ws) \<le> capacity)"
    using sweep_sorted[of "sort (events_of a b ws)" 0 capacity] True by simp
  then show ?thesis using up_to_events[OF assms] True by (auto split: if_splits)
next
  case False
  obtain e es where s: "sort (events_of a b ws) = e # es" by (cases "sort (events_of a b ws)") (auto simp: events_of_def)
  have "\<forall>e \<in> set (events_of a b ws). e \<ge> (a, 1)"
    using assms by (auto simp: events_of_def clipped_def less_eq_prod_def split: if_splits)
  moreover have "e \<in> set (events_of a b ws)" using s by (metis list.set_intros(1) set_sort)
  moreover have "(a, 1) \<in> set (events_of a b ws)" by (simp add: events_of_def)
  moreover have "\<forall>f \<in> set (events_of a b ws). e \<le> f" using s by (metis set_sort sorted_sort sorted_wrt.simps(2) set_ConsD order_refl)
  ultimately have "e = (a, 1)" by (meson order_antisym)
  then have "\<not> sweep capacity 0 (sort (events_of a b ws))" using s False by simp
  moreover have "\<not> (\<forall>x \<in> {a..<b}. 1 + int (holds_at x ws) \<le> capacity)" using assms(1) False by (auto intro!: bexI[of _ a])
  ultimately show ?thesis by blast
qed

lemmas sweep_sound = sweep_exact[THEN iffD1]

text \<open>
  C15.  The sweep over the sorted starts and ends of the bookings (those that meet the wanted
  time, cut to it) accepts exactly when at every instant of it, the bookings that hold then, and the
  new one, fit in the capacity.
\<close>

theorem sweep_admits_exactly:
  assumes "a < b" "\<forall>w \<in> set ws. fst w < snd w"
  shows "sweep capacity 0 (sort (events_of a b ws)) \<longleftrightarrow> (\<forall>x \<in> {a..<b}. 1 + int (holds_at x ws) \<le> capacity)"
  using assms by (rule sweep_exact)

section \<open>No resource is booked beyond its capacity\<close>

definition booked_at :: "sched_env \<Rightarrow> service_kind \<Rightarrow> string \<Rightarrow> string \<Rightarrow> int \<Rightarrow> sched_db \<Rightarrow> nat" where
  "booked_at se kind t res x d =
     (case se_zone se t of
        None \<Rightarrow> 0
      | Some z \<Rightarrow> holds_at x (taken_times z (filter (\<lambda>r. sr_tenant r = t \<and> sr_resource r = res) (coll kind d))))"

fun limit :: "service_kind \<Rightarrow> string \<Rightarrow> string \<Rightarrow> sched_db \<Rightarrow> int" where
  "limit Activity t res d =
     (case find_one (\<lambda>r. rs_tenant r = t \<and> rs_id r = res \<and> rs_active r) (sd_resources d) of
        None \<Rightarrow> 0 | Some r \<Rightarrow> max 0 (get_default 1 (rs_capacity r)))"
| "limit Function_Space t res d = 1"

inductive sched_step :: "sched_env \<Rightarrow> sched_db \<Rightarrow> sched_db \<Rightarrow> bool" for se where
  Create: "create_scheduled_booking se kind t q d = (d1, r) \<Longrightarrow> sched_step se d d1"
| Cancel: "cancel_scheduled_booking kind t i d = (d1, e) \<Longrightarrow> sched_step se d d1"

definition within_capacity :: "sched_env \<Rightarrow> sched_db \<Rightarrow> bool" where
  "within_capacity se d \<longleftrightarrow> (\<forall>kind t res x. int (booked_at se kind t res x d) \<le> limit kind t res d)"

definition no_services :: "sched_db \<Rightarrow> bool" where
  "no_services d \<longleftrightarrow> sd_activities d = [] \<and> sd_functions d = []"

lemma coll_with [simp]:
  "coll k (with_coll k' f d) = (if k = k' then f (coll k d) else coll k d)"
  "coll k (d\<lparr>sd_audit := a\<rparr>) = coll k d"
  by (cases k; cases k'; simp) (cases k; simp)

lemma limit_with [simp]:
  "limit k t res (with_coll k' f d) = limit k t res d" "limit k t res (d\<lparr>sd_audit := a\<rparr>) = limit k t res d"
  by (cases k; cases k'; simp) (cases k; simp)

lemma limit_nonneg [simp]: "0 \<le> limit k t res d"
  by (cases k) (auto split: option.splits)

lemma window_ordered: "window z r = Some (a, b) \<Longrightarrow> a < b"
  by (auto simp: window_def split: option.splits if_splits)

lemma span_window [simp]: "window z r = Some w \<Longrightarrow> span z r = w"
  by (simp add: span_def)

lemma holds_at_simps [simp]:
  "holds_at x [] = 0" "holds_at x (w # ws) = (if fst w \<le> x \<and> x < snd w then 1 else 0) + holds_at x ws"
  "holds_at x (ws @ vs) = holds_at x ws + holds_at x vs"
  by (auto simp: holds_at_def)

lemma taken_times_simps [simp]:
  "taken_times z [] = []" "taken_times z (r # rs) = (if sr_status r = Some ''cancelled'' then taken_times z rs else span z r # taken_times z rs)"
  "taken_times z (rs @ qs) = taken_times z rs @ taken_times z qs"
  by (auto simp: taken_times_def)

lemma holds_at_mset: "mset ws = mset vs \<Longrightarrow> holds_at x ws = holds_at x vs"
  unfolding holds_at_def by (metis mset_filter size_mset)

lemma holds_at_filter: "(\<And>r. p r \<Longrightarrow> q r) \<Longrightarrow> holds_at x (taken_times z (filter p rs)) \<le> holds_at x (taken_times z (filter q rs))"
  by (induction rs) (auto simp: le_SucI)

lemma zoned_row_status [simp]: "sr_status (zoned_row z r) = sr_status r"
  by (simp add: zoned_row_def)

lemma window_zoned: "window z r \<noteq> None \<Longrightarrow> window z (zoned_row z r) = window z r"
  using window_ordered[of z r] by (auto simp: zoned_row_def window_def[of z "r\<lparr>sr_starts := _, sr_ends := _\<rparr>"] local_instant_def)

lemma taken_zoned: "\<forall>r \<in> set rows. window z r \<noteq> None \<Longrightarrow> taken_times z (map (zoned_row z) rows) = taken_times z rows"
  by (induction rows) (simp_all add: span_def window_zoned)

lemma taken_ordered: "\<forall>r \<in> set rows. window z r \<noteq> None \<Longrightarrow> \<forall>w \<in> set (taken_times z rows). fst w < snd w"
  by (induction rows) (auto dest: window_ordered)

lemma calendar_spec:
  assumes "calendar z rows = Inr out"
  shows "holds_at x (taken_times z out) = holds_at x (taken_times z rows)" "\<forall>w \<in> set (taken_times z out). fst w < snd w"
proof -
  have ok: "\<forall>r \<in> set rows. window z r \<noteq> None" and out: "out = sort_key (\<lambda>r. fst (span z r)) (map (zoned_row z) rows)"
    using assms by (auto simp: calendar_def list_ex_iff split: if_splits)
  have "mset (taken_times z out) = mset (taken_times z (map (zoned_row z) rows))" unfolding out taken_times_def by simp
  then have same: "mset (taken_times z out) = mset (taken_times z rows)" using taken_zoned[OF ok] by simp
  then show "holds_at x (taken_times z out) = holds_at x (taken_times z rows)" by (rule holds_at_mset)
  show "\<forall>w \<in> set (taken_times z out). fst w < snd w" using taken_ordered[OF ok] same by (metis set_mset_mset)
qed

lemma day_bookings_spec:
  assumes "day_bookings se kind t AnyDay res d = Inr rows" "se_zone se t = Some z"
  shows "holds_at x (taken_times z rows) = holds_at x (taken_times z (filter (of_resource t res) (coll kind d)))"
    "\<forall>w \<in> set (taken_times z rows). fst w < snd w"
proof -
  have "\<not> 5000 < length (take 5001 (filter (of_resource t res) (coll kind d)))"
    using assms by (auto simp: day_bookings_def Let_def to_list_def find_many_def split: if_splits)
  then have "take 5001 (filter (of_resource t res) (coll kind d)) = filter (of_resource t res) (coll kind d)" by simp
  then have "calendar z (filter (of_resource t res) (coll kind d)) = Inr rows"
    using assms by (auto simp: day_bookings_def Let_def to_list_def find_many_def split: if_splits)
  from calendar_spec[OF this]
  show "holds_at x (taken_times z rows) = holds_at x (taken_times z (filter (of_resource t res) (coll kind d)))"
    "\<forall>w \<in> set (taken_times z rows). fst w < snd w" by auto
qed

lemma terms_within:
  assumes "terms kind z t q d = Inr (starts, ends, capacity)" "1 \<le> capacity"
  shows "capacity \<le> limit kind t (rq_resource q) d"
  using assms by (cases kind) (auto simp: activity_terms_def function_terms_def Let_def split: option.splits if_splits)

text \<open>What a creation that inserts has checked.\<close>

lemma create_cases:
  assumes "create_scheduled_booking se kind t q d = (d1, r)"
  obtains "d1 = d"
  | z starts ends capacity a b row where
      "se_zone se t = Some z" "terms kind z t q d = Inr (starts, ends, capacity)"
      "row = new_row se kind t q (record_id se kind t q d) starts ends" "window z row = Some (a, b)" "r = Inr row"
      "d1 = (with_coll kind (\<lambda>c. c @ [row]) d)\<lparr>sd_audit := sd_audit d @ [(t, kind, record_id se kind t q d, ''booking_created'')]\<rparr>"
      "\<forall>x \<in> {a..<b}. 1 + int (holds_at x (taken_times z (filter (of_resource t (Some (rq_resource q))) (coll kind d)))) \<le> capacity"
proof (cases "d1 = d")
  case False
  let ?i = "record_id se kind t q d"
  obtain z where z: "se_zone se t = Some z" using assms False by (auto simp: create_scheduled_booking_def Let_def split: option.splits)
  obtain starts ends capacity where tm: "terms kind z t q d = Inr (starts, ends, capacity)"
    using assms False z by (auto simp: create_scheduled_booking_def Let_def split: option.splits sum.splits prod.splits)
  obtain a b where w: "window z (new_row se kind t q ?i starts ends) = Some (a, b)"
    using assms False z tm by (auto simp: create_scheduled_booking_def Let_def split: option.splits)
  obtain rows where rows: "day_bookings se kind t AnyDay (Some (rq_resource q)) d = Inr rows"
    using assms False z tm w by (auto simp: create_scheduled_booking_def Let_def split: option.splits sum.splits)
  note spec = day_bookings_spec[OF rows z]
  have "find_one (\<lambda>r. sr_tenant r = t \<and> sr_id r = ?i) (coll kind d) = None"
    using assms False by (auto simp: create_scheduled_booking_def Let_def split: option.splits)
  then have ins: "sweep capacity 0 (sort (events_of a b (taken_times z rows)))" "r = Inr (new_row se kind t q ?i starts ends)"
    "d1 = (with_coll kind (\<lambda>c. c @ [new_row se kind t q ?i starts ends]) d)\<lparr>sd_audit := sd_audit d @ [(t, kind, ?i, ''booking_created'')]\<rparr>"
    using assms False z tm w rows by (auto simp: create_scheduled_booking_def Let_def split: if_splits)
  have "\<forall>x \<in> {a..<b}. 1 + int (holds_at x (taken_times z (filter (of_resource t (Some (rq_resource q))) (coll kind d)))) \<le> capacity"
    using sweep_sound[OF window_ordered[OF w] spec(2) ins(1)] spec(1) by simp
  then show thesis using that(2)[OF z tm refl w ins(2,3)] by blast
qed blast

lemma booked_appended:
  "se_zone se t = Some z \<Longrightarrow> sr_status row = Some ''booked'' \<Longrightarrow>
   booked_at se k t' res x ((with_coll kind (\<lambda>c. c @ [row]) d)\<lparr>sd_audit := au\<rparr>) = booked_at se k t' res x d +
     (if k = kind \<and> t' = sr_tenant row \<and> res = sr_resource row \<and> (\<exists>z'. se_zone se t' = Some z' \<and> fst (span z' row) \<le> x \<and> x < snd (span z' row)) then 1 else 0)"
  by (auto simp: booked_at_def split: option.splits)

lemma booked_cancelled:
  "booked_at se k t' res x ((with_coll kind (update_one p cancel_row) d)\<lparr>sd_audit := au\<rparr>) \<le> booked_at se k t' res x d"
proof -
  have "holds_at x (taken_times z (filter (\<lambda>r. sr_tenant r = t' \<and> sr_resource r = res) (update_one p cancel_row c))) \<le>
      holds_at x (taken_times z (filter (\<lambda>r. sr_tenant r = t' \<and> sr_resource r = res) c))" for z c
    by (induction c) (auto simp: cancel_row_def)
  then show ?thesis by (auto simp: booked_at_def split: option.split)
qed

lemma cancel_cases:
  assumes "cancel_scheduled_booking kind t i d = (d1, e)"
  obtains "d1 = d" | p au where "d1 = (with_coll kind (update_one p cancel_row) d)\<lparr>sd_audit := au\<rparr>"
  using assms by (auto simp: cancel_scheduled_booking_def split: option.splits if_splits)

lemma new_row_sel [simp]:
  "sr_status (new_row se kind t q i a b) = Some ''booked''" "sr_tenant (new_row se kind t q i a b) = t"
  "sr_resource (new_row se kind t q i a b) = rq_resource q" "sr_id (new_row se kind t q i a b) = i"
  "sr_hash (new_row se kind t q i a b) = Some (se_digest se q)"
  by (simp_all add: new_row_def)

lemma within_capacity_step:
  assumes "within_capacity se d" "sched_step se d d1"
  shows "within_capacity se d1"
  using assms(2)
proof cases
  case (Create kind t q r)
  from Create show ?thesis
  proof (cases rule: create_cases)
    case (2 z starts ends capacity a b row)
    have ab: "span z row = (a, b)" "a < b" using 2(4) window_ordered by auto
    have old: "int (booked_at se k t' res x d) \<le> limit k t' res d" for k t' res x using assms(1) by (simp add: within_capacity_def)
    have room: "1 + int (booked_at se kind t (rq_resource q) x d) \<le> capacity" if "a \<le> x" "x < b" for x
    proof -
      have "booked_at se kind t (rq_resource q) x d \<le> holds_at x (taken_times z (filter (of_resource t (Some (rq_resource q))) (coll kind d)))"
        using 2(1) by (auto simp: booked_at_def of_resource_def intro!: holds_at_filter)
      then show ?thesis using bspec[OF 2(7), of x] that by auto
    qed
    have cap: "capacity \<le> limit kind t (rq_resource q) d" using terms_within[OF 2(2)] room[of a] ab(2) by auto
    show ?thesis unfolding within_capacity_def
    proof (intro allI)
      fix k t' res x
      have "limit k t' res d1 = limit k t' res d" by (simp add: 2(6))
      moreover have "booked_at se k t' res x d1 = booked_at se k t' res x d + (if k = kind \<and> t' = t \<and> res = rq_resource q \<and> a \<le> x \<and> x < b then 1 else 0)"
        unfolding 2(6) using booked_appended[OF 2(1), of row] 2(1,3) ab(1) by auto
      ultimately show "int (booked_at se k t' res x d1) \<le> limit k t' res d1"
        using old[of k t' res x] room[of x] cap by auto
    qed
  qed (use assms in simp)
next
  case (Cancel kind t i e)
  from Cancel show ?thesis
  proof (cases rule: cancel_cases)
    case (2 p au)
    show ?thesis unfolding within_capacity_def
    proof (intro allI)
      fix k t' res x
      have "int (booked_at se k t' res x d) \<le> limit k t' res d" using assms(1) by (simp add: within_capacity_def)
      moreover have "int (booked_at se k t' res x d1) \<le> int (booked_at se k t' res x d)" unfolding 2 using booked_cancelled by simp
      ultimately show "int (booked_at se k t' res x d1) \<le> limit k t' res d1" by (simp add: 2)
    qed
  qed (use assms in simp)
qed

interpretation calendars: invariant_system no_services "sched_step se" "within_capacity se" for se
proof
  fix d assume "no_services d"
  then have "coll k d = []" for k by (cases k) (simp_all add: no_services_def)
  then show "within_capacity se d" by (simp add: within_capacity_def booked_at_def split: option.split)
qed (rule within_capacity_step)

text \<open>
  C14.  However bookings are created and cancelled, at no instant do more bookings of an activity
  resource hold than its capacity, nor more than one booking of a function room.
\<close>

theorem capacity_never_exceeded:
  assumes "no_services fresh" "(sched_step se)\<^sup>*\<^sup>* fresh d"
  shows "int (booked_at se kind t res x d) \<le> limit kind t res d"
  using calendars.reachable_inv[OF assms] by (simp add: within_capacity_def)

section \<open>A request sent again\<close>

lemma find_one_append: "find_one p (xs @ ys) = (case find_one p xs of None \<Rightarrow> find_one p ys | Some x \<Rightarrow> Some x)"
  unfolding find_one_def by (induction xs) auto

lemma find_one_single: "find_one p [x] = (if p x then Some x else None)"
  by (simp add: find_one_def)

text \<open>
  A request with a token that was stored is answered with the stored booking when it is sent again,
  whatever else is stored meanwhile, and stores nothing; another request under the token is refused.
\<close>

theorem repeated_request_stored_once:
  assumes "create_scheduled_booking se kind t q d = (d1, Inr row)" "rq_token q = Some tok" "tok \<noteq> []" "rq_token q' = rq_token q"
  shows "create_scheduled_booking se kind t q' ((with_coll kind (\<lambda>c. c @ later) d1)\<lparr>sd_audit := au\<rparr>) =
    ((with_coll kind (\<lambda>c. c @ later) d1)\<lparr>sd_audit := au\<rparr>, if Some (se_digest se q') = sr_hash row then Inr row else Inl (Http 409))"
proof -
  let ?p = "\<lambda>r. sr_tenant r = t \<and> sr_id r = se_uuid5 se kind t tok"
  have id: "record_id se kind t q e = se_uuid5 se kind t tok" "record_id se kind t q' e = se_uuid5 se kind t tok" for e
    using assms(2-4) by (simp_all add: record_id_def)
  have "find_one ?p (coll kind d1) = Some row"
    using assms(1)
  proof (cases rule: create_cases)
    case 1
    then show ?thesis using assms(1)
      by (auto simp: create_scheduled_booking_def Let_def id split: option.splits if_splits sum.splits prod.splits dest!: arg_cong[of _ _ "coll kind"])
  next
    case (2 z starts ends capacity a b x)
    have "d1 \<noteq> d" using 2(6) by (auto dest!: arg_cong[of _ _ "coll kind"])
    then have "find_one ?p (coll kind d) = None"
      using assms(1) by (auto simp: create_scheduled_booking_def Let_def id split: option.splits)
    then show ?thesis using 2(3,5,6) by (auto simp: find_one_append find_one_single id)
  qed
  then have "find_one ?p (coll kind d1 @ later) = Some row" by (simp add: find_one_append)
  then show ?thesis by (auto simp: create_scheduled_booking_def Let_def id)
qed

section \<open>Examples\<close>

definition utc_zone :: zone where
  "utc_zone = \<lparr>zn_at = (\<lambda>_. 0), zn_wall = (\<lambda>_ _. 0)\<rparr>"

definition sample_sched_env :: "zone \<Rightarrow> sched_env" where
  "sample_sched_env z = \<lparr>se_zone = (\<lambda>_. Some z), se_uuid5 = (\<lambda>k t tok. tok), se_uuid4 = (\<lambda>d. ''fresh''), se_digest = rq_guest\<rparr>"

definition sample_request :: "string \<Rightarrow> string \<Rightarrow> int \<Rightarrow> sched_request" where
  "sample_request act tok at_hour = \<lparr>rq_resource = ''court'', rq_activity = act, rq_guest = ''g1'', rq_starts = Zoned (3600 * at_hour),
     rq_ends = Garbled, rq_duration = None, rq_attendees = 1, rq_setup = ''theatre'', rq_token = Some tok\<rparr>"

definition sample_sched :: sched_db where
  "sample_sched = \<lparr>sd_activities = [], sd_functions = [],
     sd_catalogue = [\<lparr>ac_tenant = ''t1'', ac_id = ''lesson'', ac_active = True, ac_type = ''tennis'', ac_duration = 60, ac_capacity = Some 1\<rparr>,
       \<lparr>ac_tenant = ''t1'', ac_id = ''group'', ac_active = True, ac_type = ''tennis'', ac_duration = 120, ac_capacity = Some 2\<rparr>],
     sd_resources = [\<lparr>rs_tenant = ''t1'', rs_id = ''court'', rs_active = True, rs_types = [], rs_capacity = Some 2\<rparr>],
     sd_rooms = [], sd_guests = [(''t1'', ''g1'')], sd_audit = []\<rparr>"

definition book :: "zone \<Rightarrow> string \<Rightarrow> string \<Rightarrow> int \<Rightarrow> sched_db \<Rightarrow> sched_db \<times> (sched_error + sched_row)" where
  "book z act tok h d = create_scheduled_booking (sample_sched_env z) Activity ''t1'' (sample_request act tok h) d"

theorem sweep_admits_exactly_witness:
  "sweep 2 0 (sort (events_of 3 6 [(1, 4), (4, 9)])) \<and> holds_at 3 [(1, 4), (4, 9)] = 1"
proof -
  have "\<forall>x \<in> {3..<6}. 1 + int (holds_at x [(1, 4), (4, 9)]) \<le> 2" by auto
  then have "sweep 2 0 (sort (events_of 3 6 [(1, 4), (4, 9)]))"
    using sweep_admits_exactly[of 3 6 "[(1, 4), (4, 9)]" 2] by auto
  then show ?thesis by simp
qed

theorem capacity_never_exceeded_witness:
  "int (booked_at (sample_sched_env utc_zone) Activity ''t1'' ''court'' 36000 (fst (book utc_zone ''group'' ''k2'' 9 (fst (book utc_zone ''group'' ''k1'' 10 sample_sched))))) \<le> 2"
proof -
  let ?se = "sample_sched_env utc_zone"
  let ?d1 = "fst (book utc_zone ''group'' ''k1'' 10 sample_sched)"
  have "no_services sample_sched" by code_simp
  moreover have "sched_step ?se sample_sched ?d1" unfolding book_def by (rule sched_step.Create[OF surjective_pairing])
  moreover have "sched_step ?se ?d1 (fst (book utc_zone ''group'' ''k2'' 9 ?d1))"
    unfolding book_def by (rule sched_step.Create[OF surjective_pairing])
  moreover have "limit Activity ''t1'' ''court'' (fst (book utc_zone ''group'' ''k2'' 9 ?d1)) = 2" by code_simp
  ultimately show ?thesis
    using capacity_never_exceeded[of sample_sched ?se "fst (book utc_zone ''group'' ''k2'' 9 ?d1)" Activity "''t1''" "''court''" 36000]
    by (simp add: converse_rtranclp_into_rtranclp)
qed

theorem repeated_request_stored_once_witness:
  "(let d1 = fst (book utc_zone ''group'' ''k1'' 10 sample_sched) in fst (book utc_zone ''group'' ''k1'' 10 d1) = d1)"
proof -
  let ?d1 = "fst (book utc_zone ''group'' ''k1'' 10 sample_sched)"
  have "case snd (book utc_zone ''group'' ''k1'' 10 sample_sched) of Inl e \<Rightarrow> False | Inr r \<Rightarrow> True" by code_simp
  then obtain r where r: "book utc_zone ''group'' ''k1'' 10 sample_sched = (?d1, Inr r)" by (metis prod.collapse sum.case_eq_if sum.collapse(2))
  have t: "rq_token (sample_request ''group'' ''k1'' 10) = Some ''k1''" "''k1'' \<noteq> []" by code_simp+
  have "(with_coll Activity (\<lambda>c. c @ []) ?d1)\<lparr>sd_audit := sd_audit ?d1\<rparr> = ?d1" by simp
  then show ?thesis
    using repeated_request_stored_once[OF r[unfolded book_def] t refl, where later = "[]" and au = "sd_audit ?d1"] by (simp add: book_def)
qed

text \<open>
  The capacity of an activity is asked of a new booking only: a private lesson gets company when a group
  is booked after it, and is refused when it is booked after the group.
\<close>

lemma private_lesson_gets_company:
  "(case snd (book utc_zone ''group'' ''k2'' 10 (fst (book utc_zone ''lesson'' ''k1'' 10 sample_sched))) of Inl e \<Rightarrow> False | Inr r \<Rightarrow> True) \<and>
   (case snd (book utc_zone ''lesson'' ''k1'' 10 (fst (book utc_zone ''group'' ''k2'' 10 sample_sched))) of Inl e \<Rightarrow> e = Http 409 | Inr r \<Rightarrow> False)"
  by code_simp

text \<open>The duration is added to the wall clock: two hours over a change to summer time are one.\<close>

definition summer_zone :: "int \<Rightarrow> zone" where
  "summer_zone change =
     \<lparr>zn_at = (\<lambda>i. if i < change then 3600 else 7200),
      zn_wall = (\<lambda>w later. if w < change + 3600 then 3600 else if w < change + 7200 then (if later then 7200 else 3600) else 7200)\<rparr>"

lemma duration_over_summer_time:
  "(case snd (book (summer_zone 37800) ''group'' ''k1'' 10 sample_sched) of
      Inl e \<Rightarrow> False | Inr r \<Rightarrow> window (summer_zone 37800) r = Some (36000, 36000 + 3600))"
  by code_simp

end
