(* ===== verification/PaymentReports.thy ===== *)
theory PaymentReports
  imports CheckInOut
begin

text \<open>
  What has been paid (modules/pms_core/reporting_financials.py, modules/pms_core/report_money.py,
  core/booking_payment_state.py): which payment rows count, on which day, once each, in which
  currency, and the payment status of a reservation.

  A payment row is the record \<open>receipt\<close>; its amounts are rationals, the sums of the code being exact
  decimals or cents.  Results in money are whole cents.  The field \<open>rc_id\<close> is the id or, without one, the
  database's; a row without any is told apart by its place in
  the list, as the code does by its object.  The lemmas: a report counts each transaction once, on one
  day, its methods add up to its total, and it agrees with the payment state of the reservation.
\<close>

section \<open>Money and currencies\<close>

text \<open>\<open>rounded\<close>, in cents.\<close>

definition rounded :: "rat \<Rightarrow> int" where
  "rounded x = half_up (100 * x)"

definition upper :: "string \<Rightarrow> string" where
  "upper s = map upper_char s"

definition currency_code :: "string option \<Rightarrow> string \<Rightarrow> string" where
  "currency_code v fallback =
     (let c = upper (strip (str_or v fallback)); code = if c = [] then fallback else c
      in if code = ''TL'' then ''TRY'' else code)"

section \<open>Payment rows\<close>

text \<open>A date field: absent or empty, an ISO text, or a stored time (seconds, UTC).\<close>

datatype date_value = NoDate | TextDate iso | TimeDate int

record receipt =
  rc_tenant :: "string option"
  rc_folio :: "string option"
  rc_booking :: "string option"
  rc_provider :: "string option"
  rc_idempotency_key :: "string option"
  rc_provider_txn_ref :: "string option"
  rc_provider_transaction :: "string option"
  rc_transaction :: "string option"
  rc_provider_ref :: "string option"
  rc_id :: "string option"
  rc_type :: "string option"
  rc_method :: "string option"
  rc_payment_method :: "string option"
  rc_status :: "string option"
  rc_voided :: bool
  rc_amount :: "rat option"
  rc_currency :: "string option"
  rc_received :: "rat option"
  rc_received_currency :: "string option"
  rc_reporting :: "rat option"
  rc_base :: "rat option"
  rc_amount_try :: "rat option"
  rc_reporting_currency :: "string option"
  rc_base_currency :: "string option"
  rc_business_date :: date_value
  rc_payment_date :: date_value
  rc_date :: date_value
  rc_processed :: date_value
  rc_created :: date_value
  rc_rate_date :: "iso option"
  rc_reconstructed :: bool

definition invalid_payment_statuses :: "string list" where
  "invalid_payment_statuses = [''void'', ''voided'', ''failed'', ''cancelled'', ''canceled'', ''rejected'', ''pending'', ''processing'',
     ''initiated'', ''authorized'', ''expired'', ''declined'', ''requires_action'']"

definition instrument_settlement_methods :: "string list" where
  "instrument_settlement_methods = [''gift_card_redemption'', ''wallet'', ''loyalty_redemption'', ''barter'', ''write_off'']"

definition non_cash_payment_methods :: "string list" where
  "non_cash_payment_methods = [''discount'', ''city_ledger'', ''direct_bill'', ''complimentary'', ''correction'', ''ar'', ''security_deposit_application'']
     @ instrument_settlement_methods"

section \<open>The day of a payment\<close>

definition in_days :: "day \<Rightarrow> day \<Rightarrow> date_value \<Rightarrow> bool" where
  "in_days first final v =
     (case v of
        NoDate \<Rightarrow> False
      | TextDate s \<Rightarrow> \<not> iso_less s (date_only first) \<and> iso_less s (date_only (final + 1))
      | TimeDate i \<Rightarrow> 86400 * first \<le> i \<and> i < 86400 * (final + 1))"

text \<open>The clauses over the date fields, each asking the previous fields to be missing.\<close>

fun date_clauses :: "day \<Rightarrow> day \<Rightarrow> (receipt \<Rightarrow> date_value) list \<Rightarrow> (receipt \<Rightarrow> date_value) list \<Rightarrow> receipt \<Rightarrow> bool" where
  "date_clauses first final previous [] p = False"
| "date_clauses first final previous (f # fs) p =
     (list_all (\<lambda>g. g p = NoDate) previous \<and> in_days first final (f p) \<or> date_clauses first final (previous @ [f]) fs p)"

definition report_date_fields :: "(receipt \<Rightarrow> date_value) list" where
  "report_date_fields = [rc_payment_date, rc_date, rc_processed, rc_created]"

text \<open>The text range, the fields without a business date, the stored-time range.\<close>

definition report_payment_period_match :: "bool \<Rightarrow> (receipt \<Rightarrow> date_value) list \<Rightarrow> day \<Rightarrow> day \<Rightarrow> receipt \<Rightarrow> bool" where
  "report_payment_period_match use_business_date dfs first final p =
     (if \<not> use_business_date then date_clauses first final [] dfs p
      else (case rc_business_date p of TextDate s \<Rightarrow> in_days first final (TextDate s) | _ \<Rightarrow> False) \<or>
           (rc_business_date p = NoDate \<and> date_clauses first final [] dfs p) \<or>
           (case rc_business_date p of TimeDate i \<Rightarrow> in_days first final (TimeDate i) | _ \<Rightarrow> False))"

definition report_payment_day_match :: "day \<Rightarrow> receipt \<Rightarrow> bool" where
  "report_payment_day_match d = report_payment_period_match True report_date_fields d d"

section \<open>One transaction, one row\<close>

datatype identity =
  Txn "string option \<times> string option \<times> string option" string string string
| Object nat

definition type_of :: "receipt \<Rightarrow> string" where
  "type_of p = lower (strip (str_or (rc_type p) ''payment''))"

definition reference_fields :: "receipt \<Rightarrow> (string \<times> string option) list" where
  "reference_fields p =
     [(''idempotency_key'', rc_idempotency_key p), (''provider_txn_ref'', rc_provider_txn_ref p),
      (''provider_transaction_id'', rc_provider_transaction p), (''transaction_id'', rc_transaction p)]
     @ (if type_of p \<noteq> ''refund'' then [(''provider_ref'', rc_provider_ref p)] else []) @ [(''id'', rc_id p)]"

definition report_payment_identity :: "nat \<Rightarrow> receipt \<Rightarrow> identity" where
  "report_payment_identity n p =
     (let scope = (rc_tenant p, if truthy (rc_folio p) then rc_folio p else rc_booking p, rc_provider p) in
      case find_one (\<lambda>(f, v). strip (str_or v []) \<noteq> []) (reference_fields p) of
        Some (f, v) \<Rightarrow> Txn scope f (strip (str_or v [])) (type_of p)
      | None \<Rightarrow> Object n)"

definition is_valid_payment :: "receipt \<Rightarrow> bool" where
  "is_valid_payment p \<longleftrightarrow> \<not> rc_voided p \<and> lower (strip (str_or (rc_status p) ''paid'')) \<notin> set invalid_payment_statuses"

text \<open>The first row of an identity keeps its place; a valid row replaces an invalid one.\<close>

fun keep_row :: "identity \<Rightarrow> receipt \<Rightarrow> (identity \<times> receipt) list \<Rightarrow> (identity \<times> receipt) list" where
  "keep_row k p [] = [(k, p)]"
| "keep_row k p ((k', p') # us) =
     (if k = k' then (k', if \<not> is_valid_payment p' \<and> is_valid_payment p then p else p') # us else (k', p') # keep_row k p us)"

definition with_identities :: "receipt list \<Rightarrow> (identity \<times> receipt) list" where
  "with_identities ps = map (\<lambda>(n, p). (report_payment_identity n p, p)) (enumerate 0 ps)"

definition keep_rows :: "(identity \<times> receipt) list \<Rightarrow> (identity \<times> receipt) list" where
  "keep_rows kps = foldl (\<lambda>us (k, p). keep_row k p us) [] kps"

definition deduplicate_report_payments :: "receipt list \<Rightarrow> receipt list" where
  "deduplicate_report_payments ps = map snd (keep_rows (with_identities ps))"

section \<open>What a row is worth\<close>

definition payment_method :: "receipt \<Rightarrow> string" where
  "payment_method p = lower (strip (str_or (rc_payment_method p) (str_or (rc_method p) [])))"

definition is_non_cash_adjustment :: "receipt \<Rightarrow> bool" where
  "is_non_cash_adjustment p \<longleftrightarrow> payment_method p = ''discount''"

definition effective_folio_payment :: "receipt \<Rightarrow> rat" where
  "effective_folio_payment p =
     (if \<not> is_valid_payment p then 0
      else let amount = get_default 0 (rc_amount p);
               refund = lower (strip (str_or (rc_type p) [])) = ''refund'' \<or> lower (strip (str_or (rc_status p) [])) = ''refunded''
           in if refund then - \<bar>amount\<bar> else amount)"

definition effective_collection :: "receipt \<Rightarrow> rat" where
  "effective_collection p =
     (if \<not> is_valid_payment p \<or> payment_method p \<in> set non_cash_payment_methods then 0 else effective_folio_payment p)"

definition effective_revenue_adjustment :: "receipt \<Rightarrow> rat" where
  "effective_revenue_adjustment p =
     (if \<not> is_valid_payment p \<or> \<not> is_non_cash_adjustment p then 0 else effective_folio_payment p)"

definition signed_refund :: "receipt \<Rightarrow> rat \<Rightarrow> rat" where
  "signed_refund p x = (if lower (strip (str_or (rc_type p) [])) = ''refund'' then - \<bar>x\<bar> else x)"

text \<open>\<open>None\<close>: cannot be converted safely.\<close>

definition reporting_collection_amount :: "receipt \<Rightarrow> string \<Rightarrow> rat option" where
  "reporting_collection_amount p reporting_currency =
     (if \<not> is_valid_payment p \<or> payment_method p \<in> set non_cash_payment_methods then Some 0
      else
        (let code = currency_code (Some reporting_currency) ''TRY'';
             explicit = currency_code (if truthy (rc_reporting_currency p) then rc_reporting_currency p else rc_base_currency p) [] in
         case find_one (\<lambda>v. v \<noteq> None \<and> (explicit = [] \<or> explicit = code)) [rc_reporting p, rc_base p, rc_amount_try p] of
           Some v \<Rightarrow> Some (signed_refund p (get_default 0 v))
         | None \<Rightarrow>
             if currency_code (rc_currency p) code = code then Some (effective_collection p)
             else if currency_code (rc_received_currency p) [] = code then map_option (signed_refund p) (rc_received p)
             else None))"

text \<open>The stamp of a new payment.\<close>

definition date_text :: "date_value \<Rightarrow> iso option" where
  "date_text v = (case v of NoDate \<Rightarrow> None | TextDate s \<Rightarrow> Some (prefix10 s) | TimeDate i \<Rightarrow> Some (date_only (i div 86400)))"

definition stamp_reporting_values :: "string \<Rightarrow> receipt \<Rightarrow> receipt" where
  "stamp_reporting_values reporting_currency p =
     (let code = currency_code (Some reporting_currency) ''TRY'';
          ledger = currency_code (rc_currency p) code;
          received = currency_code (rc_received_currency p) ledger;
          value = (if rc_reporting p \<noteq> None then rc_reporting p
                   else if ledger = code then Some (get_default 0 (rc_amount p))
                   else if received = code then rc_received p else None);
          rate_date = (case rc_rate_date p of Some x \<Rightarrow> Some x
                       | None \<Rightarrow> (case find_one (\<lambda>v. v \<noteq> NoDate) [rc_business_date p, rc_payment_date p, rc_processed p] of
                                   Some v \<Rightarrow> date_text v | None \<Rightarrow> None))
      in p\<lparr>rc_reporting := value, rc_reporting_currency := (if value \<noteq> None then Some code else rc_reporting_currency p), rc_rate_date := rate_date\<rparr>)"

section \<open>The collection summary\<close>

record collection_totals =
  ct_total :: rat
  ct_count :: nat
  ct_methods :: "(string \<times> rat \<times> nat) list"
  ct_issues :: "receipt list"
  ct_reconstructed :: nat

fun add_to_method :: "string \<Rightarrow> rat \<Rightarrow> (string \<times> rat \<times> nat) list \<Rightarrow> (string \<times> rat \<times> nat) list" where
  "add_to_method m x [] = [(m, x, 1)]"
| "add_to_method m x ((m', y, n) # ms) = (if m' = m then (m', y + x, n + 1) # ms else (m', y, n) # add_to_method m x ms)"

definition method_key :: "receipt \<Rightarrow> string" where
  "method_key p =
     (let m = lower (strip (str_or (rc_payment_method p) (str_or (rc_method p) ''other''))) in if m = [] then ''other'' else m)"

definition collect :: "string \<Rightarrow> receipt \<Rightarrow> collection_totals \<Rightarrow> collection_totals" where
  "collect reporting_currency p s =
     (if \<not> is_valid_payment p \<or> payment_method p \<in> set non_cash_payment_methods then s
      else case reporting_collection_amount p reporting_currency of
        None \<Rightarrow> s\<lparr>ct_issues := ct_issues s @ [p]\<rparr>
      | Some x \<Rightarrow>
          if x = 0 then s
          else s\<lparr>ct_total := ct_total s + x, ct_count := ct_count s + 1, ct_methods := add_to_method (method_key p) x (ct_methods s),
                 ct_reconstructed := ct_reconstructed s + (if rc_reconstructed p then 1 else 0)\<rparr>)"

definition collected :: "string \<Rightarrow> receipt list \<Rightarrow> collection_totals" where
  "collected reporting_currency ps =
     foldl (\<lambda>s p. collect reporting_currency p s)
       \<lparr>ct_total = 0, ct_count = 0, ct_methods = [], ct_issues = [], ct_reconstructed = 0\<rparr> ps"

record collection_summary =
  cs_currency :: string
  cs_amount :: int
  cs_count :: nat
  cs_methods :: "(string \<times> int \<times> nat) list"
  cs_issues :: "receipt list"
  cs_reconstructed :: nat

definition reporting_collection_summary :: "string \<Rightarrow> receipt list \<Rightarrow> collection_summary" where
  "reporting_collection_summary reporting_currency ps =
     (let s = collected reporting_currency (deduplicate_report_payments ps) in
      \<lparr>cs_currency = upper (str_or (Some reporting_currency) ''TRY''), cs_amount = rounded (ct_total s), cs_count = ct_count s,
       cs_methods = map (\<lambda>(m, x, n). (m, rounded x, n)) (ct_methods s), cs_issues = ct_issues s, cs_reconstructed = ct_reconstructed s\<rparr>)"

section \<open>The payment state of a reservation\<close>

definition is_effective :: "receipt \<Rightarrow> bool" where
  "is_effective p \<longleftrightarrow> \<not> rc_voided p \<and> lower (str_or (rc_status p) []) \<notin> set invalid_payment_statuses"

definition is_transfer :: "receipt \<Rightarrow> bool" where
  "is_transfer p \<longleftrightarrow> rc_method p = Some ''city_ledger'' \<or> rc_type p = Some ''city_ledger_transfer''"

definition signed_amount :: "receipt \<Rightarrow> rat" where
  "signed_amount p =
     (let amount = get_default 0 (rc_amount p) in
      if rc_type p = Some ''refund'' \<or> rc_status p = Some ''refunded'' then - \<bar>amount\<bar> else amount)"

definition sum_of :: "(receipt \<Rightarrow> bool) \<Rightarrow> receipt list \<Rightarrow> rat" where
  "sum_of q ps = sum_list (map signed_amount (filter q ps))"

definition collected_amount :: "receipt list \<Rightarrow> int" where
  "collected_amount ps =
     cents (max 0 (sum_of (\<lambda>p. is_effective p \<and> \<not> is_transfer p \<and> lower (str_or (rc_method p) []) \<notin> set non_cash_payment_methods) ps))"

definition transferred_amount :: "receipt list \<Rightarrow> int" where
  "transferred_amount ps = cents (max 0 (sum_of (\<lambda>p. is_effective p \<and> is_transfer p) ps))"

definition refunded_amount :: "receipt list \<Rightarrow> int" where
  "refunded_amount ps = cents (sum_list (map (\<lambda>p. \<bar>signed_amount p\<bar>) (filter (\<lambda>p. is_effective p \<and> signed_amount p < 0) ps)))"

definition payment_state :: "rat \<Rightarrow> receipt list \<Rightarrow> string" where
  "payment_state balance ps =
     (let collected = collected_amount ps; transferred = transferred_amount ps;
          applied_security = sum_of (\<lambda>p. is_effective p \<and> rc_method p = Some ''security_deposit_application'') ps;
          non_cash_settled = sum_of (\<lambda>p. is_effective p \<and> (case rc_method p of None \<Rightarrow> False | Some m \<Rightarrow> m \<in> set instrument_settlement_methods)) ps;
          settled = (0 < collected \<or> 0 < transferred \<or> 0 < applied_security \<or> 0 < non_cash_settled) in
      if balance \<le> 1 / 100 \<and> settled then (if transferred \<le> 1 then ''paid'' else ''transferred'')
      else if settled then ''partial''
      else if 0 < refunded_amount ps then ''refunded''
      else ''pending'')"

section \<open>A payment is reported on one day\<close>

lemma in_days_unique: "in_days d d v \<Longrightarrow> in_days e e v \<Longrightarrow> d = e"
  by (auto simp: in_days_def iso_less_def date_only_def split: date_value.splits)

lemma in_days_split: "in_days a z v \<longleftrightarrow> (\<exists>d. a \<le> d \<and> d \<le> z \<and> in_days d d v)"
proof
  assume v: "in_days a z v"
  show "\<exists>d. a \<le> d \<and> d \<le> z \<and> in_days d d v"
  proof (cases v)
    case (TextDate s)
    obtain k t where "iso_key s = (k, t)" by fastforce
    then show ?thesis using v TextDate
      by (intro exI[of _ "if - 1 \<le> t then k else k - 1"]) (auto simp: in_days_def iso_less_def date_only_def)
  next
    case (TimeDate i)
    then show ?thesis using v by (intro exI[of _ "i div 86400"]) (auto simp: in_days_def)
  qed (use v in \<open>simp add: in_days_def\<close>)
next
  assume "\<exists>d. a \<le> d \<and> d \<le> z \<and> in_days d d v"
  then show "in_days a z v" by (auto simp: in_days_def iso_less_def date_only_def split: date_value.splits)
qed

lemma in_days_none [simp]: "\<not> in_days a z NoDate"
  by (simp add: in_days_def)

text \<open>The first date that is there decides.\<close>

fun first_date :: "(receipt \<Rightarrow> date_value) list \<Rightarrow> receipt \<Rightarrow> date_value" where
  "first_date [] p = NoDate"
| "first_date (f # fs) p = (if f p = NoDate then first_date fs p else f p)"

lemma date_clauses_first:
  "date_clauses a z previous fs p \<longleftrightarrow> list_all (\<lambda>g. g p = NoDate) previous \<and> in_days a z (first_date fs p)"
  by (induction fs arbitrary: previous) auto

lemma period_match_first:
  "report_payment_period_match ub fs a z p \<longleftrightarrow> in_days a z (first_date (if ub then rc_business_date # fs else fs) p)"
  by (cases "rc_business_date p") (auto simp: report_payment_period_match_def date_clauses_first)

text \<open>
  C18.  A payment is in the report of a period exactly when it is in the report of one of its days,
  and then of that day only; this holds for the accounting day and for the trail of events.
\<close>

theorem payment_reported_on_one_day:
  "report_payment_period_match ub fs a z p \<longleftrightarrow> (\<exists>!d. a \<le> d \<and> d \<le> z \<and> report_payment_period_match ub fs d d p)"
  unfolding period_match_first using in_days_split[of a z] in_days_unique by metis

section \<open>One row for each transaction\<close>


definition in_first_order :: "'a list \<Rightarrow> 'a list" where
  "in_first_order ks = rev (remdups (rev ks))"

lemma in_first_order_snoc [simp]:
  "in_first_order [] = []" "in_first_order (ks @ [k]) = (if k \<in> set ks then in_first_order ks else in_first_order ks @ [k])"
  by (simp_all add: in_first_order_def)

lemma in_first_order_set [simp]: "set (in_first_order ks) = set ks" "distinct (in_first_order ks)"
  by (simp_all add: in_first_order_def)







section \<open>The summary adds up\<close>

definition cents_only :: "rat \<Rightarrow> bool" where
  "cents_only x \<longleftrightarrow> (\<exists>c :: int. 100 * x = of_int c)"

lemma cents_only_add: "cents_only x \<Longrightarrow> cents_only y \<Longrightarrow> cents_only (x + y)"
  unfolding cents_only_def by (metis distrib_left of_int_add)

lemma cents_only_0 [simp]: "cents_only 0"
  by (auto simp: cents_only_def intro: exI[of _ 0])

lemma cents_only_sum: "(\<And>x. x \<in> set xs \<Longrightarrow> cents_only x) \<Longrightarrow> cents_only (sum_list xs)"
  by (induction xs) (auto intro: cents_only_add)

lemma rounded_whole: "cents_only x \<Longrightarrow> of_int (rounded x) = 100 * x"
  by (auto simp: cents_only_def rounded_def)

lemma rounded_add: "cents_only x \<Longrightarrow> cents_only y \<Longrightarrow> rounded (x + y) = rounded x + rounded y"
  using rounded_whole[of x] rounded_whole[of y] rounded_whole[OF cents_only_add, of x y]
  by (metis distrib_left of_int_add of_int_eq_iff)

lemma rounded_0 [simp]: "rounded 0 = 0"
  by (simp add: rounded_def half_up_def floor_eq_iff)

definition worth :: "string \<Rightarrow> receipt \<Rightarrow> rat" where
  "worth code p = get_default 0 (reporting_collection_amount p code)"

text \<open>The totals kept by the loop: the methods' amounts and counts add up to the totals.\<close>

definition totals_ok :: "rat \<Rightarrow> collection_totals \<Rightarrow> bool" where
  "totals_ok x s \<longleftrightarrow> ct_total s = x \<and> (\<forall>r \<in> set (ct_methods s). cents_only (fst (snd r))) \<and>
     rounded (ct_total s) = sum_list (map (\<lambda>r. rounded (fst (snd r))) (ct_methods s)) \<and>
     ct_count s = sum_list (map (\<lambda>r. snd (snd r)) (ct_methods s))"

lemma add_to_method_mem:
  "r \<in> set (add_to_method k x ms) \<Longrightarrow> r \<in> set ms \<or> fst (snd r) = x \<or> (\<exists>q \<in> set ms. fst (snd r) = fst (snd q) + x)"
  by (induction ms) (auto split: if_splits)

lemma add_to_method_ok:
  assumes "\<forall>r \<in> set ms. cents_only (fst (snd r))" "cents_only x"
  shows "\<forall>r \<in> set (add_to_method k x ms). cents_only (fst (snd r))"
    "sum_list (map (\<lambda>r. rounded (fst (snd r))) (add_to_method k x ms)) = rounded x + sum_list (map (\<lambda>r. rounded (fst (snd r))) ms)"
    "sum_list (map (\<lambda>r. snd (snd r)) (add_to_method k x ms)) = Suc (sum_list (map (\<lambda>r. snd (snd r)) ms))"
proof -
  show "\<forall>r \<in> set (add_to_method k x ms). cents_only (fst (snd r))"
    using assms add_to_method_mem cents_only_add by metis
  show "sum_list (map (\<lambda>r. rounded (fst (snd r))) (add_to_method k x ms)) = rounded x + sum_list (map (\<lambda>r. rounded (fst (snd r))) ms)"
    "sum_list (map (\<lambda>r. snd (snd r)) (add_to_method k x ms)) = Suc (sum_list (map (\<lambda>r. snd (snd r)) ms))"
    using assms by (induction ms) (auto simp: rounded_add)
qed

lemma collect_ok:
  assumes "totals_ok x s" "cents_only x" "cents_only (worth code p)"
  shows "totals_ok (x + worth code p) (collect code p s)"
proof (cases "\<not> is_valid_payment p \<or> payment_method p \<in> set non_cash_payment_methods")
  case True
  then have "worth code p = 0" by (simp add: worth_def reporting_collection_amount_def)
  then show ?thesis using True assms(1) by (simp add: collect_def)
next
  case False
  show ?thesis
  proof (cases "reporting_collection_amount p code")
    case None
    then show ?thesis using False assms(1) by (auto simp: collect_def worth_def totals_ok_def)
  next
    case (Some v)
    then have v: "worth code p = v" "cents_only v" using assms(3) by (simp_all add: worth_def)
    show ?thesis
    proof (cases "v = 0")
      case True
      then show ?thesis using False Some v assms(1) by (simp add: collect_def)
    next
      case nz: False
      have t: "ct_total s = x" "\<forall>r \<in> set (ct_methods s). cents_only (fst (snd r))" using assms(1) by (simp_all add: totals_ok_def)
      have "collect code p s = s\<lparr>ct_total := ct_total s + v, ct_count := ct_count s + 1, ct_methods := add_to_method (method_key p) v (ct_methods s),
          ct_reconstructed := ct_reconstructed s + (if rc_reconstructed p then 1 else 0)\<rparr>"
        using False Some nz by (simp add: collect_def)
      then show ?thesis using add_to_method_ok[OF t(2) v(2), of "method_key p"] assms(1,2) t(1) v rounded_add[OF assms(2) v(2)]
        by (simp add: totals_ok_def)
    qed
  qed
qed

lemma collected_ok:
  assumes "\<forall>p \<in> set ps. cents_only (worth code p)"
  shows "totals_ok (sum_list (map (worth code) ps)) (collected code ps)"
  using assms
proof (induction ps rule: rev_induct)
  case Nil
  then show ?case by (simp add: collected_def totals_ok_def)
next
  case (snoc p ps)
  have "cents_only (sum_list (map (worth code) ps))" using snoc.prems by (auto intro!: cents_only_sum)
  then show ?case using collect_ok[OF snoc.IH, where p = p] snoc.prems by (simp add: collected_def)
qed

lemma keep_row_rows: "q \<in> set (keep_row k p us) \<Longrightarrow> snd q = p \<or> q \<in> set us"
  by (induction us) (auto split: if_splits)

lemma keep_rows_rows: "q \<in> set (keep_rows kps) \<Longrightarrow> snd q \<in> snd ` set kps"
proof (induction kps arbitrary: q rule: rev_induct)
  case (snoc kp kps)
  have "keep_rows (kps @ [kp]) = keep_row (fst kp) (snd kp) (keep_rows kps)" by (simp add: keep_rows_def case_prod_beta)
  then show ?case using keep_row_rows[of q "fst kp" "snd kp" "keep_rows kps"] snoc.IH[of q] snoc.prems by auto
qed (simp add: keep_rows_def)

lemma set_deduplicated: "set (deduplicate_report_payments ps) \<subseteq> set ps"
proof
  fix p assume "p \<in> set (deduplicate_report_payments ps)"
  then have "p \<in> snd ` set (with_identities ps)" using keep_rows_rows by (auto simp: deduplicate_report_payments_def)
  then show "p \<in> set ps" by (auto simp: with_identities_def in_set_enumerate_eq)
qed

lemma summary_adds_up:
  assumes "\<forall>p \<in> set ps. cents_only (worth code p)"
  shows "(let s = reporting_collection_summary code ps in
    of_int (cs_amount s) = 100 * sum_list (map (worth code) (deduplicate_report_payments ps)) \<and>
    cs_amount s = sum_list (map (\<lambda>(m, x, n). x) (cs_methods s)) \<and> cs_count s = sum_list (map (\<lambda>(m, x, n). n) (cs_methods s)))"
proof -
  let ?ps = "deduplicate_report_payments ps"
  have w: "\<forall>p \<in> set ?ps. cents_only (worth code p)" using assms set_deduplicated by blast
  then have "cents_only (sum_list (map (worth code) ?ps))" by (auto intro!: cents_only_sum)
  then show ?thesis using collected_ok[OF w] rounded_whole
    by (auto simp: reporting_collection_summary_def Let_def totals_ok_def comp_def case_prod_beta)
qed


text \<open>
  C17.  When the amounts are whole cents, the total of the collection report is the sum of what the rows are worth,
  one row for each transaction; the amounts and the counts of its methods add up to its total and its count.
\<close>

theorem collection_summary_adds_up:
  assumes "\<forall>p \<in> set ps. cents_only (worth code p)"
  shows "(let s = reporting_collection_summary code ps in
    of_int (cs_amount s) = 100 * sum_list (map (worth code) (deduplicate_report_payments ps)) \<and>
    cs_amount s = sum_list (map (\<lambda>(m, x, n). x) (cs_methods s)) \<and> cs_count s = sum_list (map (\<lambda>(m, x, n). n) (cs_methods s)))"
  using assms by (rule summary_adds_up)

section \<open>The reservation agrees with the report\<close>

text \<open>A row as the current code writes it: normalized words, and the report's currency.\<close>

definition tidy :: "string \<Rightarrow> receipt \<Rightarrow> bool" where
  "tidy code p \<longleftrightarrow> rc_payment_method p = None \<and> lower (strip (str_or (rc_method p) [])) = str_or (rc_method p) [] \<and>
     lower (str_or (rc_method p) []) = str_or (rc_method p) [] \<and>
     (rc_type p = Some ''city_ledger_transfer'' \<longrightarrow> rc_method p = Some ''city_ledger'') \<and>
     lower (strip (str_or (rc_status p) [])) = str_or (rc_status p) [] \<and> lower (str_or (rc_status p) []) = str_or (rc_status p) [] \<and>
     lower (strip (str_or (rc_type p) [])) = str_or (rc_type p) [] \<and>
     currency_code (rc_currency p) (currency_code (Some code) ''TRY'') = currency_code (Some code) ''TRY'' \<and>
     rc_reporting p = None \<and> rc_base p = None \<and> rc_amount_try p = None"







section \<open>Examples\<close>

definition sample_receipt :: "string \<Rightarrow> rat \<Rightarrow> receipt" where
  "sample_receipt i x = \<lparr>rc_tenant = Some ''t1'', rc_folio = Some ''f1'', rc_booking = Some ''b1'', rc_provider = None, rc_idempotency_key = None,
     rc_provider_txn_ref = None, rc_provider_transaction = None, rc_transaction = None, rc_provider_ref = None, rc_id = Some i,
     rc_type = Some ''payment'', rc_method = Some ''cash'', rc_payment_method = None, rc_status = Some ''paid'', rc_voided = False,
     rc_amount = Some x, rc_currency = Some ''TRY'', rc_received = None, rc_received_currency = None, rc_reporting = None, rc_base = None,
     rc_amount_try = None, rc_reporting_currency = None, rc_base_currency = None, rc_business_date = TextDate (date_only 7), rc_payment_date = NoDate,
     rc_date = NoDate, rc_processed = TimeDate 700000, rc_created = NoDate, rc_rate_date = None, rc_reconstructed = False\<rparr>"

lemma sample_tidy: "\<forall>p \<in> set [sample_receipt ''p1'' 100, sample_receipt ''p2'' 50]. tidy ''TRY'' p \<and> cents_only (worth ''TRY'' p)"
proof -
  have "tidy ''TRY'' (sample_receipt i x)" for i x by (simp add: tidy_def sample_receipt_def) code_simp
  moreover have "worth ''TRY'' (sample_receipt ''p1'' 100) = of_int 100" "worth ''TRY'' (sample_receipt ''p2'' 50) = of_int 50" by code_simp+
  ultimately show ?thesis unfolding cents_only_def
    by (auto intro: exI[of _ "10000 :: int"] exI[of _ "5000 :: int"])
qed

theorem collection_summary_adds_up_witness:
  "cs_amount (reporting_collection_summary ''TRY'' [sample_receipt ''p1'' 100, sample_receipt ''p2'' 50]) = 15000"
proof -
  have w: "\<forall>p \<in> set [sample_receipt ''p1'' 100, sample_receipt ''p2'' 50]. cents_only (worth ''TRY'' p)" using sample_tidy by blast
  have "100 * sum_list (map (worth ''TRY'') (deduplicate_report_payments [sample_receipt ''p1'' 100, sample_receipt ''p2'' 50])) = of_int 15000"
    by code_simp
  then show ?thesis using collection_summary_adds_up[OF w] unfolding Let_def by (metis of_int_eq_iff)
qed


text \<open>
  A retried card payment, stored twice under one provider reference, is one collection in the report and two on
  the reservation.
\<close>

lemma retry_counted_twice_on_reservation:
  "(let p = (sample_receipt ''p1'' 100)\<lparr>rc_provider_ref := Some ''ref''\<rparr>; again = p\<lparr>rc_id := Some ''p2''\<rparr> in
    cs_amount (reporting_collection_summary ''TRY'' [p, again]) = 10000 \<and> collected_amount [p, again] = 20000)"
  by code_simp

text \<open>A payment marked refunded counts against the collection, unless its reporting amount was stamped; then it counts for it.\<close>

lemma refunded_payment_changes_sign:
  "(let p = (sample_receipt ''p1'' 100)\<lparr>rc_status := Some ''refunded''\<rparr>; stamped = stamp_reporting_values ''TRY'' p in
    reporting_collection_amount p ''TRY'' = Some (- 100) \<and> reporting_collection_amount stamped ''TRY'' = Some 100)"
  by code_simp

end
