(* ===== verification/Spec2Isabelle.thy ===== *)
theory Spec2Isabelle
  imports RoomTypeInventory AuditClose AuditChain EditGuard PosFolio RoomAssignment ScheduledServices PaymentReports
begin

text \<open>
  Syroce PMS: the booking and inventory core of a hotel property-management backend
  (Python, FastAPI, MongoDB; src/backend).  The development is a shallow embedding: each
  function of a component is a HOL function on an explicit database, each guard and early
  return a branch of it, each raised error a value.

  \<^bold>\<open>The program.\<close>  Rooms are sold by the night.  The collection \<open>room_night_locks\<close>, with its
  unique index on tenant, room and night, is the authority on who holds a night; bookings,
  holds and out-of-order blocks all claim nights there.  Creating, moving, cancelling and
  expiring bookings changes locks, bookings, the audit collections and the event timeline,
  and enqueues events into an outbox that a worker delivers to the channel managers.  The
  room-type inventory is a view computed from the locks.  The business date says which
  accounting day is open.  Money is posted to an append-only folio ledger under that date, and
  check-in and check-out move booking, room, folio and locks together in one transaction.  The
  night audit closes a business date: it charges every guest in the house for the night, turns
  the guests who did not come into no-shows, and moves the date.

  \<^bold>\<open>Theories.\<close>
  \<^item> Prelude: strings, ISO timestamps (\<open>iso\<close>), metadata values, list lemmas.
  \<^item> Store: MongoDB calls on a collection as a list; the interfaces \<open>unique_table\<close> (a
    collection with a unique index, interpreted on the lock collection in Hotel) and
    \<open>invariant_system\<close> (step relations, interpreted on the outbox).
  \<^item> Timeline, Outbox, OutboxDispatch: controlplane/timeline_writer.py,
    core/outbox_service.py, core/outbox_worker.py, core/outbox_dispatcher.py.
  \<^item> Stay: night ranges and overlap filters (core/stay_overlap.py and \<open>_night_dates\<close>).
  \<^item> Hotel: the records of the documents, the database \<open>db\<close> and the environment \<open>env\<close>.
  \<^item> NightLocks, AtomicBooking, RoomBlocks, LockRepair: core/atomic_booking.py.
  \<^item> BookingHold: core/booking_hold_service.py.
  \<^item> ReservationLifecycle: modules/pms_core/reservation_state_machine.py; the interfaces
    \<open>transition_table\<close> and \<open>one_way_table\<close> and their interpretation on the code's table.
  \<^item> RoomTypeInventory: core/room_type_inventory_service.py.
  \<^item> BusinessDate: core/business_date_service.py, core/business_date_transition_guard.py,
    core/reservation_mutability.py.
  \<^item> FolioLedger: core/folio_ledger_service.py; its runs are an interpretation of
    \<open>invariant_system\<close>.
  \<^item> CheckInOut: core/atomic_checkin_checkout.py, core/folio_checkout_reconciliation.py.
  \<^item> RoomPricing: core/channel_room_charge_pricing.py, core/provider_nightly_rates.py.
  \<^item> AuditRules, NightAudit: core/night_audit_hardened.py, core/channel_mapping_issues.py and the
    tax rate of routers/finance/konaklama_vergisi_core.py; the state is \<open>audit_house\<close>, what the
    run does not decide (failures, commit order, ids) is \<open>audit_env\<close>.
  \<^item> AuditChain: core/audit_chain.py and shared_kernel/audit_helper.py, the hash chain of the audit
    rows, its writers (an interpretation of \<open>invariant_system\<close>) and its verifier.
  \<^item> EditLock, EditGuard: core/reservation_edit_lock.py and middleware/reservation_edit_lock_guard.py,
    the lease of a view that edits a reservation (an interpretation of \<open>invariant_system\<close>).
  \<^item> PosFolio: core/pos_folio_consumer.py, the consumer that the dispatcher calls for restaurant
    charges; its deliveries are an interpretation of \<open>invariant_system\<close>.
  \<^item> RoomAssignment: core/room_auto_assignment.py, physical rooms for the reservations of the channels.
  \<^item> ScheduledServices: core/scheduled_guest_services.py and the times of core/mice_integrity.py, the calendar
    of activities and function rooms; its runs are an interpretation of \<open>invariant_system\<close>.
  \<^item> PaymentReports: modules/pms_core/reporting_financials.py, modules/pms_core/report_money.py and
    core/booking_payment_state.py.
  \<^item> AuditInvariant, AuditClose: the theorems on the night audit; its runs are an
    interpretation of \<open>invariant_system\<close>.

  \<^bold>\<open>What the lemmas show.\<close>  Every operation on locks keeps the unique index and, for
  bookings, the invariant that each active booking holds exactly its nights, so two active
  bookings never share a night.  Failed operations leave no locks behind.  Recovery and
  repair delete only locks of bookings that are gone.  The outbox delivers within its
  budget, never reopens a finished event and drains.  The lifecycle only moves forward, and
  cancelling or no-show releases the nights.  The inventory view counts the free rooms.
  The business date is set once and skips no open arrival.  The ledger only grows, numbers
  each folio without a gap, counts a key once and takes a voided entry out once; the nightly
  reconciliation agrees with the check of one folio.  Check-in and check-out keep the lock
  invariant and leave booking, room and folio in matching states; check-out completes the room
  revenue once.  The nightly charges of a stay add up to the price agreed, with the taxes taken
  out of it.  The night audit never has two active charges for a booking and night nor two runs
  for a date, charges exactly the priced stays of a date it closes, rolls the date only over a
  settled run and with no channel reservation waiting, and changes nothing in a simulation; a
  run resumed after a block closes its date uncharged.  The audit rows of a tenant form one gapless
  hash chain under any interleaving of writers; the verifier raises no alarm on it and accepts only
  the rows that were written, up to missing oldest ones.  An edit lease protects its view until it expires, and the guard forwards
  the writes of one view of a reservation at a time.  Restaurant postings may be delivered any number of
  times: each line is on the folio once, a closed folio gets a record for review instead, and a
  refunded order keeps no charge.  The rooms offered to a channel reservation are exactly the free ones,
  and the reservation is stored, with a room or without, whatever conflicts it meets.  No activity
  resource or function room is booked beyond its capacity at any instant.  A payment
  is reported on one day and once for each transaction, the methods of a collection report add up to its total, and
  the reservation agrees with it on tidy rows.

  \<^bold>\<open>Abstractions.\<close>  A timestamp string is a parsed date with a time, a date with a bad tail,
  or junk; string order on ISO strings is the order of date and time.  Instants are integers
  (microseconds do not matter), one clock reading per operation.  Message texts that carry no
  decision are omitted.  The \<open>tenant_context\<close> proxy is the tenant filter in the query.  A
  driver call other than the insert of a booking and the best-effort writes (timeline,
  notification, alert) does not fail.  Aggregation groups come in order of first appearance.
  Money arrives as rationals where the code has floats: \<open>round(x, 2)\<close> is rounding half to even
  to whole cents, \<open>Decimal\<close> quantization rounds half away from zero, and sums of cents are exact.
  A database transaction is all or nothing; without transactions \<open>between\<close> is what other
  clients did to the rooms.  The limits of the code (100, 200, 365, 1000, 2000, 5000, 10000 and 20000 rows per query) are kept and
  appear as hypotheses where a property needs the whole collection.

  \<^bold>\<open>Bounds and fuel.\<close>  \<open>process_batch\<close> recurses on the batch size of the code; every other
  loop is a structural recursion over the list the code iterates.

  \<^bold>\<open>Not modelled.\<close>  The night audit's totals by currency, preview and status queries, and what
  follows a close (ledger bridge, task snapshot, derived payment fields).  Index creation, logging, asyncio task management, HTTP routers and
  provider clients, the field encryption (a parameter of \<open>env\<close>), the digest of the audit chain (a
  parameter of its functions; the night audit and check-out append their audit rows unchained), and the modules listed as
  not modelled in the manifest.
\<close>

end
